(* ===== verification/Squib_Prelude.thy ===== *)
theory Squib_Prelude
  imports Main "HOL-Library.Word"
begin

text \<open>
  The shared ground of the development: the machine integers of the Rust sources as words,
  the integer methods of the Rust standard library that the sources call
  (\<open>checked_add\<close>, \<open>saturating_sub\<close>, \<open>is_power_of_two\<close>, \<open>div_ceil\<close>,
  \<open>trailing_zeros\<close>, \<open>to_le_bytes\<close>, \<open>from_be_bytes\<close> and their kin), slices of byte
  lists, and the generic lemmas the component theories use.

  Plain \<open>+\<close>, \<open>-\<close> and \<open>*\<close> on words wrap around: this is what the release profile the
  repository ships does for the overflowing cases of the Rust operators. Where the sources
  call a checked or saturating method, the model calls the definition below.
\<close>

unbundle bit_operations_syntax

type_synonym u8 = "8 word"
type_synonym u16 = "16 word"
type_synonym u32 = "32 word"
type_synonym u64 = "64 word"
type_synonym u128 = "128 word"
type_synonym bytes = "8 word list"

named_theorems squib_eval \<open>unfolding rules that evaluate the model on concrete inputs\<close>

subsection \<open>Checked and saturating arithmetic\<close>

definition checked_add :: "'a::len word \<Rightarrow> 'a word \<Rightarrow> 'a word option" where
  "checked_add a b = (if unat a + unat b < 2 ^ LENGTH('a) then Some (a + b) else None)"

definition checked_sub :: "'a::len word \<Rightarrow> 'a word \<Rightarrow> 'a word option" where
  "checked_sub a b = (if b \<le> a then Some (a - b) else None)"

definition checked_mul :: "'a::len word \<Rightarrow> 'a word \<Rightarrow> 'a word option" where
  "checked_mul a b = (if unat a * unat b < 2 ^ LENGTH('a) then Some (a * b) else None)"

definition saturating_add :: "'a::len word \<Rightarrow> 'a word \<Rightarrow> 'a word" where
  "saturating_add a b = (if unat a + unat b < 2 ^ LENGTH('a) then a + b else - 1)"

definition saturating_sub :: "'a::len word \<Rightarrow> 'a word \<Rightarrow> 'a word" where
  "saturating_sub a b = (if b \<le> a then a - b else 0)"

definition saturating_mul :: "'a::len word \<Rightarrow> 'a word \<Rightarrow> 'a word" where
  "saturating_mul a b = (if unat a * unat b < 2 ^ LENGTH('a) then a * b else - 1)"

text \<open>\<open>T::try_from(n)\<close> for an unsigned target type, on a value given as a natural number.\<close>

definition try_from_nat :: "nat \<Rightarrow> 'a::len word option" where
  "try_from_nat n = (if n < 2 ^ LENGTH('a) then Some (word_of_nat n) else None)"

text \<open>\<open>T::try_from(n).unwrap_or(T::MAX)\<close>.\<close>

definition try_from_nat_or_max :: "nat \<Rightarrow> 'a::len word" where
  "try_from_nat_or_max n = (case try_from_nat n of Some w \<Rightarrow> w | None \<Rightarrow> - 1)"

lemmas checked_defs = checked_add_def checked_sub_def checked_mul_def
lemmas saturating_defs = saturating_add_def saturating_sub_def saturating_mul_def
lemmas try_from_defs = try_from_nat_def try_from_nat_or_max_def

declare checked_defs [squib_eval] saturating_defs [squib_eval] try_from_defs [squib_eval]

text \<open>Code equations over \<open>int\<close>, whose numerals are binary.\<close>

lemma unat_bound_uint:
  "unat (a :: 'a::len word) + unat (b :: 'a word) < 2 ^ n \<longleftrightarrow> uint a + uint b < 2 ^ n"
  "unat a * unat b < 2 ^ n \<longleftrightarrow> uint a * uint b < 2 ^ n"
proof -
  have "unat a + unat b < 2 ^ n \<longleftrightarrow> int (unat a + unat b) < int (2 ^ n)"
    by (rule of_nat_less_iff [symmetric])
  then show "unat a + unat b < 2 ^ n \<longleftrightarrow> uint a + uint b < 2 ^ n" by simp
  have "unat a * unat b < 2 ^ n \<longleftrightarrow> int (unat a * unat b) < int (2 ^ n)"
    by (rule of_nat_less_iff [symmetric])
  then show "unat a * unat b < 2 ^ n \<longleftrightarrow> uint a * uint b < 2 ^ n" by simp
qed

lemma checked_add_code [code]:
  "checked_add a b = (if uint a + uint b < 2 ^ LENGTH('a) then Some (a + b :: 'a::len word) else None)"
  by (simp add: checked_add_def unat_bound_uint)

lemma checked_mul_code [code]:
  "checked_mul a b = (if uint a * uint b < 2 ^ LENGTH('a) then Some (a * b :: 'a::len word) else None)"
  by (simp add: checked_mul_def unat_bound_uint)

lemma saturating_add_code [code]:
  "saturating_add a b = (if uint a + uint b < 2 ^ LENGTH('a) then a + b else - 1 :: 'a::len word)"
  by (simp add: saturating_add_def unat_bound_uint)

lemma saturating_mul_code [code]:
  "saturating_mul a b = (if uint a * uint b < 2 ^ LENGTH('a) then a * b else - 1 :: 'a::len word)"
  by (simp add: saturating_mul_def unat_bound_uint)

lemma try_from_nat_code [code]:
  "try_from_nat n = (if int n < 2 ^ LENGTH('a) then Some (word_of_int (int n) :: 'a::len word) else None)"
  by (simp add: try_from_nat_def)

lemma unat_max_word: "unat (- 1 :: 'a::len word) = 2 ^ LENGTH('a) - 1"
  by (simp add: unsigned_minus_1_eq_mask mask_eq_exp_minus_1)

lemma checked_add_SomeD:
  "checked_add a b = Some c \<Longrightarrow> unat c = unat a + unat b"
  by (auto simp: checked_add_def unat_word_ariths split: if_splits)

lemma checked_add_Some_iff:
  "(\<exists>c. checked_add (a :: 'a::len word) b = Some c) \<longleftrightarrow> unat a + unat b < 2 ^ LENGTH('a)"
  by (auto simp: checked_add_def)

lemma checked_sub_SomeD:
  "checked_sub a b = Some c \<Longrightarrow> unat c = unat a - unat b \<and> unat b \<le> unat a"
  by (auto simp: checked_sub_def unat_sub word_le_nat_alt split: if_splits)

lemma checked_mul_SomeD:
  "checked_mul a b = Some c \<Longrightarrow> unat c = unat a * unat b"
  by (auto simp: checked_mul_def unat_word_ariths split: if_splits)

lemma unat_saturating_add:
  "unat (saturating_add (a :: 'a::len word) b) = min (unat a + unat b) (2 ^ LENGTH('a) - 1)"
  by (auto simp: saturating_add_def unat_word_ariths unat_max_word)

lemma unat_saturating_sub: "unat (saturating_sub a b) = unat a - unat b"
  by (auto simp: saturating_sub_def unat_sub word_le_nat_alt)

lemma unat_saturating_mul:
  "unat (saturating_mul (a :: 'a::len word) b) = min (unat a * unat b) (2 ^ LENGTH('a) - 1)"
  by (auto simp: saturating_mul_def unat_word_ariths unat_max_word)

lemma unat_min: "unat (min a b) = min (unat a) (unat b)"
  by (simp add: min_def word_le_nat_alt)

lemma unat_lt64 [simp]: "unat (w :: u64) < 18446744073709551616"
  using unsigned_less [of w] by simp

lemma unat_lt32 [simp]: "unat (w :: u32) < 4294967296"
  using unsigned_less [of w] by simp

lemma unat_lt16 [simp]: "unat (w :: u16) < 65536"
  using unsigned_less [of w] by simp

lemma unat_lt8 [simp]: "unat (w :: u8) < 256"
  using unsigned_less [of w] by simp

lemma unat_ucast_up [simp]:
  "LENGTH('a) \<le> LENGTH('b) \<Longrightarrow> unat (ucast (w :: 'a::len word) :: 'b::len word) = unat w"
  by (simp add: unsigned_ucast_eq take_bit_nat_eq_self less_le_trans [OF unsigned_less])

lemma unat_plus_nowrap:
  "unat a + unat b < 2 ^ LENGTH('a) \<Longrightarrow> unat (a + b :: 'a::len word) = unat a + unat b"
  by (simp add: unat_word_ariths)

lemma unat_Suc_less:
  assumes "x < (y :: 'a::len word)"
  shows "unat (x + 1) = Suc (unat x)"
proof -
  have "unat y < 2 ^ LENGTH('a)"
    by (rule unsigned_less)
  moreover have "unat x < unat y"
    using assms by (simp add: word_less_nat_alt)
  ultimately have "unat x + 1 < 2 ^ LENGTH('a)"
    by linarith
  then show ?thesis
    by (simp add: unat_word_ariths(1) unsigned_1)
qed

subsection \<open>Powers of two and bit counting\<close>

definition is_power_of_two :: "'a::len word \<Rightarrow> bool" where
  "is_power_of_two w \<longleftrightarrow> list_ex (\<lambda>k. w = 2 ^ k) [0..<LENGTH('a)]"

text \<open>The smallest power of two not below the argument, \<open>None\<close> if the type has none.\<close>

definition checked_next_power_of_two :: "'a::len word \<Rightarrow> 'a word option" where
  "checked_next_power_of_two w = find (\<lambda>p. w \<le> p) (map (\<lambda>k. 2 ^ k) [0..<LENGTH('a)])"

definition trailing_zeros :: "'a::len word \<Rightarrow> nat" where
  "trailing_zeros w = length (takeWhile (\<lambda>k. \<not> bit w k) [0..<LENGTH('a)])"

definition div_ceil :: "'a::len word \<Rightarrow> 'a word \<Rightarrow> 'a word" where
  "div_ceil a b = (if a mod b > 0 then a div b + 1 else a div b)"

lemma unat_two_power:
  assumes "k < LENGTH('a)"
  shows "unat (2 ^ k :: 'a::len word) = 2 ^ k"
proof -
  have "unat (word_of_nat (2 ^ k) :: 'a word) = 2 ^ k"
    using assms by (simp only: unsigned_of_nat of_nat_id) (simp add: take_bit_nat_eq_self)
  then show ?thesis by simp
qed

lemma is_power_of_two_iff:
  "is_power_of_two (w :: 'a::len word) \<longleftrightarrow> (\<exists>k < LENGTH('a). unat w = 2 ^ k)"
proof -
  have "w = 2 ^ k \<longleftrightarrow> unat w = 2 ^ k" if "k < LENGTH('a)" for k
    using that by (metis unat_two_power unsigned_word_eqI)
  then show ?thesis by (auto simp: is_power_of_two_def list_ex_iff)
qed

lemma trailing_zeros_power:
  assumes k: "k < LENGTH('a)" shows "trailing_zeros (2 ^ k :: 'a::len word) = k"
proof -
  have "takeWhile (\<lambda>i. \<not> bit (2 ^ k :: 'a word) i) [0..<LENGTH('a)] = [0..<k]"
  proof -
    have "[0..<LENGTH('a)] = [0..<k] @ k # [Suc k..<LENGTH('a)]"
      using k by (metis append_is_Nil_conv le0 less_imp_le upt_add_eq_append upt_conv_Cons le_add_diff_inverse)
    then show ?thesis using k
      by (simp add: takeWhile_tail bit_exp_iff takeWhile_append2)
  qed
  then show ?thesis by (simp add: trailing_zeros_def)
qed

lemma find_map_upt:
  "find P (map f [0..<b]) = Some y \<longleftrightarrow>
    (\<exists>k < b. y = f k \<and> P (f k) \<and> (\<forall>j < k. \<not> P (f j)))"
  by (auto simp: find_Some_iff)

lemma checked_next_power_of_two_SomeD:
  assumes "checked_next_power_of_two (w :: 'a::len word) = Some p"
  shows "\<exists>k < LENGTH('a). unat p = 2 ^ k \<and> unat w \<le> 2 ^ k \<and> (k = 0 \<or> 2 ^ (k - 1) < unat w)"
proof -
  from assms obtain k where k: "k < LENGTH('a)" "p = 2 ^ k" "w \<le> 2 ^ k"
    and least: "\<And>j. j < k \<Longrightarrow> \<not> w \<le> 2 ^ j"
    by (auto simp: checked_next_power_of_two_def find_map_upt)
  have "2 ^ (k - 1) < unat w" if "k \<noteq> 0"
    using least [of "k - 1"] that k(1) unat_two_power [of "k - 1", where 'a = 'a]
    by (simp add: word_le_nat_alt)
  with k show ?thesis
    using unat_two_power [of k, where 'a = 'a] by (auto simp: word_le_nat_alt)
qed

lemma checked_next_power_of_two_None_iff:
  "checked_next_power_of_two (w :: 'a::len word) = None \<longleftrightarrow> 2 ^ (LENGTH('a) - 1) < unat w"
proof -
  have "(\<forall>k < LENGTH('a). 2 ^ k < unat w) \<longleftrightarrow> 2 ^ (LENGTH('a) - 1) < unat w"
  proof safe
    fix k assume *: "2 ^ (LENGTH('a) - 1) < unat w" "k < LENGTH('a)"
    then have "(2::nat) ^ k \<le> 2 ^ (LENGTH('a) - 1)" by (intro power_increasing) auto
    with *(1) show "2 ^ k < unat w" by (rule le_less_trans [rotated])
  qed auto
  then show ?thesis
    by (auto simp: checked_next_power_of_two_def find_None_iff word_le_nat_alt unat_two_power not_le)
qed

lemma unat_div_ceil:
  assumes "b \<noteq> 0"
  shows "unat (div_ceil (a :: 'a::len word) b) = (unat a + unat b - 1) div unat b"
proof -
  let ?a = "unat a" and ?b = "unat b"
  have b: "0 < ?b" using assms by (simp add: unat_gt_0)
  show ?thesis
  proof (cases "a mod b > 0")
    case True
    then have r: "0 < ?a mod ?b" by (simp add: word_less_nat_alt unat_mod)
    have "?b \<noteq> 1" using r by auto
    moreover have a0: "?a \<noteq> 0" using r by (metis less_irrefl mod_0)
    ultimately have "?a div ?b < ?a" using b by (simp add: div_less_dividend)
    then have "unat (a div b + 1) = ?a div ?b + 1"
      by (subst unat_plus_nowrap) (auto simp: unat_div intro: le_less_trans [OF _ unsigned_less [of a]])
    moreover have "(?a + ?b - 1) div ?b = ?a div ?b + 1"
    proof -
      have "?a + ?b - 1 = ?b * (?a div ?b + 1) + (?a mod ?b - 1)"
        using r a0 by (simp add: algebra_simps)
      then show ?thesis using b by (simp only: div_mult_self4) (simp add: less_imp_diff_less mod_less_divisor)
    qed
    ultimately show ?thesis using True by (simp add: div_ceil_def)
  next
    case False
    then have r: "?a mod ?b = 0" by (simp add: word_less_nat_alt unat_mod)
    have "?a + ?b - 1 = ?b * (?a div ?b) + (?b - 1)"
      using r b mult_div_mod_eq [of ?b ?a] by simp
    then have "(?a + ?b - 1) div ?b = ?a div ?b"
      using b by (simp only: div_mult_self4) simp
    then show ?thesis using False by (simp add: div_ceil_def unat_div)
  qed
qed

lemma and_flag: "(x AND push_bit n 1 \<noteq> 0) \<longleftrightarrow> bit x n" for x :: "'a::len word"
proof (cases "n < LENGTH('a)")
  case True
  have "push_bit n (1 :: 'a word) = 2 ^ n" by (simp add: push_bit_eq_mult)
  then show ?thesis
    by (metis and_exp_eq_0_iff_not_bit)
next
  case False
  then show ?thesis by (auto simp: bit_simps dest: bit_imp_le_length intro!: bit_word_eqI)
qed

lemma trailing_zeros_least:
  assumes "w \<noteq> (0 :: 'a::len word)"
  shows "trailing_zeros w < LENGTH('a)" "bit w (trailing_zeros w)" "k < trailing_zeros w \<Longrightarrow> \<not> bit w k"
proof -
  let ?xs = "[0..<LENGTH('a)]" and ?P = "\<lambda>k. \<not> bit w k"
  from assms obtain n where n: "n < LENGTH('a)" "bit w n"
    by (metis bit_eqI bit_0_eq bit_imp_le_length bot_apply bot_bool_def)
  have eq: "?xs = takeWhile ?P ?xs @ dropWhile ?P ?xs" by simp
  have nonempty: "dropWhile ?P ?xs \<noteq> []" using n by (auto simp: dropWhile_eq_Nil_conv)
  have len: "length (takeWhile ?P ?xs) < length ?xs"
    using nonempty by (subst (2) eq) (simp del: takeWhile_dropWhile_id)
  then show "trailing_zeros w < LENGTH('a)" by (simp add: trailing_zeros_def)
  have "\<not> ?P (?xs ! length (takeWhile ?P ?xs))" using len by (rule nth_length_takeWhile)
  then show "bit w (trailing_zeros w)" using len by (simp add: trailing_zeros_def)
  show "\<not> bit w k" if "k < trailing_zeros w"
  proof -
    have "takeWhile ?P ?xs ! k = ?xs ! k" using that by (simp add: trailing_zeros_def takeWhile_nth)
    moreover have "takeWhile ?P ?xs ! k \<in> set (takeWhile ?P ?xs)"
      using that by (simp add: trailing_zeros_def)
    ultimately show ?thesis using that len set_takeWhileD [of _ ?P ?xs] by (fastforce simp: trailing_zeros_def)
  qed
qed

lemma and_pred_bit:
  assumes "w \<noteq> (0 :: 'a::len word)"
  shows "bit (w AND (w - 1)) k \<longleftrightarrow> bit w k \<and> k \<noteq> trailing_zeros w"
proof -
  let ?t = "trailing_zeros w"
  note t = trailing_zeros_least [OF assms]
  define v where "v = w AND NOT (2 ^ ?t)"
  have v: "bit v n \<longleftrightarrow> bit w n \<and> n \<noteq> ?t" for n
    by (auto simp: v_def bit_simps dest: bit_imp_le_length)
  have "w = v OR 2 ^ ?t" using t(1,2)
    by (intro bit_word_eqI) (auto simp: bit_or_iff v bit_exp_iff)
  also have "\<dots> = v + 2 ^ ?t"
    by (rule disjunctive_add_eq_or [symmetric]) (auto intro!: bit_word_eqI simp: bit_and_iff v bit_exp_iff)
  finally have "w - 1 = v + mask ?t" by (simp add: mask_eq_decr_exp)
  also have "\<dots> = v OR mask ?t"
    by (rule disjunctive_add_eq_or) (use t(3) in \<open>auto intro!: bit_word_eqI simp: bit_and_iff v bit_mask_iff\<close>)
  finally show ?thesis
    using t(3) by (auto simp: bit_and_iff bit_or_iff v bit_mask_iff)
qed

lemma finite_bits [simp]: "finite {k. bit (w :: 'a::len word) k}"
  by (rule finite_subset [of _ "{..<LENGTH('a)}"]) (auto dest: bit_imp_le_length)

lemma and_pred_card:
  "w \<noteq> (0 :: 'a::len word) \<Longrightarrow> card {k. bit (w AND (w - 1)) k} < card {k. bit w k}"
  by (rule psubset_card_mono) (use trailing_zeros_least(2) in \<open>auto simp: and_pred_bit\<close>)

text \<open>\<open>while bits != 0 { bits.trailing_zeros(); bits &= bits - 1; }\<close>: the bits it visits.\<close>

function word_bits :: "'a::len word \<Rightarrow> nat list" where
  "word_bits w = (if w = 0 then [] else trailing_zeros w # word_bits (w AND (w - 1)))"
  by auto
termination
  by (relation "measure (\<lambda>w. card {k. bit w k})") (auto simp: and_pred_card)

declare word_bits.simps [simp del]

lemma set_word_bits: "set (word_bits w) = {k. bit w k}"
proof (induction w rule: word_bits.induct)
  case (1 w)
  then show ?case
    using trailing_zeros_least(2) [of w] by (auto simp: word_bits.simps [of w] and_pred_bit)
qed

lemma sorted_word_bits: "sorted_wrt (<) (word_bits w)"
proof (induction w rule: word_bits.induct)
  case (1 w)
  then show ?case
    using trailing_zeros_least(3) [of w]
    by (auto simp: word_bits.simps [of w] set_word_bits and_pred_bit) (meson linorder_neqE_nat)
qed

subsection \<open>Slices of byte lists\<close>

text \<open>\<open>&xs[off..off + n]\<close>, and \<open>xs[off..off + ys.len()].copy_from_slice(&ys)\<close>.\<close>

definition slice :: "nat \<Rightarrow> nat \<Rightarrow> 'a list \<Rightarrow> 'a list" where
  "slice off n xs = take n (drop off xs)"

definition overwrite :: "nat \<Rightarrow> 'a list \<Rightarrow> 'a list \<Rightarrow> 'a list" where
  "overwrite off ys xs = take off xs @ ys @ drop (off + length ys) xs"

lemma length_slice [simp]: "length (slice off n xs) = min n (length xs - off)"
  by (simp add: slice_def)

lemma length_overwrite [simp]:
  "off + length ys \<le> length xs \<Longrightarrow> length (overwrite off ys xs) = length xs"
  by (simp add: overwrite_def)

lemma nth_slice: "i < n \<Longrightarrow> off + i < length xs \<Longrightarrow> slice off n xs ! i = xs ! (off + i)"
  by (simp add: slice_def)

lemma nth_overwrite:
  assumes "off + length ys \<le> length xs" "i < length xs"
  shows "overwrite off ys xs ! i =
    (if off \<le> i \<and> i < off + length ys then ys ! (i - off) else xs ! i)"
  using assms by (auto simp: overwrite_def nth_append min_def)

lemma slice_overwrite_same [simp]:
  "off + length ys \<le> length xs \<Longrightarrow> slice off (length ys) (overwrite off ys xs) = ys"
  by (simp add: slice_def overwrite_def)

lemma slice_overwrite_disjoint:
  assumes "off + length ys \<le> length xs" "o2 + n \<le> length xs"
    and "o2 + n \<le> off \<or> off + length ys \<le> o2"
  shows "slice o2 n (overwrite off ys xs) = slice o2 n xs"
  using assms by (intro nth_equalityI) (auto simp: nth_slice nth_overwrite)

lemma slice_append:
  "slice off (n + k) xs = slice off n xs @ slice (off + n) k xs"
  by (simp add: slice_def take_add) (simp add: add.commute)

subsection \<open>Little-endian and big-endian encodings\<close>

text \<open>
  \<open>w.to_le_bytes()\<close> of an \<open>8 * n\<close>-bit integer and \<open>from_le_bytes\<close>; the big-endian forms
  are their reversals.
\<close>

primrec to_le_bytes :: "nat \<Rightarrow> 'a::len word \<Rightarrow> bytes" where
  "to_le_bytes 0 w = []"
| "to_le_bytes (Suc n) w = ucast w # to_le_bytes n (drop_bit 8 w)"

primrec from_le_bytes :: "bytes \<Rightarrow> 'a::len word" where
  "from_le_bytes [] = 0"
| "from_le_bytes (b # bs) = ucast b OR push_bit 8 (from_le_bytes bs)"

definition to_be_bytes :: "nat \<Rightarrow> 'a::len word \<Rightarrow> bytes" where
  "to_be_bytes n w = rev (to_le_bytes n w)"

definition from_be_bytes :: "bytes \<Rightarrow> 'a::len word" where
  "from_be_bytes bs = from_le_bytes (rev bs)"

lemma length_to_le_bytes [simp]: "length (to_le_bytes n w) = n"
  by (induction n arbitrary: w) auto

lemma length_to_be_bytes [simp]: "length (to_be_bytes n w) = n"
  by (simp add: to_be_bytes_def)

lemma bit_from_to_le_bytes:
  "bit (from_le_bytes (to_le_bytes n (w :: 'a::len word)) :: 'a word) i \<longleftrightarrow> i < 8 * n \<and> bit w i"
proof (induction n arbitrary: w i)
  case 0
  then show ?case by simp
next
  case (Suc n)
  show ?case
    by (auto simp: bit_or_iff bit_push_bit_iff Suc.IH bit_ucast_iff bit_drop_bit_eq
        dest: bit_imp_le_length)
qed

lemma from_to_le_bytes:
  "LENGTH('a) \<le> 8 * n \<Longrightarrow> from_le_bytes (to_le_bytes n (w :: 'a::len word)) = w"
  by (rule bit_word_eqI) (auto simp: bit_from_to_le_bytes)

lemma bit_from_le_bytes:
  "bit (from_le_bytes bs :: 'a::len word) i \<longleftrightarrow>
    i < LENGTH('a) \<and> i div 8 < length bs \<and> bit (bs ! (i div 8)) (i mod 8)"
proof (induction bs arbitrary: i)
  case Nil
  then show ?case by simp
next
  case (Cons b bs)
  show ?case
  proof (cases "i < 8")
    case True
    then show ?thesis by (auto simp: bit_or_iff bit_push_bit_iff bit_ucast_iff)
  next
    case False
    then obtain j where i: "i = 8 + j" using le_Suc_ex not_less by blast
    then have "i div 8 = Suc (j div 8)" "i mod 8 = j mod 8" by auto
    with i show ?thesis
      by (auto simp: bit_or_iff bit_push_bit_iff bit_ucast_iff Cons.IH dest: bit_imp_le_length)
  qed
qed

lemma nth_to_le_bytes:
  "i < n \<Longrightarrow> to_le_bytes n w ! i = ucast (drop_bit (8 * i) w)"
proof (induction n arbitrary: w i)
  case 0
  then show ?case by simp
next
  case (Suc n)
  then show ?case by (cases i) (auto simp: add.commute)
qed

lemma to_from_le_bytes:
  assumes "length bs = n" "8 * n \<le> LENGTH('a)"
  shows "to_le_bytes n (from_le_bytes bs :: 'a::len word) = bs"
proof (rule nth_equalityI)
  show "length (to_le_bytes n (from_le_bytes bs :: 'a word)) = length bs" using assms by simp
next
  fix i assume "i < length (to_le_bytes n (from_le_bytes bs :: 'a word))"
  then have i: "i < n" by simp
  show "to_le_bytes n (from_le_bytes bs :: 'a word) ! i = bs ! i"
  proof (rule bit_word_eqI)
    fix k assume "k < LENGTH(8)"
    then have k: "k < 8" by simp
    have "8 * i + k < LENGTH('a)" using i k assms(2) by simp
    with i k assms(1) show "bit (to_le_bytes n (from_le_bytes bs :: 'a word) ! i) k = bit (bs ! i) k"
      by (simp add: nth_to_le_bytes bit_ucast_iff bit_drop_bit_eq bit_from_le_bytes)
  qed
qed

lemma from_to_le_bytes_fixed [simp]:
  "from_le_bytes (to_le_bytes 2 (a :: u16)) = a"
  "from_le_bytes (to_le_bytes 4 (b :: u32)) = b"
  "from_le_bytes (to_le_bytes 8 (c :: u64)) = c"
  by (simp_all add: from_to_le_bytes)

lemma from_to_be_bytes_fixed [simp]:
  "from_be_bytes (to_be_bytes 2 (a :: u16)) = a"
  "from_be_bytes (to_be_bytes 4 (b :: u32)) = b"
  by (simp_all add: from_be_bytes_def to_be_bytes_def)

lemma to_from_be_bytes:
  "length bs = n \<Longrightarrow> 8 * n \<le> LENGTH('a) \<Longrightarrow> to_be_bytes n (from_be_bytes bs :: 'a::len word) = bs"
  by (simp add: from_be_bytes_def to_be_bytes_def to_from_le_bytes)

subsection \<open>Loops\<close>

text \<open>
  \<open>loop { ... }\<close> with a body that breaks (\<open>Inl\<close>) or goes on (\<open>Inr\<close>) with a new state. A loop
  that never breaks is \<open>None\<close>.
\<close>

partial_function (option) break_loop :: "('s \<Rightarrow> 's + 's) \<Rightarrow> 's \<Rightarrow> 's option" where
  "break_loop body s = (case body s of Inl t \<Rightarrow> Some t | Inr t \<Rightarrow> break_loop body t)"

declare break_loop.simps [code]

lemma break_loop_rule:
  assumes "break_loop body s = Some r" "I s"
    and step: "\<And>s t. I s \<Longrightarrow> body s = Inr t \<Longrightarrow> I t"
    and exit: "\<And>s t. I s \<Longrightarrow> body s = Inl t \<Longrightarrow> Q t"
  shows "Q r"
proof -
  have "b = body \<longrightarrow> I s \<longrightarrow> Q r" if "break_loop b s = Some r" for b
    using that
  proof (induction rule: break_loop.raw_induct [rotated, consumes 1, case_names loop])
    case (loop f b s r)
    show ?case
    proof (intro impI)
      assume b: "b = body" and I: "I s"
      show "Q r"
      proof (cases "body s")
        case (Inl t)
        with loop(2) b exit [OF I] show ?thesis by simp
      next
        case (Inr t)
        with loop(2) b have "f body t = Some r" by simp
        with loop(1) step [OF I Inr] show ?thesis by blast
      qed
    qed
  qed
  with assms(1,2) show ?thesis by blast
qed

lemma break_loop_total:
  assumes "I s"
    and "\<And>s t. I s \<Longrightarrow> body s = Inr t \<Longrightarrow> I t \<and> f t < (f s :: nat)"
  shows "\<exists>r. break_loop body s = Some r"
  using assms(1)
proof (induction "f s" arbitrary: s rule: less_induct)
  case less
  then show ?case
    using assms(2) [OF less.prems] by (cases "body s") (auto simp: break_loop.simps [of body s])
qed

end
