(* ===== verification/Guest_Memory.thy ===== *)
theory Guest_Memory
  imports Squib_Prelude
begin

text \<open>
  Guest-physical memory, \<open>src/crates/core/src/memory.rs\<close>: addresses, ranges, the
  \<open>GuestMemory\<close> trait with its little-endian accessors, and the in-process
  implementation \<open>SliceGuestMemory\<close>.

  A \<open>&dyn GuestMemory\<close> is a dictionary of the trait's two required methods
  (record \<open>guest_memory_ops\<close>) over a state type: the interior mutability of the Rust
  implementations is state passing here. The default methods of the trait are definitions
  over the dictionary. The contract of the trait is the locale \<open>guest_memory\<close>; it is
  interpreted on \<open>SliceGuestMemory\<close>.

  Error values carry no message: \<open>Error::MemoryOutOfRange(String)\<close> is
  \<open>MemoryOutOfRange\<close>.
\<close>

datatype core_error =
    Backend
  | MemoryOutOfRange
  | InvalidProtection
  | Unsupported
  | InvalidVcpuState
  | InvalidArgument

subsection \<open>Addresses and ranges\<close>

definition align_down :: "u64 \<Rightarrow> u64 \<Rightarrow> core_error + u64" where
  "align_down self align =
     (if \<not> is_power_of_two align then Inl InvalidArgument
      else Inr (self AND NOT (align - 1)))"

record guest_range =
  gr_base :: u64
  gr_size :: u64

definition guest_range_new :: "u64 \<Rightarrow> u64 \<Rightarrow> core_error + guest_range" where
  "guest_range_new base sz =
     (case checked_add base sz of
        None \<Rightarrow> Inl InvalidArgument
      | Some _ \<Rightarrow> Inr \<lparr>gr_base = base, gr_size = sz\<rparr>)"

definition guest_range_end :: "guest_range \<Rightarrow> u64" where
  "guest_range_end r = gr_base r + gr_size r"

definition guest_range_contains :: "guest_range \<Rightarrow> u64 \<Rightarrow> bool" where
  "guest_range_contains r addr \<longleftrightarrow> gr_base r \<le> addr \<and> addr < gr_base r + gr_size r"

subsection \<open>The trait and its default methods\<close>

record 'm guest_memory_ops =
  gm_read :: "'m \<Rightarrow> u64 \<Rightarrow> nat \<Rightarrow> core_error + bytes"
  gm_write :: "'m \<Rightarrow> u64 \<Rightarrow> bytes \<Rightarrow> core_error + 'm"

definition read_u16_le :: "'m guest_memory_ops \<Rightarrow> 'm \<Rightarrow> u64 \<Rightarrow> core_error + u16" where
  "read_u16_le M m addr =
     (case gm_read M m addr 2 of Inl e \<Rightarrow> Inl e | Inr b \<Rightarrow> Inr (from_le_bytes b))"

definition read_u32_le :: "'m guest_memory_ops \<Rightarrow> 'm \<Rightarrow> u64 \<Rightarrow> core_error + u32" where
  "read_u32_le M m addr =
     (case gm_read M m addr 4 of Inl e \<Rightarrow> Inl e | Inr b \<Rightarrow> Inr (from_le_bytes b))"

definition read_u64_le :: "'m guest_memory_ops \<Rightarrow> 'm \<Rightarrow> u64 \<Rightarrow> core_error + u64" where
  "read_u64_le M m addr =
     (case gm_read M m addr 8 of Inl e \<Rightarrow> Inl e | Inr b \<Rightarrow> Inr (from_le_bytes b))"

definition write_u16_le :: "'m guest_memory_ops \<Rightarrow> 'm \<Rightarrow> u64 \<Rightarrow> u16 \<Rightarrow> core_error + 'm" where
  "write_u16_le M m addr v = gm_write M m addr (to_le_bytes 2 v)"

definition write_u32_le :: "'m guest_memory_ops \<Rightarrow> 'm \<Rightarrow> u64 \<Rightarrow> u32 \<Rightarrow> core_error + 'm" where
  "write_u32_le M m addr v = gm_write M m addr (to_le_bytes 4 v)"

definition write_u64_le :: "'m guest_memory_ops \<Rightarrow> 'm \<Rightarrow> u64 \<Rightarrow> u64 \<Rightarrow> core_error + 'm" where
  "write_u64_le M m addr v = gm_write M m addr (to_le_bytes 8 v)"

lemmas gm_read_defs = read_u16_le_def read_u32_le_def read_u64_le_def
lemmas gm_write_defs = write_u16_le_def write_u32_le_def write_u64_le_def

declare gm_read_defs [squib_eval] gm_write_defs [squib_eval]

subsection \<open>\<open>SliceGuestMemory\<close>\<close>

record slice_memory =
  sm_base :: u64
  sm_bytes :: bytes

definition slice_memory_new :: "u64 \<Rightarrow> nat \<Rightarrow> slice_memory" where
  "slice_memory_new base sz = \<lparr>sm_base = base, sm_bytes = replicate sz 0\<rparr>"

definition slice_memory_from_bytes :: "u64 \<Rightarrow> bytes \<Rightarrow> slice_memory" where
  "slice_memory_from_bytes base bs = \<lparr>sm_base = base, sm_bytes = bs\<rparr>"

definition offset_of :: "slice_memory \<Rightarrow> u64 \<Rightarrow> nat \<Rightarrow> core_error + nat" where
  "offset_of self addr len =
     (let base = sm_base self;
          sz = try_from_nat_or_max (length (sm_bytes self)) :: u64;
          end_addr = saturating_add base sz
      in case try_from_nat len :: u64 option of
           None \<Rightarrow> Inl MemoryOutOfRange
         | Some len_u64 \<Rightarrow>
             (case checked_add addr len_u64 of
                None \<Rightarrow> Inl MemoryOutOfRange
              | Some req_end \<Rightarrow>
                  if addr < base \<or> req_end > end_addr then Inl MemoryOutOfRange
                  else Inr (unat (addr - base))))"

definition slice_read :: "slice_memory \<Rightarrow> u64 \<Rightarrow> nat \<Rightarrow> core_error + bytes" where
  "slice_read self addr n =
     (case offset_of self addr n of
        Inl e \<Rightarrow> Inl e
      | Inr off \<Rightarrow> Inr (slice off n (sm_bytes self)))"

definition slice_write :: "slice_memory \<Rightarrow> u64 \<Rightarrow> bytes \<Rightarrow> core_error + slice_memory" where
  "slice_write self addr buf =
     (case offset_of self addr (length buf) of
        Inl e \<Rightarrow> Inl e
      | Inr off \<Rightarrow> Inr (self\<lparr>sm_bytes := overwrite off buf (sm_bytes self)\<rparr>))"

definition slice_guest_memory :: "slice_memory guest_memory_ops" where
  "slice_guest_memory = \<lparr>gm_read = slice_read, gm_write = slice_write\<rparr>"

lemmas slice_memory_defs =
  slice_guest_memory_def slice_read_def slice_write_def offset_of_def
  slice_memory_new_def slice_memory_from_bytes_def slice_def overwrite_def Let_def

declare slice_memory_defs [squib_eval]

subsection \<open>The contract of the trait\<close>

text \<open>
  What every client of the trait relies on: accesses are byte-accurate, a write is visible
  to later reads of the same bytes and leaves all other bytes alone, and it changes neither
  which addresses are accessible nor the success of any access. Byte ranges are compared as
  ranges of natural numbers, so a range that would wrap around the address space is disjoint
  from nothing it should not be.
\<close>

definition disjoint_ranges :: "u64 \<Rightarrow> nat \<Rightarrow> u64 \<Rightarrow> nat \<Rightarrow> bool" where
  "disjoint_ranges a n b k \<longleftrightarrow> unat a + n \<le> unat b \<or> unat b + k \<le> unat a"

lemma disjoint_ranges_sym: "disjoint_ranges a n b k \<longleftrightarrow> disjoint_ranges b k a n"
  by (auto simp: disjoint_ranges_def)

lemma disjoint_ranges_inside:
  "disjoint_ranges w k a len \<Longrightarrow> unat a \<le> unat x \<Longrightarrow> unat x + n \<le> unat a + len \<Longrightarrow> disjoint_ranges w k x n"
  by (auto simp: disjoint_ranges_def)

lemma disjoint_ranges_shorter:
  "disjoint_ranges w k a n \<Longrightarrow> l \<le> k \<Longrightarrow> disjoint_ranges w l a n"
  by (auto simp: disjoint_ranges_def)

locale guest_memory =
  fixes M :: "'m guest_memory_ops"
  assumes read_length: "gm_read M m a n = Inr bs \<Longrightarrow> length bs = n"
    and write_ok_iff_read_ok:
      "isl (gm_write M m a bs) \<longleftrightarrow> isl (gm_read M m a (length bs))"
    and read_back: "gm_write M m a bs = Inr m' \<Longrightarrow> gm_read M m' a (length bs) = Inr bs"
    and read_other:
      "gm_write M m a bs = Inr m' \<Longrightarrow> disjoint_ranges a (length bs) b n
        \<Longrightarrow> gm_read M m' b n = gm_read M m b n"
    and write_keeps_domain:
      "gm_write M m a bs = Inr m' \<Longrightarrow> isl (gm_read M m' b n) \<longleftrightarrow> isl (gm_read M m b n)"
begin

lemma write_u16_read_back: "write_u16_le M m a v = Inr m' \<Longrightarrow> read_u16_le M m' a = Inr v"
  using read_back [of m a "to_le_bytes 2 v" m'] by (simp add: gm_read_defs gm_write_defs)

lemma write_u32_read_back: "write_u32_le M m a v = Inr m' \<Longrightarrow> read_u32_le M m' a = Inr v"
  using read_back [of m a "to_le_bytes 4 v" m'] by (simp add: gm_read_defs gm_write_defs)

lemma write_u64_read_back: "write_u64_le M m a v = Inr m' \<Longrightarrow> read_u64_le M m' a = Inr v"
  using read_back [of m a "to_le_bytes 8 v" m'] by (simp add: gm_read_defs gm_write_defs)

lemma write_u16_other:
  "write_u16_le M m a v = Inr m' \<Longrightarrow> disjoint_ranges a 2 b n \<Longrightarrow> gm_read M m' b n = gm_read M m b n"
  by (rule read_other [of m a "to_le_bytes 2 v"]) (simp_all add: gm_write_defs)

lemma write_u32_other:
  "write_u32_le M m a v = Inr m' \<Longrightarrow> disjoint_ranges a 4 b n \<Longrightarrow> gm_read M m' b n = gm_read M m b n"
  by (rule read_other [of m a "to_le_bytes 4 v"]) (simp_all add: gm_write_defs)

lemma write_u16_domain:
  "write_u16_le M m a v = Inr m' \<Longrightarrow> isl (gm_read M m' b n) \<longleftrightarrow> isl (gm_read M m b n)"
  unfolding gm_write_defs by (rule write_keeps_domain)

lemma write_u32_domain:
  "write_u32_le M m a v = Inr m' \<Longrightarrow> isl (gm_read M m' b n) \<longleftrightarrow> isl (gm_read M m b n)"
  unfolding gm_write_defs by (rule write_keeps_domain)

lemma write_ok: "gm_read M m a (length bs) = Inr cs \<Longrightarrow> \<exists>m'. gm_write M m a bs = Inr m'"
  using write_ok_iff_read_ok [of m a bs] by (cases "gm_write M m a bs") auto

lemma write_u16_ok: "\<not> isl (gm_read M m a 2) \<Longrightarrow> \<exists>m'. write_u16_le M m a v = Inr m'"
  using write_ok [of m a "to_le_bytes 2 v"] by (cases "gm_read M m a 2") (auto simp: gm_write_defs)

lemma write_u32_ok: "\<not> isl (gm_read M m a 4) \<Longrightarrow> \<exists>m'. write_u32_le M m a v = Inr m'"
  using write_ok [of m a "to_le_bytes 4 v"] by (cases "gm_read M m a 4") (auto simp: gm_write_defs)

end

subsection \<open>\<open>SliceGuestMemory\<close> meets the contract\<close>

definition slice_accessible :: "slice_memory \<Rightarrow> u64 \<Rightarrow> nat \<Rightarrow> bool" where
  "slice_accessible self addr n \<longleftrightarrow>
     unat (sm_base self) \<le> unat addr \<and>
     unat addr + n \<le> unat (sm_base self) + length (sm_bytes self) \<and>
     unat addr + n < 2 ^ 64"

lemma unat_try_from_nat_or_max:
  "unat (try_from_nat_or_max n :: u64) = min n (2 ^ 64 - 1)"
  by (auto simp: try_from_defs unat_max_word unsigned_of_nat take_bit_nat_eq_self)

lemma offset_of_eq:
  "offset_of self addr n =
    (if slice_accessible self addr n then Inr (unat addr - unat (sm_base self))
     else Inl MemoryOutOfRange)"
proof (cases "n < 2 ^ 64 \<and> unat addr + n < 2 ^ 64")
  case False
  then show ?thesis
    by (auto simp: offset_of_def slice_accessible_def Let_def try_from_nat_def checked_add_def
        unsigned_of_nat take_bit_nat_eq_self)
next
  case True
  then have n: "unat (word_of_nat n :: u64) = n"
    by (simp add: unsigned_of_nat take_bit_nat_eq_self)
  have "unat (addr + word_of_nat n) = unat addr + n"
    using True n by (subst unat_plus_nowrap) simp_all
  then show ?thesis
    using True n
    by (auto simp: offset_of_def slice_accessible_def Let_def try_from_nat_def checked_add_def
        word_less_nat_alt unat_saturating_add unat_try_from_nat_or_max unat_sub word_le_nat_alt
        not_less)
qed

lemma slice_read_eq:
  "slice_read self addr n =
    (if slice_accessible self addr n
     then Inr (slice (unat addr - unat (sm_base self)) n (sm_bytes self))
     else Inl MemoryOutOfRange)"
  by (simp add: slice_read_def offset_of_eq)

lemma slice_write_eq:
  "slice_write self addr bs =
    (if slice_accessible self addr (length bs)
     then Inr (self\<lparr>sm_bytes := overwrite (unat addr - unat (sm_base self)) bs (sm_bytes self)\<rparr>)
     else Inl MemoryOutOfRange)"
  by (simp add: slice_write_def offset_of_eq)

lemma slice_accessible_write [simp]:
  "slice_accessible self a (length bs) \<Longrightarrow>
    slice_accessible (self\<lparr>sm_bytes := overwrite (unat a - unat (sm_base self)) bs (sm_bytes self)\<rparr>) b n
    \<longleftrightarrow> slice_accessible self b n"
  by (auto simp: slice_accessible_def)

interpretation slice: guest_memory slice_guest_memory
proof (unfold_locales, goal_cases)
  case (1 m a n bs)
  then show ?case
    by (auto simp: slice_guest_memory_def slice_read_eq slice_accessible_def split: if_splits)
next
  case (2 m a bs)
  then show ?case by (simp add: slice_guest_memory_def slice_read_eq slice_write_eq)
next
  case (3 m a bs m')
  then show ?case
    by (auto simp: slice_guest_memory_def slice_read_eq slice_write_eq slice_accessible_def
        split: if_splits)
next
  case (4 m a bs m' b n)
  then show ?case
    by (auto simp: slice_guest_memory_def slice_read_eq slice_write_eq disjoint_ranges_def
        slice_accessible_def intro!: slice_overwrite_disjoint split: if_splits)
next
  case (5 m a bs m' b n)
  then show ?case
    by (auto simp: slice_guest_memory_def slice_read_eq slice_write_eq split: if_splits)
qed

end
