(* ===== verification/Virt_Queue.thy ===== *)
theory Virt_Queue
  imports Guest_Memory
begin

text \<open>
  The split-ring virtqueue, \<open>src/crates/virtio/src/queue.rs\<close>: queue set-up state and
  cursors, popping descriptor heads off the available ring, walking descriptor chains and
  publishing completions in the used ring. Guest memory is a dictionary of the
  \<open>GuestMemory\<close> trait and a memory state. A method that takes \<open>&mut self\<close> returns the new
  queue beside its result; \<open>push_used\<close> also returns the new memory, on its error paths
  as well, because a failing write leaves the earlier writes in place.

  The lemmas show: the size clamp (\<open>set_size\<close>), that \<open>pop_avail\<close> serves the available
  ring as a FIFO, that \<open>collect\<close> ends and returns exactly the linked chain of at most
  \<open>queue_size\<close> table entries, and what \<open>push_used\<close> makes visible to the driver.
\<close>

unbundle bit_operations_syntax

subsection \<open>State\<close>

definition VIRTQ_DESC_F_NEXT :: u16 where "VIRTQ_DESC_F_NEXT = 1"

definition VIRTQ_DESC_F_WRITE :: u16 where "VIRTQ_DESC_F_WRITE = 2"

record queue =
  q_max_size :: u16
  q_size :: u16
  q_ready :: bool
  q_desc_table_addr :: u64
  q_avail_ring_addr :: u64
  q_used_ring_addr :: u64
  q_next_avail_idx :: u16
  q_next_used_idx :: u16

datatype queue_error =
    QueueNotReady
  | DescriptorOutOfRange u16 u16
  | ChainTooLong u16
  | QueueMemory core_error

record descriptor_chain =
  dc_desc_table_addr :: u64
  dc_queue_size :: u16
  dc_head_index :: u16
  dc_current :: u16
  dc_length :: u16
  dc_done :: bool

record descriptor =
  d_addr :: u64
  d_len :: u32
  d_flags :: u16
  d_next :: u16

definition is_write_only :: "descriptor \<Rightarrow> bool" where
  "is_write_only d \<longleftrightarrow> d_flags d AND VIRTQ_DESC_F_WRITE \<noteq> 0"

definition has_next :: "descriptor \<Rightarrow> bool" where
  "has_next d \<longleftrightarrow> d_flags d AND VIRTQ_DESC_F_NEXT \<noteq> 0"

subsection \<open>Queue set-up\<close>

definition queue_new :: "u16 \<Rightarrow> queue" where
  "queue_new max_size =
     \<lparr>q_max_size = max_size, q_size = max_size, q_ready = False,
      q_desc_table_addr = 0, q_avail_ring_addr = 0, q_used_ring_addr = 0,
      q_next_avail_idx = 0, q_next_used_idx = 0\<rparr>"

definition set_size :: "queue \<Rightarrow> u16 \<Rightarrow> queue" where
  "set_size self requested =
     (let clamped = min requested (q_max_size self)
      in self\<lparr>q_size :=
           (if clamped = 0 then 1
            else if is_power_of_two clamped then clamped
            else (case checked_next_power_of_two clamped of
                    None \<Rightarrow> push_bit 15 1
                  | Some p \<Rightarrow> max (drop_bit 1 p) 1))\<rparr>)"

definition is_valid :: "queue \<Rightarrow> bool" where
  "is_valid self \<longleftrightarrow>
     q_ready self \<and> q_size self > 0 \<and> q_size self \<le> q_max_size self \<and>
     q_desc_table_addr self \<noteq> 0 \<and> q_avail_ring_addr self \<noteq> 0 \<and> q_used_ring_addr self \<noteq> 0"

definition queue_reset :: "queue \<Rightarrow> queue" where
  "queue_reset self =
     self\<lparr>q_size := q_max_size self, q_ready := False,
       q_desc_table_addr := 0, q_avail_ring_addr := 0, q_used_ring_addr := 0,
       q_next_avail_idx := 0, q_next_used_idx := 0\<rparr>"

subsection \<open>The available ring\<close>

definition avail_idx :: "'m guest_memory_ops \<Rightarrow> 'm \<Rightarrow> queue \<Rightarrow> queue_error + u16" where
  "avail_idx M m self =
     (case read_u16_le M m (q_avail_ring_addr self + 2) of
        Inl e \<Rightarrow> Inl (QueueMemory e)
      | Inr v \<Rightarrow> Inr v)"

definition avail_ring_entry :: "'m guest_memory_ops \<Rightarrow> 'm \<Rightarrow> queue \<Rightarrow> u16 \<Rightarrow> queue_error + u16" where
  "avail_ring_entry M m self i =
     (let off = ucast (i mod q_size self) * 2 :: u64
      in case read_u16_le M m (q_avail_ring_addr self + 4 + off) of
           Inl e \<Rightarrow> Inl (QueueMemory e)
         | Inr v \<Rightarrow> Inr v)"

definition pop_avail ::
  "'m guest_memory_ops \<Rightarrow> 'm \<Rightarrow> queue \<Rightarrow> queue \<times> (queue_error + descriptor_chain option)" where
  "pop_avail M m self =
     (if \<not> is_valid self then (self, Inl QueueNotReady)
      else case avail_idx M m self of
        Inl e \<Rightarrow> (self, Inl e)
      | Inr driver_idx \<Rightarrow>
          if driver_idx = q_next_avail_idx self then (self, Inr None)
          else case avail_ring_entry M m self (q_next_avail_idx self) of
            Inl e \<Rightarrow> (self, Inl e)
          | Inr head_idx \<Rightarrow>
              if head_idx \<ge> q_size self
              then (self, Inl (DescriptorOutOfRange head_idx (q_size self)))
              else (self\<lparr>q_next_avail_idx := q_next_avail_idx self + 1\<rparr>,
                    Inr (Some \<lparr>dc_desc_table_addr = q_desc_table_addr self,
                               dc_queue_size = q_size self,
                               dc_head_index = head_idx,
                               dc_current = head_idx,
                               dc_length = 0,
                               dc_done = False\<rparr>)))"

subsection \<open>The used ring\<close>

definition push_used ::
  "'m guest_memory_ops \<Rightarrow> 'm \<Rightarrow> queue \<Rightarrow> u16 \<Rightarrow> u32 \<Rightarrow> ('m \<times> queue) \<times> (queue_error + unit)" where
  "push_used M m self head_index bytes_written =
     (if \<not> is_valid self then ((m, self), Inl QueueNotReady)
      else let slot = q_next_used_idx self mod q_size self;
               elem_addr = q_used_ring_addr self + 4 + ucast slot * 8
      in case write_u32_le M m elem_addr (ucast head_index) of
           Inl e \<Rightarrow> ((m, self), Inl (QueueMemory e))
         | Inr m1 \<Rightarrow>
         (case write_u32_le M m1 (elem_addr + 4) bytes_written of
            Inl e \<Rightarrow> ((m1, self), Inl (QueueMemory e))
          | Inr m2 \<Rightarrow>
            (let self' = self\<lparr>q_next_used_idx := q_next_used_idx self + 1\<rparr>
             in case write_u16_le M m2 (q_used_ring_addr self + 2) (q_next_used_idx self') of
                  Inl e \<Rightarrow> ((m2, self'), Inl (QueueMemory e))
                | Inr m3 \<Rightarrow> ((m3, self'), Inr ()))))"

subsection \<open>Descriptor chains\<close>

text \<open>The four reads of one 16-byte entry of the descriptor table.\<close>

definition read_descriptor ::
  "'m guest_memory_ops \<Rightarrow> 'm \<Rightarrow> u64 \<Rightarrow> u16 \<Rightarrow> queue_error + descriptor" where
  "read_descriptor M m table i =
     (let base = table + ucast i * 16
      in case read_u64_le M m base of
           Inl e \<Rightarrow> Inl (QueueMemory e)
         | Inr addr \<Rightarrow>
         (case read_u32_le M m (base + 8) of
            Inl e \<Rightarrow> Inl (QueueMemory e)
          | Inr len \<Rightarrow>
          (case read_u16_le M m (base + 12) of
             Inl e \<Rightarrow> Inl (QueueMemory e)
           | Inr flags \<Rightarrow>
           (case read_u16_le M m (base + 14) of
              Inl e \<Rightarrow> Inl (QueueMemory e)
            | Inr nxt \<Rightarrow> Inr \<lparr>d_addr = addr, d_len = len, d_flags = flags, d_next = nxt\<rparr>))))"

definition next_descriptor ::
  "'m guest_memory_ops \<Rightarrow> 'm \<Rightarrow> descriptor_chain
    \<Rightarrow> descriptor_chain \<times> (queue_error + descriptor option)" where
  "next_descriptor M m self =
     (if dc_done self then (self, Inr None)
      else if dc_current self \<ge> dc_queue_size self
      then (self, Inl (DescriptorOutOfRange (dc_current self) (dc_queue_size self)))
      else if dc_length self \<ge> dc_queue_size self
      then (self, Inl (ChainTooLong (dc_queue_size self)))
      else case read_descriptor M m (dc_desc_table_addr self) (dc_current self) of
        Inl e \<Rightarrow> (self, Inl e)
      | Inr desc \<Rightarrow>
          let self' = self\<lparr>dc_length := dc_length self + 1\<rparr>
          in (if has_next desc then self'\<lparr>dc_current := d_next desc\<rparr> else self'\<lparr>dc_done := True\<rparr>,
              Inr (Some desc)))"

text \<open>The number of descriptors the chain can still yield: the loop variant of \<open>collect\<close>.\<close>

definition chain_budget :: "descriptor_chain \<Rightarrow> nat" where
  "chain_budget ch =
     (if dc_done ch then 0 else Suc (unat (dc_queue_size ch) - unat (dc_length ch)))"

lemma next_descriptor_budget:
  assumes "next_descriptor M m ch = (ch', Inr (Some d))"
  shows "chain_budget ch' < chain_budget ch"
proof -
  from assms have lt: "\<not> dc_done ch" "dc_length ch < dc_queue_size ch"
    by (auto simp: next_descriptor_def split: if_splits sum.splits)
  then have "unat (dc_length ch + 1) = Suc (unat (dc_length ch))"
    by (intro unat_Suc_less)
  with assms lt show ?thesis
    by (auto simp: next_descriptor_def chain_budget_def Let_def word_less_nat_alt
        split: if_splits sum.splits)
qed

function collect_loop ::
  "'m guest_memory_ops \<Rightarrow> 'm \<Rightarrow> descriptor_chain \<Rightarrow> descriptor list \<Rightarrow> queue_error + descriptor list" where
  "collect_loop M m self out =
     (case next_descriptor M m self of
        (_, Inl e) \<Rightarrow> Inl e
      | (_, Inr None) \<Rightarrow> Inr out
      | (self', Inr (Some d)) \<Rightarrow> collect_loop M m self' (out @ [d]))"
  by pat_completeness auto
termination
  by (relation "measure (\<lambda>(M, m, ch, out). chain_budget ch)") (auto intro: next_descriptor_budget simp: eq_commute)

declare collect_loop.simps [simp del]

definition collect :: "'m guest_memory_ops \<Rightarrow> 'm \<Rightarrow> descriptor_chain \<Rightarrow> queue_error + descriptor list" where
  "collect M m self = collect_loop M m self []"

subsection \<open>The size clamp\<close>

lemma queue_size_clamp:
  fixes c :: u16
  defines "s \<equiv> (if c = 0 then 1 else if is_power_of_two c then c
     else (case checked_next_power_of_two c of None \<Rightarrow> push_bit 15 1 | Some p \<Rightarrow> max (drop_bit 1 p) 1))"
  shows "is_power_of_two s \<and> unat s \<le> max 1 (unat c) \<and> max 1 (unat c) < 2 * unat s"
proof -
  consider (zero) "c = 0" | (pow) "c \<noteq> 0" "is_power_of_two c"
    | (top) "c \<noteq> 0" "\<not> is_power_of_two c" "checked_next_power_of_two c = None"
    | (round) p where "c \<noteq> 0" "\<not> is_power_of_two c" "checked_next_power_of_two c = Some p"
    by (cases "checked_next_power_of_two c") auto
  then show ?thesis
  proof cases
    case zero
    then show ?thesis by (auto simp: s_def is_power_of_two_iff intro: exI [of _ 0])
  next
    case pow
    then have "0 < unat c" by (simp add: unat_gt_0)
    with pow show ?thesis by (auto simp: s_def)
  next
    case top
    have "unat (push_bit 15 1 :: u16) = 2 ^ 15" by (simp add: push_bit_eq_mult)
    moreover have "2 ^ 15 < unat c" using top(3) by (simp add: checked_next_power_of_two_None_iff)
    moreover have "unat c < 2 ^ 16" using unat_lt16 [of c] by simp
    ultimately show ?thesis using top
      by (auto simp: s_def is_power_of_two_iff intro: exI [of _ 15])
  next
    case round
    then obtain k where k: "k < 16" "unat p = 2 ^ k" "unat c \<le> 2 ^ k" "k = 0 \<or> 2 ^ (k - 1) < unat c"
      using checked_next_power_of_two_SomeD [OF round(3)] by auto
    have ne: "unat c \<noteq> 2 ^ j" if "j < 16" for j
      using round(2) that by (auto simp: is_power_of_two_iff)
    have "0 < unat c" using round(1) by (simp add: unat_gt_0)
    have "k \<noteq> 0" using ne [of 0] k \<open>0 < unat c\<close> by (auto intro!: Nat.gr0I)
    then obtain j where j: "k = Suc j" by (cases k) auto
    have "unat (drop_bit 1 p) = 2 ^ j"
      using k(2) j by (simp add: drop_bit_eq_div unat_div)
    moreover from this have "max (drop_bit 1 p) 1 = drop_bit 1 p"
      by (intro max.absorb1) (simp add: word_le_nat_alt)
    ultimately have "s = drop_bit 1 p" "unat s = 2 ^ j"
      using round by (simp_all add: s_def)
    then show ?thesis using k j ne [of k] \<open>0 < unat c\<close>
      by (auto simp: is_power_of_two_iff intro!: exI [of _ j])
  qed
qed

text \<open>Size of the queue: positive and at most the device's maximum, a power of two if that is.\<close>

definition queue_wf :: "queue \<Rightarrow> bool" where
  "queue_wf q \<longleftrightarrow> 0 < q_size q \<and> q_size q \<le> q_max_size q \<and> is_power_of_two (q_size q)"

lemma queue_wf_new: "is_power_of_two n \<Longrightarrow> queue_wf (queue_new n)"
  by (auto simp: queue_wf_def queue_new_def is_power_of_two_iff word_less_nat_alt)

lemma queue_wf_set_size: "0 < q_max_size q \<Longrightarrow> queue_wf (set_size q r)"
  using queue_size_clamp [of "min r (q_max_size q)"]
  by (auto simp: queue_wf_def set_size_def Let_def word_less_nat_alt word_le_nat_alt min_def
      split: if_splits)

lemma queue_wf_reset: "is_power_of_two (q_max_size q) \<Longrightarrow> queue_wf (queue_reset q)"
  by (auto simp: queue_wf_def queue_reset_def is_power_of_two_iff word_less_nat_alt)

subsection \<open>The available ring is a FIFO\<close>

text \<open>
  The driver's view: the heads published and not yet popped, oldest first, are the ring
  entries from \<open>next_avail_idx\<close> up to the driver's index, both running modulo \<open>2 ^ 16\<close>.
\<close>

definition pending_heads :: "'m guest_memory_ops \<Rightarrow> 'm \<Rightarrow> queue \<Rightarrow> (queue_error + u16) list" where
  "pending_heads M m q =
     (case avail_idx M m q of
        Inl _ \<Rightarrow> []
      | Inr driver_idx \<Rightarrow>
          map (\<lambda>k. avail_ring_entry M m q (q_next_avail_idx q + of_nat k))
            [0..<unat (driver_idx - q_next_avail_idx q)])"

definition chain_at :: "queue \<Rightarrow> u16 \<Rightarrow> descriptor_chain" where
  "chain_at q h =
     \<lparr>dc_desc_table_addr = q_desc_table_addr q, dc_queue_size = q_size q, dc_head_index = h,
      dc_current = h, dc_length = 0, dc_done = False\<rparr>"

lemma pending_heads_Cons:
  assumes "avail_idx M m q = Inr d" "d \<noteq> q_next_avail_idx q"
  shows "pending_heads M m q =
    avail_ring_entry M m q (q_next_avail_idx q)
      # pending_heads M m (q\<lparr>q_next_avail_idx := q_next_avail_idx q + 1\<rparr>)"
proof -
  let ?n = "q_next_avail_idx q"
  have nz: "d - ?n \<noteq> 0" using assms(2) by simp
  then have "0 < unat (d - ?n)" by (rule unat_gt_0 [THEN iffD2])
  moreover have "unat (d - (?n + 1)) = unat (d - ?n) - 1"
    using unat_minus_one [OF nz] by (simp add: diff_diff_eq)
  ultimately have n: "unat (d - ?n) = Suc (unat (d - (?n + 1)))" by linarith
  have a: "avail_idx M m (q\<lparr>q_next_avail_idx := x\<rparr>) = avail_idx M m q"
    "avail_ring_entry M m (q\<lparr>q_next_avail_idx := x\<rparr>) = avail_ring_entry M m q" for x
    by (simp_all add: avail_idx_def avail_ring_entry_def fun_eq_iff)
  show ?thesis
    using assms(1) by (simp add: pending_heads_def a n upt_conv_Cons [of 0] map_Suc_upt [symmetric] del: upt_Suc)
      (simp add: ac_simps)
qed

lemma pending_heads_empty:
  "avail_idx M m q = Inr d \<Longrightarrow> pending_heads M m q = [] \<longleftrightarrow> d = q_next_avail_idx q"
  by (auto simp: pending_heads_def unat_eq_0)

lemma pop_avail_fifo_aux:
  assumes "is_valid q" "avail_idx M m q = Inr d"
  shows "pop_avail M m q =
    (case pending_heads M m q of
       [] \<Rightarrow> (q, Inr None)
     | Inl e # _ \<Rightarrow> (q, Inl e)
     | Inr h # _ \<Rightarrow>
         if h < q_size q
         then (q\<lparr>q_next_avail_idx := q_next_avail_idx q + 1\<rparr>, Inr (Some (chain_at q h)))
         else (q, Inl (DescriptorOutOfRange h (q_size q))))"
  using assms pending_heads_Cons [OF assms(2)] pending_heads_empty [OF assms(2)]
  by (cases "d = q_next_avail_idx q")
    (auto simp: pop_avail_def chain_at_def not_less split: sum.splits)

subsection \<open>Chains\<close>

text \<open>
  The chain the driver linked from table entry \<open>i\<close>: in-range readable entries, each but the
  last with the NEXT flag and pointing to its successor.
\<close>

inductive linked_chain ::
  "'m guest_memory_ops \<Rightarrow> 'm \<Rightarrow> u64 \<Rightarrow> u16 \<Rightarrow> u16 \<Rightarrow> descriptor list \<Rightarrow> bool"
  for M :: "'m guest_memory_ops" and m :: 'm and table :: u64 and n :: u16 where
  chain_last: "i < n \<Longrightarrow> read_descriptor M m table i = Inr d \<Longrightarrow> \<not> has_next d
    \<Longrightarrow> linked_chain M m table n i [d]"
| chain_link: "i < n \<Longrightarrow> read_descriptor M m table i = Inr d \<Longrightarrow> has_next d
    \<Longrightarrow> linked_chain M m table n (d_next d) ds \<Longrightarrow> linked_chain M m table n i (d # ds)"

inductive_simps linked_chain_unfold: "linked_chain M m table n i ds"

lemma linked_chain_nonempty: "linked_chain M m table n i ds \<Longrightarrow> ds \<noteq> []"
  by (induction rule: linked_chain.induct) auto

lemma linked_chain_unique:
  "linked_chain M m table n i ds \<Longrightarrow> linked_chain M m table n i ds' \<Longrightarrow> ds = ds'"
proof (induction arbitrary: ds' rule: linked_chain.induct)
  case (chain_last i d)
  then show ?case by (simp add: linked_chain_unfold [of M m table n i])
next
  case (chain_link i d ds)
  from chain_link.prems chain_link.hyps obtain ds''
    where "ds' = d # ds''" "linked_chain M m table n (d_next d) ds''"
    by (auto simp: linked_chain_unfold [of M m table n i])
  with chain_link.IH show ?case by blast
qed

lemma collect_loop_done: "dc_done ch \<Longrightarrow> collect_loop M m ch out = Inr out"
  by (subst collect_loop.simps) (simp add: next_descriptor_def)

lemma collect_loop_iff:
  "\<not> dc_done ch \<Longrightarrow>
    collect_loop M m ch out = Inr r \<longleftrightarrow>
      (\<exists>ds. r = out @ ds \<and>
        linked_chain M m (dc_desc_table_addr ch) (dc_queue_size ch) (dc_current ch) ds \<and>
        unat (dc_length ch) + length ds \<le> unat (dc_queue_size ch))"
proof (induction M m ch out rule: collect_loop.induct)
  case (1 M m ch out)
  let ?t = "dc_desc_table_addr ch" and ?n = "dc_queue_size ch"
  let ?i = "dc_current ch" and ?l = "dc_length ch"
  show ?case
  proof (cases "?i < ?n \<and> ?l < ?n \<and> (\<exists>d. read_descriptor M m ?t ?i = Inr d)")
    case False
    then have "isl (collect_loop M m ch out)"
      using "1.prems"
      by (subst collect_loop.simps) (auto simp: next_descriptor_def not_less split: sum.splits)
    moreover have "\<not> (linked_chain M m ?t ?n ?i ds \<and> unat ?l + length ds \<le> unat ?n)" for ds
      using False linked_chain_nonempty [of M m ?t ?n ?i ds]
      by (cases ds) (auto simp: linked_chain_unfold [of M m ?t ?n ?i] word_less_nat_alt)
    ultimately show ?thesis by (cases "collect_loop M m ch out") auto
  next
    case True
    then obtain d where d: "?i < ?n" "?l < ?n" "read_descriptor M m ?t ?i = Inr d" by auto
    then have len: "unat (?l + 1) = Suc (unat ?l)" by (intro unat_Suc_less)
    show ?thesis
    proof (cases "has_next d")
      case False
      let ?ch = "ch\<lparr>dc_length := ?l + 1, dc_done := True\<rparr>"
      have "collect_loop M m ch out = Inr (out @ [d])"
        using "1.prems" d False
        by (subst collect_loop.simps) (auto simp: next_descriptor_def Let_def collect_loop_done)
      then show ?thesis using d False
        by (auto simp: linked_chain_unfold [of M m ?t ?n ?i] word_less_nat_alt)
    next
      case True
      let ?ch = "ch\<lparr>dc_length := ?l + 1, dc_current := d_next d\<rparr>"
      have nd: "next_descriptor M m ch = (?ch, Inr (Some d))"
        using "1.prems" d True by (auto simp: next_descriptor_def Let_def)
      then have "collect_loop M m ch out = collect_loop M m ?ch (out @ [d])"
        by (subst collect_loop.simps) simp
      then show ?thesis
        using "1.IH" [OF nd [symmetric] refl refl] "1.prems" d True len
        by (auto simp: linked_chain_unfold [of M m ?t ?n ?i])
    qed
  qed
qed

lemma collect_iff:
  "collect M m (chain_at q h) = Inr ds \<longleftrightarrow>
    linked_chain M m (q_desc_table_addr q) (q_size q) h ds \<and> length ds \<le> unat (q_size q)"
  by (auto simp: collect_def chain_at_def collect_loop_iff)

text \<open>A loop of NEXT links, which the driver can build at will, is cut off after \<open>queue_size\<close> steps.\<close>

definition next_closed :: "'m guest_memory_ops \<Rightarrow> 'm \<Rightarrow> u64 \<Rightarrow> u16 \<Rightarrow> u16 list \<Rightarrow> bool" where
  "next_closed M m table n S \<longleftrightarrow>
     list_all (\<lambda>i. i < n \<and>
       (case read_descriptor M m table i of
          Inl _ \<Rightarrow> False
        | Inr d \<Rightarrow> has_next d \<and> d_next d \<in> set S)) S"

lemma collect_loop_cycle:
  "next_closed M m (dc_desc_table_addr ch) (dc_queue_size ch) S \<Longrightarrow> dc_current ch \<in> set S \<Longrightarrow>
    \<not> dc_done ch \<Longrightarrow> collect_loop M m ch out = Inl (ChainTooLong (dc_queue_size ch))"
proof (induction M m ch out rule: collect_loop.induct)
  case (1 M m ch out)
  from "1.prems" obtain d where d: "dc_current ch < dc_queue_size ch"
    "read_descriptor M m (dc_desc_table_addr ch) (dc_current ch) = Inr d"
    "has_next d" "d_next d \<in> set S"
    by (cases "read_descriptor M m (dc_desc_table_addr ch) (dc_current ch)")
      (auto simp: next_closed_def list_all_iff split: sum.splits)
  show ?case
  proof (cases "dc_length ch < dc_queue_size ch")
    case False
    with d "1.prems" show ?thesis
      by (subst collect_loop.simps) (simp add: next_descriptor_def not_less)
  next
    case True
    let ?ch = "ch\<lparr>dc_length := dc_length ch + 1, dc_current := d_next d\<rparr>"
    have nd: "next_descriptor M m ch = (?ch, Inr (Some d))"
      using "1.prems" d True by (auto simp: next_descriptor_def Let_def)
    have "collect_loop M m ch out = collect_loop M m ?ch (out @ [d])"
      by (subst collect_loop.simps) (simp add: nd)
    with "1.IH" [OF nd [symmetric] refl refl] "1.prems" d show ?thesis by simp
  qed
qed

subsection \<open>Publishing a completion\<close>

definition used_ring_fits :: "queue \<Rightarrow> bool" where
  "used_ring_fits q \<longleftrightarrow> unat (q_used_ring_addr q) + (4 + 8 * unat (q_size q)) \<le> 2 ^ 64"

definition used_elem_addr :: "queue \<Rightarrow> u16 \<Rightarrow> u64" where
  "used_elem_addr q k = q_used_ring_addr q + 4 + ucast (k mod q_size q) * 8"

text \<open>What the driver reads in the used ring: the index, and the element at ring position \<open>k\<close>.\<close>

definition used_idx :: "'m guest_memory_ops \<Rightarrow> 'm \<Rightarrow> queue \<Rightarrow> core_error + u16" where
  "used_idx M m q = read_u16_le M m (q_used_ring_addr q + 2)"

definition used_elem :: "'m guest_memory_ops \<Rightarrow> 'm \<Rightarrow> queue \<Rightarrow> u16 \<Rightarrow> (core_error + u32) \<times> (core_error + u32)" where
  "used_elem M m q k =
     (read_u32_le M m (used_elem_addr q k), read_u32_le M m (used_elem_addr q k + 4))"

lemma used_addrs:
  assumes "used_ring_fits q" "0 < q_size q"
  shows "unat (q_used_ring_addr q + 2) = unat (q_used_ring_addr q) + 2" (is ?idx)
    and "unat (used_elem_addr q k) = unat (q_used_ring_addr q) + 4 + 8 * unat (k mod q_size q)" (is ?elem)
    and "unat (used_elem_addr q k + 4) = unat (q_used_ring_addr q) + 8 + 8 * unat (k mod q_size q)" (is ?len)
    and "unat (k mod q_size q) < unat (q_size q)"
proof -
  let ?u = "q_used_ring_addr q" and ?s = "k mod q_size q"
  show lt: "unat ?s < unat (q_size q)"
    using assms(2) by (simp add: unat_mod word_less_nat_alt)
  have fits: "unat ?u + 4 + 8 * unat ?s + 8 \<le> 2 ^ 64"
    using assms(1) lt by (simp add: used_ring_fits_def)
  show ?idx using fits by (subst unat_plus_nowrap) simp_all
  have s8: "unat (ucast ?s * 8 :: u64) = 8 * unat ?s"
    using fits by (subst unat_word_ariths(2)) simp
  have u4: "unat (?u + 4) = unat ?u + 4"
    using fits by (subst unat_plus_nowrap) simp_all
  show e: ?elem
    unfolding used_elem_addr_def using fits s8 u4 by (subst unat_plus_nowrap) simp_all
  show ?len
    using fits e by (subst unat_plus_nowrap) simp_all
qed

lemma push_used_OK:
  assumes "push_used M m q h n = ((m', q'), Inr ())"
  obtains m1 m2 where "is_valid q" "q' = q\<lparr>q_next_used_idx := q_next_used_idx q + 1\<rparr>"
    "write_u32_le M m (used_elem_addr q (q_next_used_idx q)) (ucast h) = Inr m1"
    "write_u32_le M m1 (used_elem_addr q (q_next_used_idx q) + 4) n = Inr m2"
    "write_u16_le M m2 (q_used_ring_addr q + 2) (q_next_used_idx q + 1) = Inr m'"
  using assms by (auto simp: push_used_def Let_def used_elem_addr_def split: if_splits sum.splits)

lemma used_disjoint:
  fixes q :: queue and i :: u16
  assumes "used_ring_fits q" "0 < q_size q"
  defines "e \<equiv> used_elem_addr q i" and "u \<equiv> q_used_ring_addr q"
  shows "disjoint_ranges (e + 4) 4 e 4" "disjoint_ranges (u + 2) 2 e 4" "disjoint_ranges (u + 2) 2 (e + 4) 4"
    and "k mod q_size q \<noteq> i mod q_size q \<Longrightarrow>
      disjoint_ranges e 4 (used_elem_addr q k) 4 \<and> disjoint_ranges e 4 (used_elem_addr q k + 4) 4 \<and>
      disjoint_ranges (e + 4) 4 (used_elem_addr q k) 4 \<and>
      disjoint_ranges (e + 4) 4 (used_elem_addr q k + 4) 4"
    and "disjoint_ranges u (4 + 8 * unat (q_size q)) a n \<Longrightarrow>
      disjoint_ranges e 4 a n \<and> disjoint_ranges (e + 4) 4 a n \<and> disjoint_ranges (u + 2) 2 a n"
proof -
  note addrs = used_addrs [OF assms(1,2), folded u_def]
  note ad = addrs(1) addrs(2,3) [of i, folded e_def]
  show "disjoint_ranges (e + 4) 4 e 4" "disjoint_ranges (u + 2) 2 e 4" "disjoint_ranges (u + 2) 2 (e + 4) 4"
    using ad by (simp_all add: disjoint_ranges_def)
  show "disjoint_ranges e 4 a n \<and> disjoint_ranges (e + 4) 4 a n \<and> disjoint_ranges (u + 2) 2 a n"
    if "disjoint_ranges u (4 + 8 * unat (q_size q)) a n"
    using that ad addrs(4) [of i] by (auto simp: disjoint_ranges_def)
  show "disjoint_ranges e 4 (used_elem_addr q k) 4 \<and> disjoint_ranges e 4 (used_elem_addr q k + 4) 4 \<and>
      disjoint_ranges (e + 4) 4 (used_elem_addr q k) 4 \<and>
      disjoint_ranges (e + 4) 4 (used_elem_addr q k + 4) 4"
    if "k mod q_size q \<noteq> i mod q_size q"
  proof -
    have "unat (k mod q_size q) \<noteq> unat (i mod q_size q)" using that by (simp flip: word_unat_eq_iff)
    then show ?thesis using ad addrs(2,3) [of k] by (auto simp: disjoint_ranges_def)
  qed
qed

context guest_memory
begin

lemma push_used_elsewhere:
  assumes "push_used M m q h n = ((m', q'), Inr ())" "used_ring_fits q"
    and "disjoint_ranges (q_used_ring_addr q) (4 + 8 * unat (q_size q)) a k"
  shows "gm_read M m' a k = gm_read M m a k"
  using assms(1)
proof (rule push_used_OK)
  fix m1 m2
  let ?e = "used_elem_addr q (q_next_used_idx q)" and ?u = "q_used_ring_addr q"
  assume v: "is_valid q" and w: "write_u32_le M m ?e (ucast h) = Inr m1"
    "write_u32_le M m1 (?e + 4) n = Inr m2"
    "write_u16_le M m2 (?u + 2) (q_next_used_idx q + 1) = Inr m'"
  have "0 < q_size q" using v by (simp add: is_valid_def)
  from used_disjoint(5) [OF assms(2) this assms(3), where i = "q_next_used_idx q"]
  show ?thesis
    using write_u32_other [OF w(1), of a k] write_u32_other [OF w(2), of a k]
      write_u16_other [OF w(3), of a k] by simp
qed

lemma push_used_ring:
  assumes "push_used M m q h n = ((m', q'), Inr ())" "used_ring_fits q"
  shows "used_idx M m' q = Inr (q_next_used_idx q + 1)"
    and "used_elem M m' q (q_next_used_idx q) = (Inr (ucast h), Inr n)"
    and "k mod q_size q \<noteq> q_next_used_idx q mod q_size q \<Longrightarrow> used_elem M m' q k = used_elem M m q k"
proof -
  let ?e = "used_elem_addr q (q_next_used_idx q)" and ?u = "q_used_ring_addr q"
  from assms(1) obtain m1 m2 where v: "is_valid q" and w: "write_u32_le M m ?e (ucast h) = Inr m1"
    "write_u32_le M m1 (?e + 4) n = Inr m2"
    "write_u16_le M m2 (?u + 2) (q_next_used_idx q + 1) = Inr m'"
    by (rule push_used_OK)
  have pos: "0 < q_size q" using v by (simp add: is_valid_def)
  note dis = used_disjoint [OF assms(2) pos, where i = "q_next_used_idx q"]
  show "used_idx M m' q = Inr (q_next_used_idx q + 1)"
    using write_u16_read_back [OF w(3)] by (simp add: used_idx_def)
  show "used_elem M m' q (q_next_used_idx q) = (Inr (ucast h), Inr n)"
    using write_u32_read_back [OF w(1)] write_u32_read_back [OF w(2)]
      write_u32_other [OF w(2) dis(1)] write_u16_other [OF w(3) dis(2)] write_u16_other [OF w(3) dis(3)]
    by (simp add: used_elem_def read_u32_le_def)
  show "used_elem M m' q k = used_elem M m q k" if "k mod q_size q \<noteq> q_next_used_idx q mod q_size q"
    using dis(4) [OF that] used_disjoint(2,3) [OF assms(2) pos, where i = k]
      write_u32_other [OF w(1)] write_u32_other [OF w(2)] write_u16_other [OF w(3)]
    by (simp add: used_elem_def read_u32_le_def)
qed

lemma push_used_succeeds:
  assumes v: "is_valid q"
    and ok: "used_idx M m q = Inr i" "used_elem M m q (q_next_used_idx q) = (Inr x, Inr y)"
  shows "\<exists>m'. push_used M m q h n = ((m', q\<lparr>q_next_used_idx := q_next_used_idx q + 1\<rparr>), Inr ())"
proof -
  let ?e = "used_elem_addr q (q_next_used_idx q)" and ?u = "q_used_ring_addr q"
  have dom: "\<not> isl (gm_read M m (?u + 2) 2)" "\<not> isl (gm_read M m ?e 4)" "\<not> isl (gm_read M m (?e + 4) 4)"
    using ok by (auto simp: used_idx_def used_elem_def gm_read_defs split: sum.splits)
  obtain m1 where w1: "write_u32_le M m ?e (ucast h) = Inr m1"
    using write_u32_ok [OF dom(2)] by blast
  obtain m2 where w2: "write_u32_le M m1 (?e + 4) n = Inr m2"
    using write_u32_ok [of m1 "?e + 4"] write_u32_domain [OF w1] dom(3) by blast
  obtain m3 where w3: "write_u16_le M m2 (?u + 2) (q_next_used_idx q + 1) = Inr m3"
    using write_u16_ok [of m2 "?u + 2"] write_u32_domain [OF w1] write_u32_domain [OF w2] dom(1) by blast
  show ?thesis
    using v w1 w2 w3 by (simp add: push_used_def Let_def used_elem_addr_def)
qed

end

subsection \<open>A two-entry queue\<close>

text \<open>
  A concrete ring for the instances below: a table of two linked descriptors at \<open>0x1000\<close>,
  the available ring at \<open>0x1020\<close> with one published head, the used ring at \<open>0x1028\<close>.
  The second memory closes the two descriptors into a loop.
\<close>

definition demo_rings :: bytes where
  "demo_rings = [0,0, 1,0, 0,0, 0,0] @ replicate 20 0"

definition demo_desc0 :: descriptor where
  "demo_desc0 = \<lparr>d_addr = 0x2000, d_len = 16, d_flags = 1, d_next = 1\<rparr>"

definition demo_desc1 :: descriptor where
  "demo_desc1 = \<lparr>d_addr = 0x3000, d_len = 512, d_flags = 2, d_next = 0\<rparr>"

definition demo_memory :: slice_memory where
  "demo_memory = slice_memory_from_bytes 0x1000
     ([0,0x20,0,0,0,0,0,0, 16,0,0,0, 1,0, 1,0] @ [0,0x30,0,0,0,0,0,0, 0,2,0,0, 2,0, 0,0] @ demo_rings)"

definition demo_loop_memory :: slice_memory where
  "demo_loop_memory = slice_memory_from_bytes 0x1000
     ([0,0x20,0,0,0,0,0,0, 16,0,0,0, 1,0, 1,0] @ [0,0x30,0,0,0,0,0,0, 0,2,0,0, 3,0, 0,0] @ demo_rings)"

definition demo_queue :: queue where
  "demo_queue =
     \<lparr>q_max_size = 4, q_size = 2, q_ready = True, q_desc_table_addr = 0x1000,
      q_avail_ring_addr = 0x1020, q_used_ring_addr = 0x1028,
      q_next_avail_idx = 0, q_next_used_idx = 0\<rparr>"

lemma demo_pop:
  "pop_avail slice_guest_memory demo_memory demo_queue =
    (demo_queue\<lparr>q_next_avail_idx := 1\<rparr>, Inr (Some (chain_at demo_queue 0)))"
  by code_simp

subsection \<open>Properties of the queue\<close>

text \<open>
  C2. For a chain handed out by \<open>pop_avail\<close>, \<open>collect\<close> (a total function: the walk always
  ends) returns a list exactly when that list is the chain the driver linked from the popped
  head through in-range, readable table entries and has at most \<open>queue_size\<close> entries; every
  other table makes it return an error.
\<close>

theorem collect_exact:
  assumes "pop_avail M m q = (q', Inr (Some ch))"
  shows "collect M m ch = Inr ds \<longleftrightarrow>
    linked_chain M m (q_desc_table_addr q) (q_size q) (dc_head_index ch) ds \<and>
    length ds \<le> unat (q_size q)"
proof -
  from assms have "ch = chain_at q (dc_head_index ch)"
    by (auto simp: pop_avail_def chain_at_def split: if_splits sum.splits)
  then show ?thesis by (metis collect_iff)
qed

theorem collect_exact_witness:
  "collect slice_guest_memory demo_memory (chain_at demo_queue 0) = Inr [demo_desc0, demo_desc1]"
proof -
  have d0: "read_descriptor slice_guest_memory demo_memory 0x1000 0 = Inr demo_desc0"
    "has_next demo_desc0" "d_next demo_desc0 = 1" by code_simp+
  have d1: "read_descriptor slice_guest_memory demo_memory 0x1000 1 = Inr demo_desc1"
    "\<not> has_next demo_desc1" by code_simp+
  from chain_last [OF _ d1, of 2] d0
  have "linked_chain slice_guest_memory demo_memory 0x1000 2 0 [demo_desc0, demo_desc1]"
    by (intro chain_link [where i = 0]) simp_all
  with collect_exact [OF demo_pop, of "[demo_desc0, demo_desc1]"] show ?thesis
    by (simp add: chain_at_def demo_queue_def)
qed

text \<open>
  A driver that links descriptors into a loop cannot hold the device: if every table entry
  of a set that contains the popped head is readable and points back into the set, \<open>collect\<close>
  ends with \<open>ChainTooLong\<close>.
\<close>

theorem collect_cycle:
  assumes "pop_avail M m q = (q', Inr (Some ch))"
    and "next_closed M m (q_desc_table_addr q) (q_size q) S" "dc_head_index ch \<in> set S"
  shows "collect M m ch = Inl (ChainTooLong (q_size q))"
proof -
  from assms(1) obtain h where "ch = chain_at q h"
    by (auto simp: pop_avail_def chain_at_def split: if_splits sum.splits)
  with assms(2,3) collect_loop_cycle [of M m ch S "[]"] show ?thesis
    by (simp add: collect_def chain_at_def)
qed

theorem collect_cycle_witness:
  "collect slice_guest_memory demo_loop_memory (chain_at demo_queue 0) = Inl (ChainTooLong 2)"
proof -
  have "pop_avail slice_guest_memory demo_loop_memory demo_queue =
      (demo_queue\<lparr>q_next_avail_idx := 1\<rparr>, Inr (Some (chain_at demo_queue 0)))"
    by code_simp
  moreover have "next_closed slice_guest_memory demo_loop_memory (q_desc_table_addr demo_queue) (q_size demo_queue) [0, 1]"
    by code_simp
  ultimately have "collect slice_guest_memory demo_loop_memory (chain_at demo_queue 0) =
      Inl (ChainTooLong (q_size demo_queue))"
    by (rule collect_cycle) (simp add: chain_at_def)
  then show ?thesis by (simp add: demo_queue_def)
qed

text \<open>
  C9. On a valid queue whose available index is readable, \<open>pop_avail\<close> serves the pending
  heads first in, first out: with none pending it returns nothing and changes nothing; an
  unreadable ring entry or a head outside the table is an error that leaves the cursor where
  it was; otherwise the oldest head is returned as a fresh chain and exactly the later ones
  stay pending, across the wrap of both 16-bit indices.
\<close>

theorem pop_avail_fifo:
  assumes "is_valid q" "avail_idx M m q = Inr d"
  shows "case pending_heads M m q of
       [] \<Rightarrow> pop_avail M m q = (q, Inr None)
     | Inl e # _ \<Rightarrow> pop_avail M m q = (q, Inl e)
     | Inr h # later \<Rightarrow>
         if h < q_size q
         then (\<exists>q'. pop_avail M m q = (q', Inr (Some (chain_at q h))) \<and> pending_heads M m q' = later)
         else pop_avail M m q = (q, Inl (DescriptorOutOfRange h (q_size q)))"
proof (cases "d = q_next_avail_idx q")
  case True
  then show ?thesis
    using pop_avail_fifo_aux [OF assms] pending_heads_empty [OF assms(2)] by simp
next
  case False
  then show ?thesis
    using pop_avail_fifo_aux [OF assms] pending_heads_Cons [OF assms(2)]
    by (auto split: sum.splits)
qed

theorem pop_avail_fifo_witness:
  "\<exists>q'. pop_avail slice_guest_memory demo_memory demo_queue = (q', Inr (Some (chain_at demo_queue 0))) \<and>
    pending_heads slice_guest_memory demo_memory q' = []"
proof -
  have "is_valid demo_queue" by code_simp
  moreover have "avail_idx slice_guest_memory demo_memory demo_queue = Inr 1" by code_simp
  moreover have "pending_heads slice_guest_memory demo_memory demo_queue = [Inr 0]" by code_simp
  moreover have "0 < q_size demo_queue" by (simp add: demo_queue_def)
  ultimately show ?thesis
    using pop_avail_fifo [of demo_queue slice_guest_memory demo_memory 1] by simp
qed

text \<open>
  C10. Over any guest memory that meets the contract of the trait, a successful \<open>push_used\<close>
  makes the completion visible: the driver reads the index increased by one and at the next
  ring position the head and the byte count; every other ring position and every byte outside
  the used ring reads as before, and of the queue only the used cursor moves.
\<close>

theorem push_used_publishes:
  assumes "guest_memory M" "used_ring_fits q"
    and "push_used M m q h n = ((m', q'), Inr ())"
  shows "q' = q\<lparr>q_next_used_idx := q_next_used_idx q + 1\<rparr> \<and>
    used_idx M m' q = Inr (q_next_used_idx q') \<and>
    used_elem M m' q (q_next_used_idx q) = (Inr (ucast h), Inr n) \<and>
    (\<forall>k. k mod q_size q \<noteq> q_next_used_idx q mod q_size q \<longrightarrow> used_elem M m' q k = used_elem M m q k) \<and>
    (\<forall>a l. disjoint_ranges (q_used_ring_addr q) (4 + 8 * unat (q_size q)) a l \<longrightarrow>
       gm_read M m' a l = gm_read M m a l)"
proof -
  have "q' = q\<lparr>q_next_used_idx := q_next_used_idx q + 1\<rparr>"
    using assms(3) by (rule push_used_OK)
  then show ?thesis
    using guest_memory.push_used_ring [OF assms(1,3,2)]
      guest_memory.push_used_elsewhere [OF assms(1,3,2)] by simp
qed

theorem push_used_publishes_witness:
  "\<exists>m'. push_used slice_guest_memory demo_memory demo_queue 0 512 =
      ((m', demo_queue\<lparr>q_next_used_idx := 1\<rparr>), Inr ()) \<and>
    used_elem slice_guest_memory m' demo_queue 0 = (Inr 0, Inr 512) \<and>
    used_elem slice_guest_memory m' demo_queue 1 = used_elem slice_guest_memory demo_memory demo_queue 1"
proof -
  have "is_valid demo_queue" by code_simp
  moreover have "used_idx slice_guest_memory demo_memory demo_queue = Inr 0" by code_simp
  moreover have "used_elem slice_guest_memory demo_memory demo_queue (q_next_used_idx demo_queue) = (Inr 0, Inr 0)"
    by code_simp
  ultimately obtain m' where p: "push_used slice_guest_memory demo_memory demo_queue 0 512 =
      ((m', demo_queue\<lparr>q_next_used_idx := q_next_used_idx demo_queue + 1\<rparr>), Inr ())"
    using slice.push_used_succeeds by blast
  have "used_ring_fits demo_queue" by (simp add: used_ring_fits_def demo_queue_def)
  from push_used_publishes [OF slice.guest_memory_axioms this p] p show ?thesis
    by (auto simp: demo_queue_def)
qed

text \<open>
  Whatever size the driver requests, \<open>set_size\<close> stores the largest power of two that is
  not above the request clamped to the device's maximum (and 1 when that is 0).
\<close>

theorem set_size_largest_power:
  "let c = max 1 (min (unat r) (unat (q_max_size q))); s = q_size (set_size q r)
   in is_power_of_two s \<and> unat s \<le> c \<and> c < 2 * unat s"
  using queue_size_clamp [of "min r (q_max_size q)"]
  unfolding set_size_def Let_def unat_min by simp

end
