(* ===== verification/Interrupts.thy ===== *)
theory Interrupts
  imports Guest_Memory
begin

text \<open>
  Interrupt identifiers and delivery: the \<open>IntId\<close> newtype and its device-tree cells
  (\<open>src/crates/arch/src/gic.rs\<close>), the \<open>Gic\<close> trait (\<open>src/crates/gic/src/lib.rs\<close>) as a
  dictionary, the per-device \<open>IrqLine\<close> (\<open>src/crates/virtio/src/interrupt.rs\<close>) and the
  allocation of virtio-MMIO slots with their interrupt numbers
  (\<open>src/crates/virtio/src/slot.rs\<close>).
\<close>

unbundle bit_operations_syntax

subsection \<open>Interrupt identifiers\<close>

definition SPI_INTID_MAX :: u32 where "SPI_INTID_MAX = 1019"

definition PPI_INTID_MIN :: u32 where "PPI_INTID_MIN = 16"

definition PPI_INTID_MAX :: u32 where "PPI_INTID_MAX = 31"

definition SPI_INTID_MIN :: u32 where "SPI_INTID_MIN = 32"

definition FDT_CELL_TYPE_SPI :: u32 where "FDT_CELL_TYPE_SPI = 0"

definition FDT_CELL_TYPE_PPI :: u32 where "FDT_CELL_TYPE_PPI = 1"

lemmas intid_consts =
  SPI_INTID_MAX_def PPI_INTID_MIN_def PPI_INTID_MAX_def SPI_INTID_MIN_def
  FDT_CELL_TYPE_SPI_def FDT_CELL_TYPE_PPI_def

datatype trigger = EdgeRising | LevelHigh | LevelLow

fun fdt_flags :: "trigger \<Rightarrow> u32" where
  "fdt_flags EdgeRising = 1"
| "fdt_flags LevelHigh = 4"
| "fdt_flags LevelLow = 8"

datatype int_id_error =
    SpiOutOfRange u32
  | PpiOutOfRange u32
  | SpiCellOffsetOutOfRange u32
  | PpiCellOffsetOutOfRange u32

datatype int_id = IntId (as_raw: u32)

definition from_spi_intid :: "u32 \<Rightarrow> int_id_error + int_id" where
  "from_spi_intid intid =
     (if intid < SPI_INTID_MIN \<or> intid > SPI_INTID_MAX then Inl (SpiOutOfRange intid)
      else Inr (IntId intid))"

definition from_ppi_intid :: "u32 \<Rightarrow> int_id_error + int_id" where
  "from_ppi_intid intid =
     (if intid < PPI_INTID_MIN \<or> intid > PPI_INTID_MAX then Inl (PpiOutOfRange intid)
      else Inr (IntId intid))"

definition from_spi_cell :: "u32 \<Rightarrow> int_id_error + int_id" where
  "from_spi_cell cell_offset =
     (case checked_add SPI_INTID_MIN cell_offset of
        None \<Rightarrow> Inl (SpiCellOffsetOutOfRange cell_offset)
      | Some intid \<Rightarrow>
          if intid > SPI_INTID_MAX then Inl (SpiCellOffsetOutOfRange cell_offset)
          else Inr (IntId intid))"

definition from_ppi_cell :: "u32 \<Rightarrow> int_id_error + int_id" where
  "from_ppi_cell cell_offset =
     (if cell_offset > 15 then Inl (PpiCellOffsetOutOfRange cell_offset)
      else Inr (IntId (PPI_INTID_MIN + cell_offset)))"

definition is_spi :: "int_id \<Rightarrow> bool" where
  "is_spi self \<longleftrightarrow> as_raw self \<ge> SPI_INTID_MIN \<and> as_raw self \<le> SPI_INTID_MAX"

definition is_ppi :: "int_id \<Rightarrow> bool" where
  "is_ppi self \<longleftrightarrow> as_raw self \<ge> PPI_INTID_MIN \<and> as_raw self \<le> PPI_INTID_MAX"

definition fdt_cell_type :: "int_id \<Rightarrow> u32" where
  "fdt_cell_type self = (if is_ppi self then FDT_CELL_TYPE_PPI else FDT_CELL_TYPE_SPI)"

definition fdt_cell_offset :: "int_id \<Rightarrow> u32" where
  "fdt_cell_offset self =
     (if is_ppi self then as_raw self - PPI_INTID_MIN else as_raw self - SPI_INTID_MIN)"

lemmas intid_defs =
  from_spi_intid_def from_ppi_intid_def from_spi_cell_def from_ppi_cell_def
  is_spi_def is_ppi_def fdt_cell_type_def fdt_cell_offset_def intid_consts

lemma from_spi_cell_eq:
  "from_spi_cell c = (if unat c \<le> 987 then Inr (IntId (32 + c)) else Inl (SpiCellOffsetOutOfRange c))"
proof (cases "unat c + 32 < 2 ^ 32")
  case True
  then have "unat (32 + c) = 32 + unat c" by (subst unat_plus_nowrap) simp_all
  with True show ?thesis
    by (auto simp: from_spi_cell_def checked_add_def intid_consts word_less_nat_alt)
next
  case False
  then show ?thesis by (auto simp: from_spi_cell_def checked_add_def intid_consts)
qed

lemma spi_cell_roundtrip:
  assumes "unat c \<le> 987"
  shows "is_spi (IntId (32 + c)) \<and> \<not> is_ppi (IntId (32 + c)) \<and> fdt_cell_offset (IntId (32 + c)) = c"
proof -
  have "unat (32 + c) = 32 + unat c" using assms by (subst unat_plus_nowrap) simp_all
  then show ?thesis using assms by (auto simp: intid_defs word_le_nat_alt)
qed

lemma ppi_cell_roundtrip:
  assumes "c \<le> 15"
  shows "is_ppi (IntId (16 + c)) \<and> fdt_cell_offset (IntId (16 + c)) = c"
proof -
  have c: "unat c \<le> 15" using assms by (simp add: word_le_nat_alt)
  then have "unat (16 + c) = 16 + unat c" by (subst unat_plus_nowrap) simp_all
  then show ?thesis using c by (auto simp: intid_defs word_le_nat_alt)
qed

subsection \<open>The \<open>Gic\<close> trait and the interrupt line of a device\<close>

datatype gic_error = GicHvf | GicUnsupportedHost

record 'g gic_ops =
  gic_pulse_spi :: "'g \<Rightarrow> int_id \<Rightarrow> 'g \<times> (gic_error + unit)"
  gic_set_spi_level :: "'g \<Rightarrow> int_id \<Rightarrow> bool \<Rightarrow> 'g \<times> (gic_error + unit)"

definition INT_VRING :: u32 where "INT_VRING = 0x01"

definition INT_CONFIG :: u32 where "INT_CONFIG = 0x02"

text \<open>The line shares the GIC and its status word with the transport and the device.\<close>

record 'g irq_line =
  il_gic :: 'g
  il_intid :: int_id
  il_status :: u32

definition irq_line_new :: "'g \<Rightarrow> int_id \<Rightarrow> 'g irq_line" where
  "irq_line_new gic intid = \<lparr>il_gic = gic, il_intid = intid, il_status = 0\<rparr>"

definition trigger_queue :: "'g gic_ops \<Rightarrow> 'g irq_line \<Rightarrow> 'g irq_line \<times> (gic_error + unit)" where
  "trigger_queue G self =
     (let self1 = self\<lparr>il_status := il_status self OR INT_VRING\<rparr>;
          (g, r) = gic_pulse_spi G (il_gic self1) (il_intid self1)
      in (self1\<lparr>il_gic := g\<rparr>, r))"

definition trigger_config :: "'g gic_ops \<Rightarrow> 'g irq_line \<Rightarrow> 'g irq_line \<times> (gic_error + unit)" where
  "trigger_config G self =
     (let self1 = self\<lparr>il_status := il_status self OR INT_CONFIG\<rparr>;
          (g, r) = gic_pulse_spi G (il_gic self1) (il_intid self1)
      in (self1\<lparr>il_gic := g\<rparr>, r))"

definition irq_ack :: "'g irq_line \<Rightarrow> u32 \<Rightarrow> 'g irq_line" where
  "irq_ack self acked = self\<lparr>il_status := il_status self AND NOT acked\<rparr>"

lemma trigger_queue_intid [simp]: "il_intid (fst (trigger_queue G l)) = il_intid l"
  by (simp add: trigger_queue_def Let_def split: prod.split)

lemma trigger_queue_status [simp]: "il_status (fst (trigger_queue G l)) = il_status l OR INT_VRING"
  by (simp add: trigger_queue_def Let_def split: prod.split)

lemma trigger_queue_gic [simp]:
  "il_gic (fst (trigger_queue G l)) = fst (gic_pulse_spi G (il_gic l) (il_intid l))"
  by (simp add: trigger_queue_def Let_def split: prod.split)

text \<open>A controller that records the pulses and level changes it is asked for.\<close>

datatype gic_event = Pulse int_id | Level int_id bool

definition recording_gic :: "gic_event list gic_ops" where
  "recording_gic =
     \<lparr>gic_pulse_spi = (\<lambda>g i. (g @ [Pulse i], Inr ())),
      gic_set_spi_level = (\<lambda>g i b. (g @ [Level i b], Inr ()))\<rparr>"

subsection \<open>virtio-MMIO slots\<close>

definition VIRTIO_MMIO_BASE :: u64 where "VIRTIO_MMIO_BASE = 0x0F000000"

definition VIRTIO_MMIO_REGION_SIZE :: u64 where "VIRTIO_MMIO_REGION_SIZE = 0x1000"

definition MMIO_SLOT_COUNT :: u32 where "MMIO_SLOT_COUNT = 32"

datatype slot_error = SlotExhausted | SlotIntId int_id_error

record slot =
  slot_index :: u32
  slot_base :: u64
  slot_intid :: int_id

definition slot_from_index :: "u32 \<Rightarrow> slot_error + slot" where
  "slot_from_index index =
     (if index \<ge> MMIO_SLOT_COUNT then Inl SlotExhausted
      else case from_spi_cell (16 + index) of
        Inl e \<Rightarrow> Inl (SlotIntId e)
      | Inr intid \<Rightarrow>
          Inr \<lparr>slot_index = index,
               slot_base = VIRTIO_MMIO_BASE + ucast index * VIRTIO_MMIO_REGION_SIZE,
               slot_intid = intid\<rparr>)"

record slot_allocator = sa_next :: u32

definition slot_allocator_new :: slot_allocator where
  "slot_allocator_new = \<lparr>sa_next = 0\<rparr>"

definition slot_allocate :: "slot_allocator \<Rightarrow> slot_allocator \<times> (slot_error + slot)" where
  "slot_allocate self =
     (case slot_from_index (sa_next self) of
        Inl e \<Rightarrow> (self, Inl e)
      | Inr s \<Rightarrow> (self\<lparr>sa_next := sa_next self + 1\<rparr>, Inr s))"

definition slots_allocated :: "slot_allocator \<Rightarrow> u32" where
  "slots_allocated self = sa_next self"

text \<open>The results of \<open>n\<close> successive calls of \<open>allocate\<close>.\<close>

fun slot_allocations :: "nat \<Rightarrow> slot_allocator \<Rightarrow> (slot_error + slot) list" where
  "slot_allocations 0 self = []"
| "slot_allocations (Suc n) self =
     (let (self', r) = slot_allocate self in r # slot_allocations n self')"

definition slot_at :: "nat \<Rightarrow> slot" where
  "slot_at i = \<lparr>slot_index = of_nat i, slot_base = of_nat (0x0F000000 + i * 0x1000), slot_intid = IntId (of_nat (48 + i))\<rparr>"

lemma slot_from_index_eq:
  "slot_from_index i = (if unat i < 32 then Inr (slot_at (unat i)) else Inl SlotExhausted)"
proof (cases "unat i < 32")
  case True
  then have "unat (16 + i) = 16 + unat i" by (subst unat_plus_nowrap) simp_all
  with True have "from_spi_cell (16 + i) = Inr (IntId (32 + (16 + i)))"
    by (subst from_spi_cell_eq) simp
  moreover have "word_of_nat (unat i) = (ucast i :: u64)" by simp
  ultimately show ?thesis using True
    by (simp add: slot_from_index_def slot_at_def MMIO_SLOT_COUNT_def word_le_nat_alt
        VIRTIO_MMIO_BASE_def VIRTIO_MMIO_REGION_SIZE_def)
next
  case False
  then show ?thesis by (simp add: slot_from_index_def MMIO_SLOT_COUNT_def word_le_nat_alt)
qed

lemma slot_allocations_from:
  "i \<le> 32 \<Longrightarrow> slot_allocations n \<lparr>sa_next = of_nat i\<rparr> =
    map (\<lambda>k. if i + k < 32 then Inr (slot_at (i + k)) else Inl SlotExhausted) [0..<n]"
proof (induction n arbitrary: i)
  case 0
  then show ?case by simp
next
  case (Suc n)
  have u: "unat (of_nat i :: u32) = i" using Suc.prems by (simp add: unsigned_of_nat take_bit_nat_eq_self)
  have upt: "[0..<Suc n] = 0 # map Suc [0..<n]" by (simp add: upt_conv_Cons map_Suc_upt del: upt_Suc)
  show ?case
  proof (cases "i < 32")
    case True
    with Suc.IH [of "Suc i"] u show ?thesis
      by (simp add: slot_allocate_def slot_from_index_eq upt add.commute del: upt_Suc)
  next
    case False
    with Suc.prems have "i = 32" by simp
    with Suc.IH [of 32] show ?thesis
      by (simp add: slot_allocate_def slot_from_index_eq upt del: upt_Suc)
  qed
qed

text \<open>
  The device-tree cells are exact inverses of the interrupt numbers: every SPI cell
  \<open>0..=987\<close> and every PPI cell \<open>0..=15\<close> converts to an interrupt of its own class whose cell
  type and cell offset give the cell back, and every other cell is refused.
\<close>

theorem fdt_cell_roundtrip:
  "(case from_spi_cell c of
      Inl e \<Rightarrow> 987 < unat c \<and> e = SpiCellOffsetOutOfRange c
    | Inr i \<Rightarrow> is_spi i \<and> fdt_cell_type i = FDT_CELL_TYPE_SPI \<and> fdt_cell_offset i = c) \<and>
   (case from_ppi_cell c of
      Inl e \<Rightarrow> 15 < c \<and> e = PpiCellOffsetOutOfRange c
    | Inr i \<Rightarrow> is_ppi i \<and> fdt_cell_type i = FDT_CELL_TYPE_PPI \<and> fdt_cell_offset i = c)"
  using spi_cell_roundtrip [of c] ppi_cell_roundtrip [of c]
  by (auto simp: from_spi_cell_eq from_ppi_cell_def fdt_cell_type_def PPI_INTID_MIN_def not_le not_less)

text \<open>
  C26. The slot allocator: of any number of successive allocations the first 32 succeed and
  return, in order, windows of 4 KiB that do not overlap, with SPI numbers \<open>48 + i\<close> that are
  all different; every later allocation is refused as exhausted.
\<close>

theorem slot_allocations_disjoint:
  "slot_allocations n slot_allocator_new =
     map (\<lambda>i. if i < 32 then Inr (slot_at i) else Inl SlotExhausted) [0..<n] \<and>
   (\<forall>i < 32. \<forall>j < 32. i \<noteq> j \<longrightarrow>
      disjoint_ranges (slot_base (slot_at i)) 0x1000 (slot_base (slot_at j)) 0x1000 \<and>
      slot_intid (slot_at i) \<noteq> slot_intid (slot_at j)) \<and>
   (\<forall>i < 32. is_spi (slot_intid (slot_at i)))"
proof (intro conjI allI impI)
  show "slot_allocations n slot_allocator_new =
     map (\<lambda>i. if i < 32 then Inr (slot_at i) else Inl SlotExhausted) [0..<n]"
    using slot_allocations_from [of 0 n] by (simp add: slot_allocator_new_def)
  fix i :: nat assume i: "i < 32"
  have base: "unat (slot_base (slot_at k)) = 0x0F000000 + k * 0x1000" if "k < 32" for k
    unfolding slot_at_def using that by (simp add: unsigned_of_nat take_bit_nat_eq_self del: of_nat_add of_nat_mult)
  have raw: "unat (as_raw (slot_intid (slot_at k))) = 48 + k" if "k < 32" for k
    unfolding slot_at_def using that by (simp add: unsigned_of_nat take_bit_nat_eq_self del: of_nat_add)
  show "is_spi (slot_intid (slot_at i))"
    using raw [OF i] i by (simp add: is_spi_def intid_consts word_le_nat_alt)
  fix j :: nat assume j: "j < 32" "i \<noteq> j"
  show "disjoint_ranges (slot_base (slot_at i)) 0x1000 (slot_base (slot_at j)) 0x1000"
    using base [OF i] base [OF j(1)] j(2) by (auto simp: disjoint_ranges_def)
  show "slot_intid (slot_at i) \<noteq> slot_intid (slot_at j)"
    using raw [OF i] raw [OF j(1)] j(2) by auto
qed

theorem slot_allocations_disjoint_witness:
  "slot_intid (slot_at 0) \<noteq> slot_intid (slot_at 31)"
  using slot_allocations_disjoint [of 33] by simp

end
