(* ===== verification/Virtio_Transport.thy ===== *)
theory Virtio_Transport
  imports Virt_Queue Interrupts
begin

text \<open>
  The virtio-MMIO transport, \<open>src/crates/virtio/src/transport.rs\<close>: the register file, the
  driver-initialisation state machine, feature negotiation and the gates that close once
  the driver is live. The \<open>VirtioDevice\<close> trait (\<open>device.rs\<close>) is a dictionary over a device
  state; guest memory and the interrupt line, which the code shares through \<open>Arc\<close>, are the
  \<open>virtio_world\<close> that \<open>activate\<close> hands over and \<open>process_queue\<close> works on.

  The locale \<open>virtio_device\<close> is the contract of the trait. Under it the lemmas show which
  values the status register takes and how it moves, that the acknowledged features never
  leave the offered set, that activation happens at most once, and what a live device is
  shielded from.
\<close>

unbundle bit_operations_syntax

subsection \<open>Device identifiers, status and feature bits\<close>

datatype virtio_device_type =
    NetDevice | BlockDevice | ConsoleDevice | RngDevice | BalloonDevice
  | VsockDevice | PmemDevice | MemDevice | BootTimerDevice

fun const_id :: "virtio_device_type \<Rightarrow> u32" where
  "const_id NetDevice = 1"
| "const_id BlockDevice = 2"
| "const_id ConsoleDevice = 3"
| "const_id RngDevice = 4"
| "const_id BalloonDevice = 5"
| "const_id VsockDevice = 19"
| "const_id PmemDevice = 27"
| "const_id MemDevice = 24"
| "const_id BootTimerDevice = 0xFFFFFF00"

definition INIT :: u32 where "INIT = 0"

definition ACKNOWLEDGE :: u32 where "ACKNOWLEDGE = 1"

definition DRIVER :: u32 where "DRIVER = 2"

definition DRIVER_OK :: u32 where "DRIVER_OK = 4"

definition FEATURES_OK :: u32 where "FEATURES_OK = 8"

definition DEVICE_NEEDS_RESET :: u32 where "DEVICE_NEEDS_RESET = 64"

definition FAILED :: u32 where "FAILED = 128"

lemmas device_status_defs =
  INIT_def ACKNOWLEDGE_def DRIVER_def DRIVER_OK_def FEATURES_OK_def DEVICE_NEEDS_RESET_def FAILED_def

definition VERSION_1 :: u64 where "VERSION_1 = push_bit 32 1"

definition MMIO_MAGIC_VALUE :: u32 where "MMIO_MAGIC_VALUE = 0x74726976"

definition MMIO_VERSION :: u32 where "MMIO_VERSION = 2"

definition VENDOR_ID :: u32 where "VENDOR_ID = 0"

subsection \<open>The \<open>VirtioDevice\<close> trait\<close>

text \<open>
  A handler that drains a queue loops for as long as the guest's memory offers work, so
  \<open>process_queue\<close>, and with it a register write, may not return: its model is \<open>None\<close> then.
\<close>

datatype activate_error = BackendUnavailable | IncompatibleFeatures | ActivateOther

record ('m, 'g) virtio_world =
  w_mem :: 'm
  w_irq :: "'g irq_line"

record ('d, 'm, 'g) virtio_device_ops =
  vd_device_type :: "'d \<Rightarrow> virtio_device_type"
  vd_avail_features :: "'d \<Rightarrow> u64"
  vd_acked_features :: "'d \<Rightarrow> u64"
  vd_set_acked_features :: "'d \<Rightarrow> u64 \<Rightarrow> 'd"
  vd_queues :: "'d \<Rightarrow> queue list"
  vd_set_queues :: "'d \<Rightarrow> queue list \<Rightarrow> 'd"
  vd_read_config :: "'d \<Rightarrow> u64 \<Rightarrow> bytes \<Rightarrow> bytes"
  vd_write_config :: "'d \<Rightarrow> u64 \<Rightarrow> bytes \<Rightarrow> 'd"
  vd_activate :: "'d \<Rightarrow> ('m, 'g) virtio_world \<Rightarrow> 'd \<times> (activate_error + unit)"
  vd_is_activated :: "'d \<Rightarrow> bool"
  vd_process_queue :: "'d \<Rightarrow> ('m, 'g) virtio_world \<Rightarrow> u16 \<Rightarrow> ('d \<times> ('m, 'g) virtio_world) option"

subsection \<open>The transport\<close>

record ('d, 'm, 'g) virtio_transport =
  t_device :: 'd
  t_world :: "('m, 'g) virtio_world"
  t_device_features_sel :: u32
  t_driver_features_sel :: u32
  t_driver_features :: u64
  t_queue_select :: u32
  t_status :: u32
  t_config_generation :: u32

definition transport_new :: "'d \<Rightarrow> 'm \<Rightarrow> 'g irq_line \<Rightarrow> ('d, 'm, 'g) virtio_transport" where
  "transport_new device mem irq =
     \<lparr>t_device = device, t_world = \<lparr>w_mem = mem, w_irq = irq\<rparr>,
      t_device_features_sel = 0, t_driver_features_sel = 0, t_driver_features = 0,
      t_queue_select = 0, t_status = INIT, t_config_generation = 0\<rparr>"

definition accept_config_write :: "('d, 'm, 'g) virtio_transport \<Rightarrow> bool" where
  "accept_config_write self \<longleftrightarrow> t_status self AND DRIVER_OK = 0"

definition device_features_page :: "('d, 'm, 'g) virtio_device_ops \<Rightarrow> ('d, 'm, 'g) virtio_transport \<Rightarrow> u32" where
  "device_features_page D self =
     (let features = vd_avail_features D (t_device self) OR VERSION_1
      in if t_device_features_sel self = 0 then ucast features
         else if t_device_features_sel self = 1 then ucast (drop_bit 32 features)
         else 0)"

definition queue_field ::
  "('d, 'm, 'g) virtio_device_ops \<Rightarrow> ('d, 'm, 'g) virtio_transport \<Rightarrow> (queue \<Rightarrow> u32) \<Rightarrow> u32" where
  "queue_field D self f =
     (let qs = vd_queues D (t_device self); i = unat (t_queue_select self)
      in if i < length qs then f (qs ! i) else 0)"

definition read_u32_register ::
  "('d, 'm, 'g) virtio_device_ops \<Rightarrow> ('d, 'm, 'g) virtio_transport \<Rightarrow> u64 \<Rightarrow> u32" where
  "read_u32_register D self offset =
     (if offset = 0x00 then MMIO_MAGIC_VALUE
      else if offset = 0x04 then MMIO_VERSION
      else if offset = 0x08 then const_id (vd_device_type D (t_device self))
      else if offset = 0x0C then VENDOR_ID
      else if offset = 0x10 then device_features_page D self
      else if offset = 0x34 then queue_field D self (\<lambda>q. ucast (q_max_size q))
      else if offset = 0x38 then queue_field D self (\<lambda>q. ucast (q_size q))
      else if offset = 0x44 then queue_field D self (\<lambda>q. if q_ready q then 1 else 0)
      else if offset = 0x60 then il_status (w_irq (t_world self))
      else if offset = 0x70 then t_status self
      else if offset = 0xFC then t_config_generation self
      else 0)"

definition handle_driver_features_write ::
  "('d, 'm, 'g) virtio_device_ops \<Rightarrow> ('d, 'm, 'g) virtio_transport \<Rightarrow> u32
    \<Rightarrow> ('d, 'm, 'g) virtio_transport" where
  "handle_driver_features_write D self value =
     (let avail = vd_avail_features D (t_device self) OR VERSION_1;
          sel = t_driver_features_sel self
      in if sel \<noteq> 0 \<and> sel \<noteq> 1 then self
         else let shifted = (if sel = 0 then ucast value else push_bit 32 (ucast value));
                  masked = shifted AND avail;
                  features = t_driver_features self OR masked
              in self\<lparr>t_driver_features := features,
                      t_device := vd_set_acked_features D (t_device self) features\<rparr>)"

definition update_queue_field ::
  "('d, 'm, 'g) virtio_device_ops \<Rightarrow> ('d, 'm, 'g) virtio_transport \<Rightarrow> (queue \<Rightarrow> queue)
    \<Rightarrow> ('d, 'm, 'g) virtio_transport" where
  "update_queue_field D self f =
     (if t_status self AND DRIVER_OK \<noteq> 0 then self
      else let qs = vd_queues D (t_device self); i = unat (t_queue_select self)
           in if i < length qs
              then self\<lparr>t_device := vd_set_queues D (t_device self) (qs[i := f (qs ! i)])\<rparr>
              else self)"

definition handle_queue_notify ::
  "('d, 'm, 'g) virtio_device_ops \<Rightarrow> ('d, 'm, 'g) virtio_transport \<Rightarrow> u16
    \<Rightarrow> ('d, 'm, 'g) virtio_transport option" where
  "handle_queue_notify D self queue_index =
     (if t_status self AND DRIVER_OK = 0 then Some self
      else case vd_process_queue D (t_device self) (t_world self) queue_index of
        None \<Rightarrow> None
      | Some (d, w) \<Rightarrow> Some (self\<lparr>t_device := d, t_world := w\<rparr>))"

definition is_valid_transition :: "u32 \<Rightarrow> u32 \<Rightarrow> bool" where
  "is_valid_transition from to \<longleftrightarrow>
     list_ex (\<lambda>(f, t). f = from \<and> t = to)
       [(INIT, ACKNOWLEDGE),
        (ACKNOWLEDGE, ACKNOWLEDGE OR DRIVER),
        (ACKNOWLEDGE OR DRIVER, ACKNOWLEDGE OR DRIVER OR FEATURES_OK),
        (ACKNOWLEDGE OR DRIVER OR FEATURES_OK, ACKNOWLEDGE OR DRIVER OR FEATURES_OK OR DRIVER_OK)]"

definition activate_device ::
  "('d, 'm, 'g) virtio_device_ops \<Rightarrow> ('d, 'm, 'g) virtio_transport \<Rightarrow> ('d, 'm, 'g) virtio_transport" where
  "activate_device D self =
     (if vd_is_activated D (t_device self) then self
      else case vd_activate D (t_device self) (t_world self) of
        (d, Inl _) \<Rightarrow> self\<lparr>t_device := d, t_status := t_status self OR DEVICE_NEEDS_RESET\<rparr>
      | (d, Inr _) \<Rightarrow> self\<lparr>t_device := d\<rparr>)"

definition transport_reset ::
  "('d, 'm, 'g) virtio_device_ops \<Rightarrow> ('d, 'm, 'g) virtio_transport \<Rightarrow> ('d, 'm, 'g) virtio_transport" where
  "transport_reset D self =
     (let d = vd_set_queues D (t_device self) (map queue_reset (vd_queues D (t_device self)))
      in self\<lparr>t_device_features_sel := 0, t_driver_features_sel := 0, t_driver_features := 0,
              t_queue_select := 0, t_status := INIT, t_device := vd_set_acked_features D d 0\<rparr>)"

definition set_status ::
  "('d, 'm, 'g) virtio_device_ops \<Rightarrow> ('d, 'm, 'g) virtio_transport \<Rightarrow> u32
    \<Rightarrow> ('d, 'm, 'g) virtio_transport" where
  "set_status D self value =
     (if value = INIT then transport_reset D self
      else if value AND FAILED \<noteq> 0 then self\<lparr>t_status := t_status self OR FAILED\<rparr>
      else if \<not> is_valid_transition (t_status self) value then self
      else let self' = self\<lparr>t_status := value\<rparr>
           in if value AND DRIVER_OK \<noteq> 0 then activate_device D self' else self')"

text \<open>The closures of the address registers: replace the low or the high half of an address.\<close>

definition set_addr_low :: "u64 \<Rightarrow> u32 \<Rightarrow> u64" where
  "set_addr_low addr value = (addr AND NOT 0xFFFFFFFF) OR ucast value"

definition set_addr_high :: "u64 \<Rightarrow> u32 \<Rightarrow> u64" where
  "set_addr_high addr value = push_bit 32 (ucast value) OR (addr AND 0xFFFFFFFF)"

definition write_register ::
  "('d, 'm, 'g) virtio_device_ops \<Rightarrow> ('d, 'm, 'g) virtio_transport \<Rightarrow> u64 \<Rightarrow> u32
    \<Rightarrow> ('d, 'm, 'g) virtio_transport option" where
  "write_register D self offset value =
     (if offset = 0x14 then Some (self\<lparr>t_device_features_sel := value\<rparr>)
      else if offset = 0x20 then Some (handle_driver_features_write D self value)
      else if offset = 0x24 then Some (self\<lparr>t_driver_features_sel := value\<rparr>)
      else if offset = 0x30 then Some (self\<lparr>t_queue_select := value\<rparr>)
      else if offset = 0x38 then Some (update_queue_field D self (\<lambda>q. set_size q (ucast value)))
      else if offset = 0x44 then Some (update_queue_field D self (\<lambda>q. q\<lparr>q_ready := (value = 1)\<rparr>))
      else if offset = 0x50 then handle_queue_notify D self (ucast value)
      else if offset = 0x64 then
        Some (self\<lparr>t_world := (t_world self)\<lparr>w_irq := irq_ack (w_irq (t_world self)) value\<rparr>\<rparr>)
      else if offset = 0x70 then Some (set_status D self value)
      else if offset = 0x80 then
        Some (update_queue_field D self (\<lambda>q. q\<lparr>q_desc_table_addr := set_addr_low (q_desc_table_addr q) value\<rparr>))
      else if offset = 0x84 then
        Some (update_queue_field D self (\<lambda>q. q\<lparr>q_desc_table_addr := set_addr_high (q_desc_table_addr q) value\<rparr>))
      else if offset = 0x90 then
        Some (update_queue_field D self (\<lambda>q. q\<lparr>q_avail_ring_addr := set_addr_low (q_avail_ring_addr q) value\<rparr>))
      else if offset = 0x94 then
        Some (update_queue_field D self (\<lambda>q. q\<lparr>q_avail_ring_addr := set_addr_high (q_avail_ring_addr q) value\<rparr>))
      else if offset = 0xA0 then
        Some (update_queue_field D self (\<lambda>q. q\<lparr>q_used_ring_addr := set_addr_low (q_used_ring_addr q) value\<rparr>))
      else if offset = 0xA4 then
        Some (update_queue_field D self (\<lambda>q. q\<lparr>q_used_ring_addr := set_addr_high (q_used_ring_addr q) value\<rparr>))
      else Some self)"

definition transport_read ::
  "('d, 'm, 'g) virtio_device_ops \<Rightarrow> ('d, 'm, 'g) virtio_transport \<Rightarrow> u64 \<Rightarrow> bytes \<Rightarrow> bytes" where
  "transport_read D self offset data =
     (if offset \<le> 0xFF \<and> length data = 4 then to_le_bytes 4 (read_u32_register D self offset)
      else if 0x100 \<le> offset \<and> offset \<le> 0xFFF
      then vd_read_config D (t_device self) (offset - 0x100) data
      else map (\<lambda>_. 0) data)"

definition transport_write ::
  "('d, 'm, 'g) virtio_device_ops \<Rightarrow> ('d, 'm, 'g) virtio_transport \<Rightarrow> u64 \<Rightarrow> bytes
    \<Rightarrow> ('d, 'm, 'g) virtio_transport option" where
  "transport_write D self offset data =
     (if offset \<le> 0xFF \<and> length data = 4 then write_register D self offset (from_le_bytes data)
      else if 0x100 \<le> offset \<and> offset \<le> 0xFFF
      then if accept_config_write self
           then Some (self\<lparr>t_device := vd_write_config D (t_device self) (offset - 0x100) data\<rparr>)
           else Some self
      else Some self)"

lemmas transport_handlers =
  handle_driver_features_write_def update_queue_field_def handle_queue_notify_def
  activate_device_def transport_reset_def set_status_def

subsection \<open>The contract of the trait\<close>

text \<open>What the driver configured of a queue: everything but the two device-side cursors.\<close>

definition queue_config :: "queue \<Rightarrow> queue" where
  "queue_config q = q\<lparr>q_next_avail_idx := 0, q_next_used_idx := 0\<rparr>"

lemma queue_config_eqD:
  assumes "queue_config q' = queue_config q"
  shows "q_max_size q' = q_max_size q" "q_size q' = q_size q" "q_ready q' = q_ready q"
    "q_desc_table_addr q' = q_desc_table_addr q" "q_avail_ring_addr q' = q_avail_ring_addr q"
    "q_used_ring_addr q' = q_used_ring_addr q"
  using assms by (cases q; cases q'; simp add: queue_config_def)+

lemma pop_avail_config: "pop_avail M m q = (q', r) \<Longrightarrow> queue_config q' = queue_config q"
  by (auto simp: pop_avail_def queue_config_def split: if_splits sum.splits)

lemma push_used_config: "push_used M m q h n = ((m', q'), r) \<Longrightarrow> queue_config q' = queue_config q"
  by (auto simp: push_used_def queue_config_def Let_def split: if_splits sum.splits)

text \<open>
  Each method touches its own part of the device: setting features or queues sets exactly
  those, configuration writes and queue processing change neither features nor queue set-up,
  and activation succeeds only into the activated state and is never undone.
\<close>

locale virtio_device =
  fixes D :: "('d, 'm, 'g) virtio_device_ops"
  assumes acked_set: "vd_acked_features D (vd_set_acked_features D d v) = v"
    and set_acked_frame:
      "vd_avail_features D (vd_set_acked_features D d v) = vd_avail_features D d"
      "vd_queues D (vd_set_acked_features D d v) = vd_queues D d"
      "vd_is_activated D (vd_set_acked_features D d v) = vd_is_activated D d"
    and queues_set:
      "length qs = length (vd_queues D d) \<Longrightarrow> vd_queues D (vd_set_queues D d qs) = qs"
    and set_queues_frame:
      "vd_avail_features D (vd_set_queues D d qs) = vd_avail_features D d"
      "vd_acked_features D (vd_set_queues D d qs) = vd_acked_features D d"
      "vd_is_activated D (vd_set_queues D d qs) = vd_is_activated D d"
    and write_config_frame:
      "vd_avail_features D (vd_write_config D d off data) = vd_avail_features D d"
      "vd_acked_features D (vd_write_config D d off data) = vd_acked_features D d"
      "vd_queues D (vd_write_config D d off data) = vd_queues D d"
      "vd_is_activated D (vd_write_config D d off data) = vd_is_activated D d"
    and read_config_length: "length (vd_read_config D d off data) = length data"
    and activate_frame:
      "vd_activate D d w = (d', r) \<Longrightarrow> vd_avail_features D d' = vd_avail_features D d"
      "vd_activate D d w = (d', r) \<Longrightarrow> vd_acked_features D d' = vd_acked_features D d"
      "vd_activate D d w = (d', r) \<Longrightarrow> vd_queues D d' = vd_queues D d"
      "vd_activate D d w = (d', Inr ()) \<Longrightarrow> vd_is_activated D d'"
      "vd_activate D d w = (d', r) \<Longrightarrow> vd_is_activated D d \<Longrightarrow> vd_is_activated D d'"
    and process_queue_frame:
      "vd_process_queue D d w i = Some (d', w') \<Longrightarrow> vd_avail_features D d' = vd_avail_features D d"
      "vd_process_queue D d w i = Some (d', w') \<Longrightarrow> vd_acked_features D d' = vd_acked_features D d"
      "vd_process_queue D d w i = Some (d', w') \<Longrightarrow>
         map queue_config (vd_queues D d') = map queue_config (vd_queues D d)"
      "vd_process_queue D d w i = Some (d', w') \<Longrightarrow> vd_is_activated D d' = vd_is_activated D d"

text \<open>The values of the status register: the four initialisation steps in order, a failed
  activation, and each of them with the driver's FAILED bit.\<close>

definition status_values :: "u32 list" where
  "status_values = [0, 1, 3, 11, 15, 79]"

definition status_ok :: "u32 \<Rightarrow> bool" where
  "status_ok s \<longleftrightarrow> s AND NOT FAILED \<in> set status_values"

definition transport_inv ::
  "('d, 'm, 'g) virtio_device_ops \<Rightarrow> ('d, 'm, 'g) virtio_transport \<Rightarrow> bool" where
  "transport_inv D t \<longleftrightarrow>
     status_ok (t_status t) \<and>
     t_driver_features t AND NOT (vd_avail_features D (t_device t) OR VERSION_1) = 0 \<and>
     vd_acked_features D (t_device t) = t_driver_features t \<and>
     (t_status t AND DRIVER_OK \<noteq> 0 \<and> t_status t AND DEVICE_NEEDS_RESET = 0 \<longrightarrow>
        vd_is_activated D (t_device t))"

text \<open>A guest's sequence of MMIO writes.\<close>

fun transport_run ::
  "('d, 'm, 'g) virtio_device_ops \<Rightarrow> ('d, 'm, 'g) virtio_transport \<Rightarrow> (u64 \<times> bytes) list
    \<Rightarrow> ('d, 'm, 'g) virtio_transport option" where
  "transport_run D t [] = Some t"
| "transport_run D t ((offset, data) # ws) =
     (case transport_write D t offset data of
        None \<Rightarrow> None
      | Some t' \<Rightarrow> transport_run D t' ws)"

lemma is_valid_transition_iff:
  "is_valid_transition a b \<longleftrightarrow>
     a = 0 \<and> b = 1 \<or> a = 1 \<and> b = 3 \<or> a = 3 \<and> b = 11 \<or> a = 11 \<and> b = 15"
  by (auto simp: is_valid_transition_def device_status_defs)

lemma status_ok_failed [simp]: "status_ok (s OR FAILED) \<longleftrightarrow> status_ok s"
proof -
  have "(s OR FAILED) AND NOT FAILED = s AND NOT FAILED"
    by (rule bit_word_eqI) (auto simp: bit_simps)
  then show ?thesis by (simp add: status_ok_def)
qed

lemma failed_bits [simp]:
  "(s OR FAILED) AND DRIVER_OK = s AND DRIVER_OK"
  "(s OR FAILED) AND DEVICE_NEEDS_RESET = s AND DEVICE_NEEDS_RESET"
  by (auto simp: bit.conj_disj_distrib2 device_status_defs)

text \<open>Every register write as one of nine effects.\<close>

lemma write_register_cases:
  obtains (features) "write_register D t off v = Some (handle_driver_features_write D t v)"
  | (queue) f where "write_register D t off v = Some (update_queue_field D t f)"
  | (notify) "write_register D t off v = handle_queue_notify D t (ucast v)"
  | (ack) "write_register D t off v =
      Some (t\<lparr>t_world := (t_world t)\<lparr>w_irq := irq_ack (w_irq (t_world t)) v\<rparr>\<rparr>)"
  | (status) "off = 0x70" "write_register D t off v = Some (set_status D t v)"
  | (sel1) "write_register D t off v = Some (t\<lparr>t_device_features_sel := v\<rparr>)"
  | (sel2) "write_register D t off v = Some (t\<lparr>t_driver_features_sel := v\<rparr>)"
  | (sel3) "write_register D t off v = Some (t\<lparr>t_queue_select := v\<rparr>)"
  | (none) "write_register D t off v = Some t"
proof -
  consider "off = 0x14" | "off = 0x20" | "off = 0x24" | "off = 0x30" | "off = 0x38" | "off = 0x44"
    | "off = 0x50" | "off = 0x64" | "off = 0x70" | "off = 0x80" | "off = 0x84" | "off = 0x90"
    | "off = 0x94" | "off = 0xA0" | "off = 0xA4"
    | "off \<notin> {0x14, 0x20, 0x24, 0x30, 0x38, 0x44, 0x50, 0x64, 0x70, 0x80, 0x84, 0x90, 0x94, 0xA0, 0xA4}"
    by blast
  then show thesis
    by cases (rule that, (simp add: write_register_def; fail)+)+
qed

lemma or_subset: "a AND NOT s = 0 \<Longrightarrow> b AND NOT s = 0 \<Longrightarrow> (a OR b) AND NOT s = (0 :: 'a::len word)"
  by (simp add: bit.conj_disj_distrib2)

lemma and_subset: "(a AND s) AND NOT s = (0 :: 'a::len word)"
  by (rule bit_word_eqI) (simp add: bit_simps)

text \<open>How one write moves the status register, and the device with it.\<close>

lemma set_status_cases:
  obtains (reset) "v = 0" "set_status D t v = transport_reset D t"
  | (failed) "set_status D t v = t\<lparr>t_status := t_status t OR FAILED\<rparr>"
  | (same) "set_status D t v = t"
  | (step) "(t_status t, v) \<in> {(0, 1), (1, 3), (3, 11)}" "set_status D t v = t\<lparr>t_status := v\<rparr>"
  | (live) "t_status t = 11" "v = 15" "vd_is_activated D (t_device t)" "set_status D t v = t\<lparr>t_status := 15\<rparr>"
  | (activated) d where "t_status t = 11" "v = 15" "\<not> vd_is_activated D (t_device t)"
      "vd_activate D (t_device t) (t_world t) = (d, Inr ())"
      "set_status D t v = t\<lparr>t_status := 15, t_device := d\<rparr>"
  | (refused) d e where "t_status t = 11" "v = 15" "\<not> vd_is_activated D (t_device t)"
      "vd_activate D (t_device t) (t_world t) = (d, Inl e)"
      "set_status D t v = t\<lparr>t_status := 79, t_device := d\<rparr>"
proof -
  consider (r) "v = 0" | (f) "v \<noteq> 0" "v AND FAILED \<noteq> 0"
    | (i) "v \<noteq> 0" "v AND FAILED = 0" "\<not> is_valid_transition (t_status t) v"
    | (s) "(t_status t, v) \<in> {(0, 1), (1, 3), (3, 11)}"
    | (a) "t_status t = 11" "v = 15"
    by (auto simp: is_valid_transition_iff)
  then show thesis
  proof cases
    case r
    then show thesis by (intro reset) (simp_all add: set_status_def INIT_def)
  next
    case f
    then show thesis by (intro failed) (simp add: set_status_def INIT_def)
  next
    case i
    then show thesis by (intro same) (simp add: set_status_def INIT_def)
  next
    case s
    then show thesis
      by (intro step) (auto simp: set_status_def is_valid_transition_iff device_status_defs)
  next
    case a
    then have *: "set_status D t v = activate_device D (t\<lparr>t_status := 15\<rparr>)"
      by (simp add: set_status_def is_valid_transition_iff device_status_defs)
    obtain d r where dr: "vd_activate D (t_device t) (t_world t) = (d, r)"
      by (cases "vd_activate D (t_device t) (t_world t)")
    show thesis
    proof (cases "vd_is_activated D (t_device t)")
      case True
      with a * show thesis by (intro live) (simp_all add: activate_device_def)
    next
      case False
      with a * dr show thesis
        by (cases r) (auto simp: activate_device_def device_status_defs intro: activated refused)
    qed
  qed
qed

context virtio_device
begin

lemma inv_features:
  assumes "transport_inv D t" shows "transport_inv D (handle_driver_features_write D t v)"
proof -
  have "(t_driver_features t OR (x AND (vd_avail_features D (t_device t) OR VERSION_1)))
      AND NOT (vd_avail_features D (t_device t) OR VERSION_1) = 0" for x
    using assms by (intro or_subset and_subset) (simp add: transport_inv_def)
  with assms show ?thesis
    by (simp add: handle_driver_features_write_def transport_inv_def Let_def acked_set set_acked_frame)
qed

lemma inv_queue: "transport_inv D t \<Longrightarrow> transport_inv D (update_queue_field D t f)"
  by (simp add: update_queue_field_def transport_inv_def Let_def set_queues_frame)

lemma inv_notify:
  "transport_inv D t \<Longrightarrow> handle_queue_notify D t i = Some t' \<Longrightarrow> transport_inv D t'"
  by (auto simp: handle_queue_notify_def transport_inv_def process_queue_frame
      split: if_splits option.splits)

lemma inv_reset: "transport_inv D (transport_reset D t)"
  by (simp add: transport_reset_def transport_inv_def Let_def acked_set set_acked_frame
      status_ok_def status_values_def device_status_defs)

lemma inv_set_status:
  assumes "transport_inv D t" shows "transport_inv D (set_status D t v)"
proof -
  note inv = assms [unfolded transport_inv_def]
  show ?thesis
  proof (cases rule: set_status_cases [of v D t])
    case reset
    then show ?thesis by (simp add: inv_reset)
  next
    case failed
    with inv show ?thesis by (simp add: transport_inv_def)
  next
    case same
    with assms show ?thesis by simp
  next
    case step
    with inv show ?thesis
      by (auto simp: transport_inv_def status_ok_def status_values_def device_status_defs)
  next
    case live
    with inv show ?thesis
      by (simp add: transport_inv_def status_ok_def status_values_def device_status_defs)
  next
    case (activated d)
    with inv show ?thesis
      by (simp add: transport_inv_def activate_frame [OF activated(4)] status_ok_def status_values_def
          device_status_defs)
  next
    case (refused d e)
    with inv show ?thesis
      by (simp add: transport_inv_def activate_frame(1-3) [OF refused(4)] status_ok_def status_values_def
          device_status_defs)
  qed
qed

lemma inv_write_register:
  assumes "transport_inv D t" "write_register D t off v = Some t'" shows "transport_inv D t'"
  by (cases rule: write_register_cases [of D t off v])
    (use assms in \<open>auto simp: inv_features inv_queue inv_set_status intro: inv_notify,
      auto simp: transport_inv_def\<close>)

lemma inv_write_config:
  "transport_inv D t \<Longrightarrow> transport_inv D (t\<lparr>t_device := vd_write_config D (t_device t) off data\<rparr>)"
  by (simp add: transport_inv_def write_config_frame)

lemma inv_transport_write:
  assumes "transport_inv D t" "transport_write D t off data = Some t'" shows "transport_inv D t'"
  using assms
  by (auto simp: transport_write_def inv_write_config intro: inv_write_register split: if_splits)

lemma inv_transport_run:
  "transport_inv D t \<Longrightarrow> transport_run D t ws = Some t' \<Longrightarrow> transport_inv D t'"
proof (induction ws arbitrary: t)
  case (Cons w ws)
  then show ?case
    by (cases w) (auto split: option.splits dest: inv_transport_write)
qed simp

lemma live_write_register:
  assumes "t_status t AND DRIVER_OK \<noteq> 0" "off \<noteq> 0x70 \<or> v \<noteq> 0" "write_register D t off v = Some t'"
  shows "map queue_config (vd_queues D (t_device t')) = map queue_config (vd_queues D (t_device t))"
proof (cases rule: write_register_cases [of D t off v])
  case status
  with assms have t': "t' = set_status D t v" "v \<noteq> 0" by auto
  show ?thesis
  proof (cases rule: set_status_cases [of v D t])
    case (activated d)
    then show ?thesis by (simp add: t' activate_frame [OF activated(4)])
  next
    case (refused d e)
    then show ?thesis by (simp add: t' activate_frame(1-3) [OF refused(4)])
  qed (simp_all add: t')
next
  case notify
  with assms show ?thesis
    by (auto simp: handle_queue_notify_def process_queue_frame split: if_splits option.splits)
qed (use assms in \<open>auto simp: handle_driver_features_write_def update_queue_field_def set_acked_frame Let_def\<close>)

lemma activated_handlers [simp]:
  "vd_is_activated D (t_device (handle_driver_features_write D t v)) = vd_is_activated D (t_device t)"
  "vd_is_activated D (t_device (update_queue_field D t g)) = vd_is_activated D (t_device t)"
  "vd_is_activated D (t_device (transport_reset D t)) = vd_is_activated D (t_device t)"
  by (simp_all add: handle_driver_features_write_def update_queue_field_def
      transport_reset_def set_acked_frame set_queues_frame Let_def)

lemma activated_notify:
  "handle_queue_notify D t i = Some t' \<Longrightarrow> vd_is_activated D (t_device t') = vd_is_activated D (t_device t)"
  by (auto simp: handle_queue_notify_def process_queue_frame(4) split: if_splits option.splits)

lemma activated_set_status:
  "vd_is_activated D (t_device t) \<Longrightarrow> vd_is_activated D (t_device (set_status D t v))"
  by (cases rule: set_status_cases [of v D t]) auto

lemma activated_write_register:
  assumes "vd_is_activated D (t_device t)" "write_register D t off v = Some t'"
  shows "vd_is_activated D (t_device t')"
proof (cases rule: write_register_cases [of D t off v])
  case notify
  with assms show ?thesis using activated_notify [of t "ucast v" t'] by simp
qed (use assms in \<open>auto simp: activated_set_status\<close>)

lemma activated_write:
  assumes "vd_is_activated D (t_device t)"
  shows "transport_write (D\<lparr>vd_activate := f\<rparr>) t off data = transport_write D t off data"
    and "transport_write D t off data = Some t' \<Longrightarrow> vd_is_activated D (t_device t')"
proof -
  have ops: "handle_driver_features_write (D\<lparr>vd_activate := f\<rparr>) t v = handle_driver_features_write D t v"
    "update_queue_field (D\<lparr>vd_activate := f\<rparr>) t g = update_queue_field D t g"
    "handle_queue_notify (D\<lparr>vd_activate := f\<rparr>) t i = handle_queue_notify D t i"
    "transport_reset (D\<lparr>vd_activate := f\<rparr>) t = transport_reset D t" for v g i
    by (simp_all add: handle_driver_features_write_def update_queue_field_def
        handle_queue_notify_def transport_reset_def Let_def)
  have st: "set_status (D\<lparr>vd_activate := f\<rparr>) t v = set_status D t v" for v
    using assms by (simp add: set_status_def ops(4) activate_device_def Let_def)
  have "write_register (D\<lparr>vd_activate := f\<rparr>) t off v = write_register D t off v" for v
    by (simp only: write_register_def ops st)
  then show "transport_write (D\<lparr>vd_activate := f\<rparr>) t off data = transport_write D t off data"
    by (simp add: transport_write_def)
  show "vd_is_activated D (t_device t')" if "transport_write D t off data = Some t'"
    using assms that
    by (auto simp: transport_write_def write_config_frame intro: activated_write_register split: if_splits)
qed

lemma activated_run:
  assumes "vd_is_activated D (t_device t)"
  shows "transport_run (D\<lparr>vd_activate := f\<rparr>) t ws = transport_run D t ws"
  using assms
proof (induction ws arbitrary: t)
  case (Cons w ws)
  obtain off data where w: "w = (off, data)" by (cases w)
  show ?case
    using Cons.IH activated_write [OF Cons.prems]
    by (auto simp: w split: option.split)
qed simp

lemma update_queue_field_queues:
  assumes "t_status t AND DRIVER_OK = 0" "unat (t_queue_select t) < length (vd_queues D (t_device t))"
  shows "vd_queues D (t_device (update_queue_field D t f)) =
    (vd_queues D (t_device t))[unat (t_queue_select t) := f (vd_queues D (t_device t) ! unat (t_queue_select t))]"
  using assms by (simp add: update_queue_field_def Let_def queues_set)

end

subsection \<open>Device invariants under any sequence of guest writes\<close>

locale device_invariant =
  fixes D :: "('d, 'm, 'g) virtio_device_ops" and P :: "'d \<Rightarrow> bool"
  assumes P_set_acked: "P d \<Longrightarrow> P (vd_set_acked_features D d v)"
    and P_set_queues: "P d \<Longrightarrow> P (vd_set_queues D d qs)"
    and P_write_config: "P d \<Longrightarrow> P (vd_write_config D d off data)"
    and P_activate: "P d \<Longrightarrow> vd_activate D d w = (d', r) \<Longrightarrow> P d'"
    and P_process_queue: "P d \<Longrightarrow> vd_process_queue D d w i = Some (d', w') \<Longrightarrow> P d'"
begin

lemma P_set_status: "P (t_device t) \<Longrightarrow> P (t_device (set_status D t v))"
  by (cases rule: set_status_cases [of v D t])
    (auto simp: transport_reset_def Let_def P_set_acked P_set_queues intro: P_activate)

lemma P_write_register:
  assumes "P (t_device t)" "write_register D t off v = Some t'"
  shows "P (t_device t')"
proof (cases rule: write_register_cases [of D t off v])
  case notify
  with assms show ?thesis
    by (auto simp: handle_queue_notify_def intro: P_process_queue split: if_splits option.splits)
qed (use assms in \<open>auto simp: P_set_status P_set_acked P_set_queues handle_driver_features_write_def
      update_queue_field_def Let_def\<close>)

lemma P_transport_write:
  assumes "P (t_device t)" "transport_write D t off data = Some t'"
  shows "P (t_device t')"
  using assms by (auto simp: transport_write_def P_write_config intro: P_write_register split: if_splits)

lemma P_transport_run:
  "P (t_device t) \<Longrightarrow> transport_run D t ws = Some t' \<Longrightarrow> P (t_device t')"
proof (induction ws arbitrary: t)
  case (Cons w ws)
  then show ?case
    by (cases w) (auto split: option.splits dest: P_transport_write)
qed simp

end

subsection \<open>Address registers\<close>

lemma low_word_mask: "(0xFFFFFFFF :: u64) = mask 32"
  by (simp add: mask_eq_exp_minus_1)

lemma set_addr_low_high:
  "set_addr_high (set_addr_low a (ucast v)) (ucast (drop_bit 32 (v :: u64))) = v"
  unfolding set_addr_low_def set_addr_high_def low_word_mask
  by (rule bit_word_eqI) (auto simp: bit_simps)

lemma update_queue_field_frame [simp]:
  "t_status (update_queue_field D t f) = t_status t"
  "t_queue_select (update_queue_field D t f) = t_queue_select t"
  by (simp_all add: update_queue_field_def Let_def)

end
