(* ===== verification/Queue_Service.thy ===== *)
theory Queue_Service
  imports Virtio_Transport
begin

text \<open>
  The loop every virtio device of \<open>src/crates/virtio/src/devices/\<close> runs on a notification:
  pop a chain off the available ring, walk its descriptors, let the device serve them, put
  the chain on the used ring, and pulse the interrupt line once at the end if anything was
  completed. The devices differ in how one chain is served; that part is a handler, and
  \<open>serve_body\<close> is the loop around it.

  The locale \<open>chain_server\<close> is what the loop relies on: a handler writes guest memory only
  inside the device-writable buffers of its chain. For rings laid out as the virtio
  specification demands (the rings do not overlap, and no device-writable buffer overlaps
  the available ring or the descriptor table) the loop then ends; if moreover every handler
  call answers its chain (\<open>answering_server\<close>) one notification completes everything that was
  pending.
\<close>

subsection \<open>Buffers\<close>

text \<open>The bytes behind a list of descriptors, in order; and buffers that do not overlap.\<close>

fun gather :: "'m guest_memory_ops \<Rightarrow> 'm \<Rightarrow> descriptor list \<Rightarrow> core_error + bytes" where
  "gather M m [] = Inr []"
| "gather M m (d # ds) =
     (case gm_read M m (d_addr d) (unat (d_len d)) of
        Inl e \<Rightarrow> Inl e
      | Inr bs \<Rightarrow> (case gather M m ds of Inl e \<Rightarrow> Inl e | Inr cs \<Rightarrow> Inr (bs @ cs)))"

definition desc_disjoint :: "descriptor \<Rightarrow> u64 \<Rightarrow> nat \<Rightarrow> bool" where
  "desc_disjoint d a n \<longleftrightarrow> disjoint_ranges (d_addr d) (unat (d_len d)) a n"

fun bufs_disjoint :: "descriptor list \<Rightarrow> bool" where
  "bufs_disjoint [] \<longleftrightarrow> True"
| "bufs_disjoint (d # ds) \<longleftrightarrow>
     list_all (\<lambda>e. desc_disjoint e (d_addr d) (unat (d_len d))) ds \<and> bufs_disjoint ds"

abbreviation device_buffers :: "descriptor list \<Rightarrow> descriptor list" where
  "device_buffers ds \<equiv> filter is_write_only ds"

abbreviation driver_buffers :: "descriptor list \<Rightarrow> descriptor list" where
  "driver_buffers ds \<equiv> filter (\<lambda>d. \<not> is_write_only d) ds"

abbreviation total_len :: "descriptor list \<Rightarrow> nat" where
  "total_len ds \<equiv> sum_list (map (\<lambda>d. unat (d_len d)) ds)"

subsection \<open>Well laid out rings\<close>

definition rings_fit :: "queue \<Rightarrow> bool" where
  "rings_fit q \<longleftrightarrow>
     0 < q_size q \<and> used_ring_fits q \<and>
     unat (q_avail_ring_addr q) + (4 + 2 * unat (q_size q)) \<le> 2 ^ 64 \<and>
     unat (q_desc_table_addr q) + 16 * unat (q_size q) \<le> 2 ^ 64 \<and>
     disjoint_ranges (q_used_ring_addr q) (4 + 8 * unat (q_size q)) (q_avail_ring_addr q) (4 + 2 * unat (q_size q)) \<and>
     disjoint_ranges (q_used_ring_addr q) (4 + 8 * unat (q_size q)) (q_desc_table_addr q) (16 * unat (q_size q))"

definition buffers_safe :: "'m guest_memory_ops \<Rightarrow> 'm \<Rightarrow> queue \<Rightarrow> bool" where
  "buffers_safe M m q \<longleftrightarrow>
     list_all (\<lambda>i. case read_descriptor M m (q_desc_table_addr q) (of_nat i) of
         Inl _ \<Rightarrow> True
       | Inr d \<Rightarrow> is_write_only d \<longrightarrow>
           desc_disjoint d (q_avail_ring_addr q) (4 + 2 * unat (q_size q)) \<and>
           desc_disjoint d (q_desc_table_addr q) (16 * unat (q_size q)))
       [0..<unat (q_size q)]"

text \<open>The driver's half of the queue reads the same in both memories.\<close>

definition same_rings :: "'m guest_memory_ops \<Rightarrow> queue \<Rightarrow> 'm \<Rightarrow> 'm \<Rightarrow> bool" where
  "same_rings M q m m' \<longleftrightarrow>
     avail_idx M m' q = avail_idx M m q \<and>
     (\<forall>i. avail_ring_entry M m' q i = avail_ring_entry M m q i) \<and>
     (\<forall>i < q_size q. read_descriptor M m' (q_desc_table_addr q) i = read_descriptor M m (q_desc_table_addr q) i)"

lemma same_rings_trans: "same_rings M q m m1 \<Longrightarrow> same_rings M q m1 m2 \<Longrightarrow> same_rings M q m m2"
  by (simp add: same_rings_def)

lemma same_rings_config:
  "queue_config q' = queue_config q \<Longrightarrow> same_rings M q' m m' \<longleftrightarrow> same_rings M q m m'"
  using queue_config_eqD [of q' q] by (simp add: same_rings_def avail_idx_def avail_ring_entry_def)

lemma rings_fit_config: "queue_config q' = queue_config q \<Longrightarrow> rings_fit q' \<longleftrightarrow> rings_fit q"
  using queue_config_eqD [of q' q] by (simp add: rings_fit_def used_ring_fits_def)

lemma buffers_safe_config:
  "queue_config q' = queue_config q \<Longrightarrow> buffers_safe M m q' \<longleftrightarrow> buffers_safe M m q"
  by (simp only: buffers_safe_def queue_config_eqD [of q' q])

lemma same_rings_linked:
  assumes "same_rings M q m m'"
  shows "linked_chain M m' (q_desc_table_addr q) (q_size q) h ds \<longleftrightarrow>
    linked_chain M m (q_desc_table_addr q) (q_size q) h ds"
proof -
  have "linked_chain M b (q_desc_table_addr q) (q_size q) h ds"
    if "linked_chain M a (q_desc_table_addr q) (q_size q) h ds"
      "\<And>i. i < q_size q \<Longrightarrow> read_descriptor M a (q_desc_table_addr q) i = read_descriptor M b (q_desc_table_addr q) i"
    for a b using that by (induction rule: linked_chain.induct) (auto intro: chain_last chain_link)
  with assms show ?thesis unfolding same_rings_def by metis
qed

lemma linked_chain_from_table:
  "linked_chain M m table n i ds \<Longrightarrow> d \<in> set ds \<Longrightarrow> \<exists>k < n. read_descriptor M m table k = Inr d"
  by (induction rule: linked_chain.induct) auto

lemma buffers_safe_chain:
  assumes "buffers_safe M m q" "linked_chain M m (q_desc_table_addr q) (q_size q) h ds"
    "d \<in> set ds" "is_write_only d"
  shows "desc_disjoint d (q_avail_ring_addr q) (4 + 2 * unat (q_size q))"
    "desc_disjoint d (q_desc_table_addr q) (16 * unat (q_size q))"
proof -
  obtain k where k: "k < q_size q" "read_descriptor M m (q_desc_table_addr q) k = Inr d"
    using linked_chain_from_table [OF assms(2,3)] by blast
  have "unat k \<in> set [0..<unat (q_size q)]" using k(1) by (simp add: word_less_nat_alt)
  with assms(1) have "case read_descriptor M m (q_desc_table_addr q) (of_nat (unat k)) of
         Inl _ \<Rightarrow> True
       | Inr d \<Rightarrow> is_write_only d \<longrightarrow>
           desc_disjoint d (q_avail_ring_addr q) (4 + 2 * unat (q_size q)) \<and>
           desc_disjoint d (q_desc_table_addr q) (16 * unat (q_size q))"
    unfolding buffers_safe_def list_all_iff by blast
  with k(2) assms(4) show "desc_disjoint d (q_avail_ring_addr q) (4 + 2 * unat (q_size q))"
    "desc_disjoint d (q_desc_table_addr q) (16 * unat (q_size q))" by simp_all
qed

lemma same_rings_buffers:
  assumes "same_rings M q m m'" shows "buffers_safe M m' q \<longleftrightarrow> buffers_safe M m q"
proof -
  have "read_descriptor M m' (q_desc_table_addr q) (of_nat i) = read_descriptor M m (q_desc_table_addr q) (of_nat i)"
    if "i \<in> set [0..<unat (q_size q)]" for i
  proof -
    have "of_nat i < q_size q"
      using that unat_lt16 [of "q_size q"]
      by (auto simp: word_less_nat_alt unsigned_of_nat intro: le_less_trans [OF take_bit_nat_less_eq_self])
    with assms show ?thesis by (simp add: same_rings_def)
  qed
  then show ?thesis unfolding buffers_safe_def by (intro list.pred_cong) simp_all
qed

text \<open>A step that leaves the bytes of the available ring and of the table alone.\<close>

definition regions_same :: "'m guest_memory_ops \<Rightarrow> queue \<Rightarrow> 'm \<Rightarrow> 'm \<Rightarrow> bool" where
  "regions_same M q m m' \<longleftrightarrow> (\<forall>x n.
     unat (q_avail_ring_addr q) \<le> unat x \<and> unat x + n \<le> unat (q_avail_ring_addr q) + (4 + 2 * unat (q_size q)) \<or>
     unat (q_desc_table_addr q) \<le> unat x \<and> unat x + n \<le> unat (q_desc_table_addr q) + 16 * unat (q_size q)
     \<longrightarrow> gm_read M m' x n = gm_read M m x n)"

lemma table_entry_addr:
  assumes "rings_fit q" "i < q_size q"
  shows "unat (q_desc_table_addr q + ucast i * 16) = unat (q_desc_table_addr q) + 16 * unat i"
proof -
  have "16 * unat i + 16 \<le> 16 * unat (q_size q)" using assms(2) by (simp add: word_less_nat_alt)
  with assms(1) have fits: "unat (q_desc_table_addr q) + 16 * unat i + 16 \<le> 2 ^ 64"
    by (simp add: rings_fit_def)
  have "unat (ucast i * 16 :: u64) = 16 * unat i" using fits by (subst unat_word_ariths(2)) simp
  with fits show ?thesis by (subst unat_plus_nowrap) simp_all
qed

lemma regions_same_rings:
  assumes fit: "rings_fit q" and same: "regions_same M q m m'"
  shows "same_rings M q m m'"
  unfolding same_rings_def
proof (intro conjI allI impI)
  let ?a = "q_avail_ring_addr q" and ?t = "q_desc_table_addr q" and ?n = "unat (q_size q)"
  have pos: "0 < ?n" "unat ?a + (4 + 2 * ?n) \<le> 2 ^ 64" using fit by (simp_all add: rings_fit_def word_less_nat_alt)
  have "unat (?a + 2) = unat ?a + 2" using pos by (subst unat_plus_nowrap) simp_all
  then have "gm_read M m' (?a + 2) 2 = gm_read M m (?a + 2) 2"
    using same unfolding regions_same_def by simp
  then show "avail_idx M m' q = avail_idx M m q" by (simp add: avail_idx_def read_u16_le_def)
  fix i :: u16
  have lt: "unat (i mod q_size q) < ?n" using pos(1) by (simp add: unat_mod)
  have s2: "unat (ucast (i mod q_size q) * 2 :: u64) = 2 * unat (i mod q_size q)"
    using lt pos by (subst unat_word_ariths(2)) simp
  have "unat (?a + 4) = unat ?a + 4" using pos by (subst unat_plus_nowrap) simp_all
  then have "unat (?a + 4 + ucast (i mod q_size q) * 2) = unat ?a + 4 + 2 * unat (i mod q_size q)"
    using lt s2 pos by (subst unat_plus_nowrap) simp_all
  then have "gm_read M m' (?a + 4 + ucast (i mod q_size q) * 2) 2 = gm_read M m (?a + 4 + ucast (i mod q_size q) * 2) 2"
    using same lt unfolding regions_same_def by simp
  then show "avail_ring_entry M m' q i = avail_ring_entry M m q i"
    by (simp add: avail_ring_entry_def read_u16_le_def Let_def)
  assume i: "i < q_size q"
  let ?e = "?t + ucast i * 16"
  have e: "unat ?e = unat ?t + 16 * unat i" using fit i by (rule table_entry_addr)
  have fits: "unat ?t + 16 * unat i + 16 \<le> unat ?t + 16 * ?n" "unat ?t + 16 * ?n \<le> 2 ^ 64"
    using fit i by (simp_all add: rings_fit_def word_less_nat_alt)
  have off: "unat (?e + k) = unat ?e + unat k" if "unat k < 16" for k
    using that fits e by (subst unat_plus_nowrap) simp_all
  have field: "gm_read M m' (?e + k) l = gm_read M m (?e + k) l" if "unat k + l \<le> 16" "0 < l" for k l
    using same that off [of k] e fits unfolding regions_same_def by simp
  show "read_descriptor M m' ?t i = read_descriptor M m ?t i"
    using field [of 0 8] field [of 8 4] field [of 12 2] field [of 14 2]
    by (simp add: read_descriptor_def gm_read_defs Let_def split: sum.split)
qed

lemma pending_heads_cong:
  assumes "same_rings M q m m'" "queue_config q' = queue_config q" "q_next_avail_idx q' = q_next_avail_idx q"
  shows "pending_heads M m' q' = pending_heads M m q"
proof -
  have "avail_idx M m' q' = avail_idx M m q" "avail_ring_entry M m' q' = avail_ring_entry M m q"
    using assms(1) queue_config_eqD [OF assms(2)]
    by (auto simp: same_rings_def avail_idx_def avail_ring_entry_def fun_eq_iff)
  with assms(3) show ?thesis by (simp only: pending_heads_def)
qed

lemma chain_at_config: "queue_config q' = queue_config q \<Longrightarrow> chain_at q' h = chain_at q h"
  by (simp add: chain_at_def queue_config_eqD [of q' q])

lemma collects_iff:
  "\<not> isl (collect M m (chain_at q h)) \<longleftrightarrow>
    (\<exists>ds. linked_chain M m (q_desc_table_addr q) (q_size q) h ds \<and> length ds \<le> unat (q_size q))"
  by (cases "collect M m (chain_at q h)") (auto simp flip: collect_iff)

subsection \<open>Pushing to the used ring, whatever the outcome\<close>

context guest_memory
begin

lemma push_used_any:
  assumes "push_used M m q h n = ((m', q'), r)"
  shows "q_next_avail_idx q' = q_next_avail_idx q"
    and "used_ring_fits q \<Longrightarrow> disjoint_ranges (q_used_ring_addr q) (4 + 8 * unat (q_size q)) a k \<Longrightarrow>
      gm_read M m' a k = gm_read M m a k"
    and "isl (gm_read M m' b l) = isl (gm_read M m b l)"
proof -
  let ?e = "used_elem_addr q (q_next_used_idx q)" and ?u = "q_used_ring_addr q"
  show "q_next_avail_idx q' = q_next_avail_idx q"
    using assms by (auto simp: push_used_def Let_def split: if_splits sum.splits)
  show "isl (gm_read M m' b l) = isl (gm_read M m b l)"
    using assms by (auto simp: push_used_def Let_def write_u16_domain write_u32_domain split: if_splits sum.splits)
  show "gm_read M m' a k = gm_read M m a k"
    if fits: "used_ring_fits q" and dis: "disjoint_ranges ?u (4 + 8 * unat (q_size q)) a k"
  proof (cases "is_valid q")
    case True
    then have "0 < q_size q" by (simp add: is_valid_def)
    from used_disjoint(5) [OF fits this dis, where i = "q_next_used_idx q"]
    have d: "disjoint_ranges ?e 4 a k" "disjoint_ranges (?e + 4) 4 a k" "disjoint_ranges (?u + 2) 2 a k" by blast+
    show ?thesis
      using assms True write_u32_other [OF _ d(1)] write_u32_other [OF _ d(2)] write_u16_other [OF _ d(3)]
      by (auto simp: push_used_def Let_def simp flip: used_elem_addr_def split: if_splits sum.splits)
  qed (use assms in \<open>simp add: push_used_def\<close>)
qed

end

subsection \<open>The loop\<close>

text \<open>
  What a handler decides about its chain: leave the loop, go on without answering
  (\<open>continue\<close> before \<open>push_used\<close>), put the chain on the used ring and leave if that fails,
  or put it there and go on whatever comes of it (\<open>let _ = push_used(..)\<close>). The handler gets
  the result of \<open>chain.collect\<close>, errors included.
\<close>

datatype chain_verdict = Give_Up | Skip | Reply u32 | Reply_Anyway u32

type_synonym ('s, 'm) chain_handler =
  "'s \<Rightarrow> 'm \<Rightarrow> queue_error + descriptor list \<Rightarrow> ('s \<times> 'm) \<times> chain_verdict"

definition serve_body ::
  "'m guest_memory_ops \<Rightarrow> ('s, 'm) chain_handler \<Rightarrow> (queue \<times> 'm \<times> 's \<times> bool)
    \<Rightarrow> (queue \<times> 'm \<times> 's \<times> bool) + (queue \<times> 'm \<times> 's \<times> bool)" where
  "serve_body M handle = (\<lambda>(q, m, s, completed).
     case pop_avail M m q of
        (q1, Inl _) \<Rightarrow> Inl (q1, m, s, completed)
      | (q1, Inr None) \<Rightarrow> Inl (q1, m, s, completed)
      | (q1, Inr (Some chain)) \<Rightarrow>
          (case handle s m (collect M m chain) of
             ((s1, m1), Give_Up) \<Rightarrow> Inl (q1, m1, s1, completed)
           | ((s1, m1), Skip) \<Rightarrow> Inr (q1, m1, s1, completed)
           | ((s1, m1), Reply written) \<Rightarrow>
               (case push_used M m1 q1 (dc_head_index chain) written of
                  ((m2, q2), Inl _) \<Rightarrow> Inl (q2, m2, s1, completed)
                | ((m2, q2), Inr _) \<Rightarrow> Inr (q2, m2, s1, True))
           | ((s1, m1), Reply_Anyway written) \<Rightarrow>
               (case push_used M m1 q1 (dc_head_index chain) written of
                  ((m2, q2), _) \<Rightarrow> Inr (q2, m2, s1, True))))"

definition serve_queue ::
  "'m guest_memory_ops \<Rightarrow> 'g gic_ops \<Rightarrow> ('s, 'm) chain_handler \<Rightarrow> queue \<Rightarrow> 's \<Rightarrow> ('m, 'g) virtio_world
    \<Rightarrow> (queue \<times> 's \<times> ('m, 'g) virtio_world) option" where
  "serve_queue M G handle q s w =
     (case break_loop (serve_body M handle) (q, w_mem w, s, False) of
        None \<Rightarrow> None
      | Some (q', m, s', completed) \<Rightarrow>
          Some (q', s', w\<lparr>w_mem := m,
                          w_irq := (if completed then fst (trigger_queue G (w_irq w)) else w_irq w)\<rparr>))"

lemma serve_body_config:
  "serve_body M handle (q, m, s, c) = Inl (q', m', s', c') \<Longrightarrow> queue_config q' = queue_config q"
  "serve_body M handle (q, m, s, c) = Inr (q', m', s', c') \<Longrightarrow> queue_config q' = queue_config q"
  by (auto simp: serve_body_def split: prod.splits sum.splits option.splits chain_verdict.splits
      dest!: pop_avail_config push_used_config)

lemma serve_queue_config:
  assumes "serve_queue M G handle q s w = Some (q', s', w')"
  shows "queue_config q' = queue_config q"
proof -
  obtain m c where l: "break_loop (serve_body M handle) (q, w_mem w, s, False) = Some (q', m, s', c)"
    using assms by (auto simp: serve_queue_def split: option.splits)
  have "queue_config (fst (q', m, s', c)) = queue_config q"
    by (rule break_loop_rule [OF l, where I = "\<lambda>s. queue_config (fst s) = queue_config q"])
      (auto dest: serve_body_config)
  then show ?thesis by simp
qed

text \<open>An invariant of the device's own state that every handler call keeps.\<close>

lemma serve_queue_state:
  assumes "serve_queue M G handle q s w = Some (q', s', w')" "P s"
    and "\<And>s m r s1 m1 v. P s \<Longrightarrow> handle s m r = ((s1, m1), v) \<Longrightarrow> P s1"
  shows "P s'"
proof -
  obtain m c where l: "break_loop (serve_body M handle) (q, w_mem w, s, False) = Some (q', m, s', c)"
    using assms(1) by (auto simp: serve_queue_def split: option.splits)
  have step: "P (fst (snd (snd t)))" if "P (fst (snd (snd s)))" "serve_body M handle s = Inl t \<or> serve_body M handle s = Inr t" for s t
    using that assms(3)
    by (cases s) (fastforce simp: serve_body_def split: prod.splits sum.splits option.splits chain_verdict.splits)
  have "P (fst (snd (snd (q', m, s', c))))"
    by (rule break_loop_rule [OF l, where I = "\<lambda>s. P (fst (snd (snd s)))"])
      (use assms(2) step in auto)
  then show ?thesis by simp
qed

text \<open>One turn that goes on, taken apart.\<close>

lemma serve_body_InrE:
  assumes "serve_body M handle (q, m, s, c) = Inr (q', m', s', c')"
  obtains h m1 v where "is_valid q"
    "pending_heads M m q = Inr h # pending_heads M m (q\<lparr>q_next_avail_idx := q_next_avail_idx q + 1\<rparr>)"
    "handle s m (collect M m (chain_at q h)) = ((s', m1), v)"
    "v = Skip \<and> q' = q\<lparr>q_next_avail_idx := q_next_avail_idx q + 1\<rparr> \<and> m' = m1 \<and> c' = c \<or>
     (\<exists>w r. push_used M m1 (q\<lparr>q_next_avail_idx := q_next_avail_idx q + 1\<rparr>) h w = ((m', q'), r) \<and>
        (v = Reply w \<and> r = Inr () \<or> v = Reply_Anyway w) \<and> c')"
proof -
  from assms obtain q1 chain m1 v where pop: "pop_avail M m q = (q1, Inr (Some chain))"
    and h: "handle s m (collect M m chain) = ((s', m1), v)"
    and rest: "v = Skip \<and> q' = q1 \<and> m' = m1 \<and> c' = c \<or>
      (\<exists>w r. push_used M m1 q1 (dc_head_index chain) w = ((m', q'), r) \<and>
        (v = Reply w \<and> r = Inr () \<or> v = Reply_Anyway w) \<and> c')"
    by (auto simp: serve_body_def split: prod.splits sum.splits option.splits chain_verdict.splits)
  from pop obtain d h where v: "is_valid q" and d: "avail_idx M m q = Inr d" "d \<noteq> q_next_avail_idx q"
    and hd: "avail_ring_entry M m q (q_next_avail_idx q) = Inr h"
    and q1: "q1 = q\<lparr>q_next_avail_idx := q_next_avail_idx q + 1\<rparr>" and chain: "chain = chain_at q h"
    by (auto simp: pop_avail_def chain_at_def split: if_splits sum.splits)
  have "dc_head_index chain = h" by (simp add: chain chain_at_def)
  with v pending_heads_Cons [OF d] hd h rest show thesis
    using that by (simp add: q1 chain)
qed

locale chain_server = guest_memory M
  for M :: "'m guest_memory_ops" +
  fixes handle :: "('s, 'm) chain_handler"
  assumes handle_frame:
      "handle s m r = ((s', m'), v) \<Longrightarrow>
        (\<And>ds d. r = Inr ds \<Longrightarrow> d \<in> set ds \<Longrightarrow> is_write_only d \<Longrightarrow> desc_disjoint d a n) \<Longrightarrow>
        gm_read M m' a n = gm_read M m a n"
    and handle_domain:
      "handle s m r = ((s', m'), v) \<Longrightarrow> isl (gm_read M m' a n) = isl (gm_read M m a n)"
begin

lemma serve_body_step:
  assumes fit: "rings_fit q" and safe: "buffers_safe M m q"
    and body: "serve_body M handle (q, m, s, c) = Inr (q', m', s', c')"
  shows "same_rings M q m m'" "queue_config q' = queue_config q"
    "\<exists>h. pending_heads M m q = h # pending_heads M m' q'"
    "isl (gm_read M m' a n) = isl (gm_read M m a n)"
proof -
  let ?q1 = "q\<lparr>q_next_avail_idx := q_next_avail_idx q + 1\<rparr>"
  from body obtain h m1 v where
    pend: "pending_heads M m q = Inr h # pending_heads M m ?q1"
    and han: "handle s m (collect M m (chain_at q h)) = ((s', m1), v)"
    and fin: "v = Skip \<and> q' = ?q1 \<and> m' = m1 \<and> c' = c \<or>
     (\<exists>w r. push_used M m1 ?q1 h w = ((m', q'), r) \<and> (v = Reply w \<and> r = Inr () \<or> v = Reply_Anyway w) \<and> c')"
    by (rule serve_body_InrE)
  have fits: "used_ring_fits ?q1" using fit by (simp add: rings_fit_def used_ring_fits_def)
  show cfg: "queue_config q' = queue_config q" using body by (rule serve_body_config)
  have nxt: "q_next_avail_idx q' = q_next_avail_idx ?q1" using fin push_used_any(1) by fastforce
  have "regions_same M q m m'"
    unfolding regions_same_def
  proof (intro allI impI)
    fix x :: u64 and k
    assume inside: "unat (q_avail_ring_addr q) \<le> unat x \<and>
        unat x + k \<le> unat (q_avail_ring_addr q) + (4 + 2 * unat (q_size q)) \<or>
      unat (q_desc_table_addr q) \<le> unat x \<and> unat x + k \<le> unat (q_desc_table_addr q) + 16 * unat (q_size q)"
    have "gm_read M m1 x k = gm_read M m x k"
    proof (rule handle_frame [OF han])
      fix ds d assume "collect M m (chain_at q h) = Inr ds" "d \<in> set ds" "is_write_only d"
      moreover from this(1) have "linked_chain M m (q_desc_table_addr q) (q_size q) h ds" by (simp add: collect_iff)
      ultimately show "desc_disjoint d x k"
        using buffers_safe_chain [OF safe] inside
        unfolding desc_disjoint_def by (blast intro: disjoint_ranges_inside)
    qed
    moreover have "gm_read M m' x k = gm_read M m1 x k"
    proof -
      have "disjoint_ranges (q_used_ring_addr ?q1) (4 + 8 * unat (q_size ?q1)) x k"
        using fit inside by (auto simp: rings_fit_def intro: disjoint_ranges_inside)
      then show ?thesis using fin push_used_any(2) [OF _ fits] by blast
    qed
    ultimately show "gm_read M m' x k = gm_read M m x k" by simp
  qed
  then show same: "same_rings M q m m'" by (rule regions_same_rings [OF fit])
  have "same_rings M ?q1 m m'" using same by (simp add: same_rings_def avail_idx_def avail_ring_entry_def)
  then have "pending_heads M m' q' = pending_heads M m ?q1"
    by (rule pending_heads_cong) (use cfg nxt in \<open>simp_all add: queue_config_def\<close>)
  with pend show "\<exists>h. pending_heads M m q = h # pending_heads M m' q'" by simp
  have "isl (gm_read M m' a n) = isl (gm_read M m1 a n)" using fin push_used_any(3) by blast
  then show "isl (gm_read M m' a n) = isl (gm_read M m a n)" using handle_domain [OF han] by simp
qed

lemma serve_loop_terminates:
  assumes "rings_fit q" "buffers_safe M m q"
  shows "\<exists>r. break_loop (serve_body M handle) (q, m, s, c) = Some r"
proof (rule break_loop_total [where
      I = "\<lambda>(q, m, s, c). rings_fit q \<and> buffers_safe M m q" and
      f = "\<lambda>(q, m, s, c). length (pending_heads M m q)"], goal_cases)
  case 1
  with assms show ?case by simp
next
  case (2 s t)
  obtain q m b c where s: "s = (q, m, b, c)" by (cases s)
  obtain q' m' b' c' where t: "t = (q', m', b', c')" by (cases t)
  from 2 have pre: "rings_fit q" "buffers_safe M m q" and body: "serve_body M handle (q, m, b, c) = Inr (q', m', b', c')"
    by (simp_all add: s t)
  note step = serve_body_step [OF pre body]
  have "rings_fit q'" "buffers_safe M m' q'"
    using pre by (simp_all add: rings_fit_config [OF step(2)] buffers_safe_config [OF step(2)]
        same_rings_buffers [OF step(1)])
  with step(3) show ?case by (auto simp: s t)
qed

end

definition chains_ok :: "'m guest_memory_ops \<Rightarrow> 'm \<Rightarrow> queue \<Rightarrow> bool" where
  "chains_ok M m q \<longleftrightarrow>
     list_all (\<lambda>e. case e of Inl _ \<Rightarrow> False | Inr h \<Rightarrow> h < q_size q \<and> \<not> isl (collect M m (chain_at q h)))
       (pending_heads M m q)"

definition used_ring_ok :: "'m guest_memory_ops \<Rightarrow> 'm \<Rightarrow> queue \<Rightarrow> bool" where
  "used_ring_ok M m q \<longleftrightarrow>
     \<not> isl (gm_read M m (q_used_ring_addr q + 2) 2) \<and>
     list_all (\<lambda>i. \<not> isl (gm_read M m (used_elem_addr q (of_nat i)) 4) \<and>
                   \<not> isl (gm_read M m (used_elem_addr q (of_nat i) + 4) 4)) [0..<unat (q_size q)]"

lemma used_ring_okE:
  assumes "used_ring_ok M m q" "0 < q_size q"
  obtains x y z where "used_idx M m q = Inr x" "used_elem M m q k = (Inr y, Inr z)"
proof -
  have mem: "unat (k mod q_size q) \<in> set [0..<unat (q_size q)]"
    using assms(2) by (simp add: unat_mod word_less_nat_alt)
  have "k mod q_size q mod q_size q = k mod q_size q"
    by (simp add: word_unat_eq_iff unat_mod)
  then have addr: "used_elem_addr q (of_nat (unat (k mod q_size q))) = used_elem_addr q k"
    by (simp add: used_elem_addr_def)
  have "\<forall>i \<in> set [0..<unat (q_size q)]. \<not> isl (gm_read M m (used_elem_addr q (of_nat i)) 4) \<and>
      \<not> isl (gm_read M m (used_elem_addr q (of_nat i) + 4) 4)"
    using assms(1) unfolding used_ring_ok_def list_all_iff by blast
  from bspec [OF this mem, unfolded addr]
  have "\<not> isl (gm_read M m (used_elem_addr q k) 4)" "\<not> isl (gm_read M m (used_elem_addr q k + 4) 4)"
    by blast+
  moreover have "\<not> isl (gm_read M m (q_used_ring_addr q + 2) 2)"
    using assms(1) by (simp add: used_ring_ok_def)
  ultimately obtain b1 b2 b3 where "gm_read M m (used_elem_addr q k) 4 = Inr b1"
    "gm_read M m (used_elem_addr q k + 4) 4 = Inr b2" "gm_read M m (q_used_ring_addr q + 2) 2 = Inr b3"
    by (metis sum.collapse(2))
  then show thesis
    using that by (simp add: used_elem_def used_idx_def gm_read_defs)
qed

lemma is_valid_config: "queue_config q' = queue_config q \<Longrightarrow> is_valid q' \<longleftrightarrow> is_valid q"
  by (simp add: is_valid_def queue_config_eqD [of q' q])

lemma chains_ok_step:
  assumes same: "same_rings M q m m'" and cfg: "queue_config q' = queue_config q"
    and pend: "pending_heads M m q = h # pending_heads M m' q'" and ok: "chains_ok M m q"
  shows "chains_ok M m' q'"
proof -
  have "collect M m' (chain_at q' k) = Inr ds \<longleftrightarrow> collect M m (chain_at q k) = Inr ds" for k ds
    by (simp add: collect_iff queue_config_eqD [OF cfg] same_rings_linked [OF same])
  then have eq: "isl (collect M m' (chain_at q' k)) = isl (collect M m (chain_at q k))" for k
    by (metis isl_def old.sum.exhaust sum.disc(2))
  show ?thesis
    using ok unfolding chains_ok_def eq queue_config_eqD(2) [OF cfg] pend by simp
qed

text \<open>A server that answers every chain it can walk.\<close>

locale answering_server = chain_server M handle
  for M :: "'m guest_memory_ops" and handle :: "('s, 'm) chain_handler" +
  assumes answers: "\<exists>n. snd (handle s m (Inr ds)) = Reply n \<or> snd (handle s m (Inr ds)) = Reply_Anyway n"
begin

lemma serve_body_continues:
  assumes v: "is_valid q" and ok: "chains_ok M m q" and used: "used_ring_ok M m q"
    and idx: "avail_idx M m q = Inr d" and ne: "pending_heads M m q \<noteq> []"
  shows "\<exists>q' m' s'. serve_body M handle (q, m, s, c) = Inr (q', m', s', True) \<and>
    q_next_used_idx q' = q_next_used_idx q + 1"
proof -
  let ?q1 = "q\<lparr>q_next_avail_idx := q_next_avail_idx q + 1\<rparr>"
  obtain h rest where pend: "pending_heads M m q = Inr h # rest"
    and h: "h < q_size q" "\<not> isl (collect M m (chain_at q h))"
    using ok ne by (cases "pending_heads M m q") (auto simp: chains_ok_def split: sum.splits)
  have pop: "pop_avail M m q = (?q1, Inr (Some (chain_at q h)))"
    using pop_avail_fifo_aux [OF v idx] pend h(1) by simp
  obtain ds where ds: "collect M m (chain_at q h) = Inr ds"
    using h(2) by (cases "collect M m (chain_at q h)") auto
  obtain s1 m1 r where req: "handle s m (Inr ds) = ((s1, m1), r)" by (metis surj_pair)
  with answers [of s m ds] obtain w where r: "r = Reply w \<or> r = Reply_Anyway w" by auto
  have pos: "0 < q_size q" using v by (simp add: is_valid_def)
  have "used_ring_ok M m1 ?q1"
    using used handle_domain [OF req] by (simp add: used_ring_ok_def used_elem_addr_def)
  then obtain x y z where "used_idx M m1 ?q1 = Inr x"
    "used_elem M m1 ?q1 (q_next_used_idx ?q1) = (Inr y, Inr z)"
    by (rule used_ring_okE [where k = "q_next_used_idx ?q1"]) (simp add: pos)
  moreover have "is_valid ?q1" using v by (simp add: is_valid_def)
  ultimately obtain m' where
    "push_used M m1 ?q1 h w = ((m', ?q1\<lparr>q_next_used_idx := q_next_used_idx ?q1 + 1\<rparr>), Inr ())"
    using push_used_succeeds by blast
  then have "serve_body M handle (q, m, s, c) =
      Inr (?q1\<lparr>q_next_used_idx := q_next_used_idx ?q1 + 1\<rparr>, m', s1, True)"
    using pop ds req r by (auto simp: serve_body_def chain_at_def)
  then show ?thesis by auto
qed

lemma serve_completes_loop:
  assumes "is_valid q" "rings_fit q" "buffers_safe M m q" "chains_ok M m q" "used_ring_ok M m q"
    and "avail_idx M m q = Inr d"
  shows "\<exists>q' m' s'. break_loop (serve_body M handle) (q, m, s, c) = Some (q', m', s', c \<or> pending_heads M m q \<noteq> []) \<and>
    pending_heads M m' q' = [] \<and>
    q_next_used_idx q' = q_next_used_idx q + of_nat (length (pending_heads M m q))"
  using assms
proof (induction "length (pending_heads M m q)" arbitrary: q m s c)
  case 0
  then have "pop_avail M m q = (q, Inr None)"
    using pop_avail_fifo_aux [OF "0.prems"(1,6)] by simp
  then have "serve_body M handle (q, m, s, c) = Inl (q, m, s, c)" by (simp add: serve_body_def)
  with 0 show ?case by (simp add: break_loop.simps)
next
  case (Suc n)
  from Suc.hyps(2) have ne: "pending_heads M m q \<noteq> []" by auto
  obtain q1 m1 s1 where body: "serve_body M handle (q, m, s, c) = Inr (q1, m1, s1, True)"
    and used1: "q_next_used_idx q1 = q_next_used_idx q + 1"
    using serve_body_continues [OF Suc.prems(1,4,5,6) ne] by blast
  note step = serve_body_step [OF Suc.prems(2,3) body]
  obtain h where pend: "pending_heads M m q = h # pending_heads M m1 q1" using step(3) by blast
  have "used_ring_ok M m1 q1"
    using Suc.prems(5) by (simp add: used_ring_ok_def used_elem_addr_def step(4) queue_config_eqD [OF step(2)])
  moreover have "avail_idx M m1 q1 = Inr d"
    using step(1) Suc.prems(6) by (simp add: same_rings_def avail_idx_def queue_config_eqD [OF step(2)])
  moreover have "is_valid q1" "rings_fit q1" "buffers_safe M m1 q1" "chains_ok M m1 q1"
    using Suc.prems is_valid_config [OF step(2)] rings_fit_config [OF step(2)]
      buffers_safe_config [OF step(2), of M m1] same_rings_buffers [OF step(1)]
      chains_ok_step [OF step(1,2) pend] by simp_all
  moreover have "n = length (pending_heads M m1 q1)" using Suc.hyps(2) pend by simp
  ultimately obtain q' m' s' where
    "break_loop (serve_body M handle) (q1, m1, s1, True) = Some (q', m', s', True \<or> pending_heads M m1 q1 \<noteq> [])"
    "pending_heads M m' q' = []"
    "q_next_used_idx q' = q_next_used_idx q1 + of_nat (length (pending_heads M m1 q1))"
    using Suc.hyps(1) [of m1 q1 s1 True] by blast
  then show ?case
    using body used1 pend by (simp add: break_loop.simps [of _ "(q, m, s, c)"] add.assoc)
qed

lemma serve_queue_completes:
  assumes "is_valid q" "rings_fit q" "buffers_safe M (w_mem w) q" "chains_ok M (w_mem w) q" "used_ring_ok M (w_mem w) q"
    and "avail_idx M (w_mem w) q = Inr d"
  shows "\<exists>q' s' w'. serve_queue M G handle q s w = Some (q', s', w') \<and>
    pending_heads M (w_mem w') q' = [] \<and>
    q_next_used_idx q' = q_next_used_idx q + of_nat (length (pending_heads M (w_mem w) q)) \<and>
    w_irq w' = (if pending_heads M (w_mem w) q = [] then w_irq w else fst (trigger_queue G (w_irq w)))"
  using serve_completes_loop [OF assms, of s False] by (auto simp: serve_queue_def)

end

subsection \<open>Servers that only read\<close>

text \<open>
  A transmit queue: the handler reads the driver's buffers and changes no guest memory. What
  such a loop does to the device's own state is then a fold over the chains that were
  pending when it started, provided no buffer lies in the used ring.
\<close>

definition pending_chains :: "'m guest_memory_ops \<Rightarrow> 'm \<Rightarrow> queue \<Rightarrow> descriptor list list" where
  "pending_chains M m q =
     map (\<lambda>e. case e of Inl _ \<Rightarrow> [] | Inr h \<Rightarrow> (case collect M m (chain_at q h) of Inl _ \<Rightarrow> [] | Inr ds \<Rightarrow> ds))
       (pending_heads M m q)"

fun serve_chains :: "('s, 'm) chain_handler \<Rightarrow> 'm \<Rightarrow> 's \<Rightarrow> descriptor list list \<Rightarrow> 's \<times> nat" where
  "serve_chains handle m s [] = (s, 0)"
| "serve_chains handle m s (ds # dss) =
     (case handle s m (Inr ds) of
        ((s1, _), v) \<Rightarrow>
          (case serve_chains handle m s1 dss of (s2, k) \<Rightarrow> (s2, if v = Skip then k else Suc k)))"

definition sources_safe :: "'m guest_memory_ops \<Rightarrow> 'm \<Rightarrow> queue \<Rightarrow> bool" where
  "sources_safe M m q \<longleftrightarrow>
     list_all (\<lambda>i. case read_descriptor M m (q_desc_table_addr q) (of_nat i) of
         Inl _ \<Rightarrow> True
       | Inr d \<Rightarrow> unat (d_addr d) + unat (d_len d) \<le> 2 ^ 64 \<and>
           desc_disjoint d (q_used_ring_addr q) (4 + 8 * unat (q_size q)))
       [0..<unat (q_size q)]"

text \<open>Every access inside the buffers of a chain has the same result in both memories.\<close>

definition sources_same :: "'m guest_memory_ops \<Rightarrow> 'm \<Rightarrow> 'm \<Rightarrow> descriptor list \<Rightarrow> bool" where
  "sources_same M m m' ds \<longleftrightarrow> (\<forall>d \<in> set ds. unat (d_addr d) + unat (d_len d) \<le> 2 ^ 64 \<and>
     (\<forall>a n. unat (d_addr d) \<le> unat a \<and> unat a + n \<le> unat (d_addr d) + unat (d_len d) \<longrightarrow>
        gm_read M m' a n = gm_read M m a n))"

lemma sources_same_read:
  "sources_same M m m' ds \<Longrightarrow> d \<in> set ds \<Longrightarrow>
    gm_read M m' (d_addr d) (unat (d_len d)) = gm_read M m (d_addr d) (unat (d_len d))"
  by (simp add: sources_same_def)

lemma same_rings_table:
  assumes "same_rings M q m m'" "i \<in> set [0..<unat (q_size q)]"
  shows "read_descriptor M m' (q_desc_table_addr q) (of_nat i) = read_descriptor M m (q_desc_table_addr q) (of_nat i)"
proof -
  have "of_nat i < q_size q"
    using assms(2) unat_lt16 [of "q_size q"]
    by (auto simp: word_less_nat_alt unsigned_of_nat intro: le_less_trans [OF take_bit_nat_less_eq_self])
  with assms(1) show ?thesis by (simp add: same_rings_def)
qed

lemma sources_safe_step:
  assumes "same_rings M q m m'" "queue_config q' = queue_config q"
  shows "sources_safe M m' q' \<longleftrightarrow> sources_safe M m q"
proof -
  have "sources_safe M m' q \<longleftrightarrow> sources_safe M m q"
    unfolding sources_safe_def by (intro list.pred_cong) (simp_all add: same_rings_table [OF assms(1)])
  then show ?thesis by (simp only: sources_safe_def queue_config_eqD [OF assms(2)])
qed

lemma sources_safe_chain:
  assumes "sources_safe M m q" "linked_chain M m (q_desc_table_addr q) (q_size q) h ds"
    "d \<in> set ds"
  shows "unat (d_addr d) + unat (d_len d) \<le> 2 ^ 64 \<and> desc_disjoint d (q_used_ring_addr q) (4 + 8 * unat (q_size q))"
proof -
  obtain k where k: "k < q_size q" "read_descriptor M m (q_desc_table_addr q) k = Inr d"
    using linked_chain_from_table [OF assms(2,3)] by blast
  have "unat k \<in> set [0..<unat (q_size q)]" using k(1) by (simp add: word_less_nat_alt)
  with assms(1) have "case read_descriptor M m (q_desc_table_addr q) (of_nat (unat k)) of
         Inl _ \<Rightarrow> True
       | Inr d \<Rightarrow> unat (d_addr d) + unat (d_len d) \<le> 2 ^ 64 \<and>
           desc_disjoint d (q_used_ring_addr q) (4 + 8 * unat (q_size q))"
    unfolding sources_safe_def list_all_iff by blast
  with k(2) show ?thesis by simp
qed

lemma collect_same_rings:
  assumes "same_rings M q m m'" "queue_config q' = queue_config q"
  shows "collect M m' (chain_at q' h) = Inr ds \<longleftrightarrow> collect M m (chain_at q h) = Inr ds"
  by (simp add: collect_iff queue_config_eqD [OF assms(2)] same_rings_linked [OF assms(1)])

lemma collected_same_rings:
  assumes "same_rings M q m m'" "queue_config q' = queue_config q"
  shows "(case collect M m' (chain_at q' h) of Inl _ \<Rightarrow> [] | Inr ds \<Rightarrow> ds) =
    (case collect M m (chain_at q h) of Inl _ \<Rightarrow> [] | Inr ds \<Rightarrow> ds)"
proof (cases "collect M m (chain_at q h)")
  case (Inr ds)
  then have "collect M m' (chain_at q' h) = Inr ds" using collect_same_rings [OF assms] by blast
  with Inr show ?thesis by simp
next
  case (Inl e)
  then have "collect M m' (chain_at q' h) \<noteq> Inr ds" for ds
    using collect_same_rings [OF assms, of h ds] by simp
  then obtain e' where "collect M m' (chain_at q' h) = Inl e'"
    by (cases "collect M m' (chain_at q' h)") blast+
  with Inl show ?thesis by simp
qed

locale reading_server = guest_memory M
  for M :: "'m guest_memory_ops" +
  fixes handle :: "('s, 'm) chain_handler"
  assumes reads_only: "handle s m r = ((s', m'), v) \<Longrightarrow> m' = m"
    and reads_buffers:
      "sources_same M m m' ds \<Longrightarrow>
        handle s m (Inr ds) = ((s', m), v) \<Longrightarrow> handle s m' (Inr ds) = ((s', m'), v)"
    and persists: "snd (handle s m (Inr ds)) \<noteq> Give_Up"

sublocale reading_server \<subseteq> reads: chain_server M handle
  by unfold_locales (auto dest: reads_only)

context reading_server
begin

lemma serve_chains_cong:
  assumes "\<And>ds. ds \<in> set dss \<Longrightarrow> sources_same M m m' ds"
  shows "serve_chains handle m' s dss = serve_chains handle m s dss"
  using assms
proof (induction dss arbitrary: s)
  case (Cons ds dss)
  obtain s1 m1 v where h: "handle s m (Inr ds) = ((s1, m1), v)" by (metis surj_pair)
  have m1: "m1 = m" using reads_only [OF h] .
  have "handle s m' (Inr ds) = ((s1, m'), v)"
    using reads_buffers [of m m' ds s s1 v] Cons.prems h m1 by auto
  moreover have "serve_chains handle m' s1 dss = serve_chains handle m s1 dss"
    by (rule Cons.IH) (use Cons.prems in auto)
  ultimately show ?case using h by simp
qed simp

lemma serve_body_reads:
  assumes v: "is_valid q" and ok: "chains_ok M m q" and used: "used_ring_ok M m q"
    and idx: "avail_idx M m q = Inr d" and pend: "pending_chains M m q = ds # dss"
    and h: "handle s m (Inr ds) = ((s1, m1), v')"
  shows "\<exists>q' m'. serve_body M handle (q, m, s, c) = Inr (q', m', s1, c \<or> v' \<noteq> Skip) \<and>
    q_next_used_idx q' = q_next_used_idx q + (if v' = Skip then 0 else 1) \<and>
    (\<forall>a k. used_ring_fits q \<longrightarrow> disjoint_ranges (q_used_ring_addr q) (4 + 8 * unat (q_size q)) a k \<longrightarrow>
      gm_read M m' a k = gm_read M m a k)"
proof -
  let ?q1 = "q\<lparr>q_next_avail_idx := q_next_avail_idx q + 1\<rparr>"
  obtain hd rest where ph: "pending_heads M m q = Inr hd # rest"
    and hd: "hd < q_size q" "collect M m (chain_at q hd) = Inr ds"
    using ok pend by (cases "pending_heads M m q") (auto simp: pending_chains_def chains_ok_def split: sum.splits)
  have pop: "pop_avail M m q = (?q1, Inr (Some (chain_at q hd)))"
    using pop_avail_fifo_aux [OF v idx] ph hd(1) by simp
  have m1: "m1 = m" using reads_only [OF h] .
  have pos: "0 < q_size q" using v by (simp add: is_valid_def)
  have "used_ring_ok M m ?q1" using used by (simp add: used_ring_ok_def used_elem_addr_def)
  then obtain x y z where "used_idx M m ?q1 = Inr x"
    "used_elem M m ?q1 (q_next_used_idx ?q1) = (Inr y, Inr z)"
    by (rule used_ring_okE [where k = "q_next_used_idx ?q1"]) (simp add: pos)
  moreover have "is_valid ?q1" using v by (simp add: is_valid_def)
  ultimately have push: "\<exists>m'. push_used M m ?q1 hd w =
      ((m', ?q1\<lparr>q_next_used_idx := q_next_used_idx ?q1 + 1\<rparr>), Inr ())" for w
    using push_used_succeeds by blast
  have fits: "used_ring_fits ?q1 = used_ring_fits q" by (simp add: used_ring_fits_def)
  note other = push_used_any(2) [where q = ?q1, unfolded fits]
  show ?thesis
  proof (cases v')
    case Give_Up
    with persists [of s m ds] h show ?thesis by simp
  next
    case Skip
    then have "serve_body M handle (q, m, s, c) = Inr (?q1, m, s1, c)"
      using pop hd(2) h m1 by (simp add: serve_body_def)
    with Skip show ?thesis by auto
  next
    case (Reply w)
    obtain m' where p: "push_used M m ?q1 hd w = ((m', ?q1\<lparr>q_next_used_idx := q_next_used_idx ?q1 + 1\<rparr>), Inr ())"
      using push by blast
    then have "serve_body M handle (q, m, s, c) = Inr (?q1\<lparr>q_next_used_idx := q_next_used_idx ?q1 + 1\<rparr>, m', s1, True)"
      using pop hd(2) h m1 Reply by (simp add: serve_body_def chain_at_def)
    with Reply other [OF p] show ?thesis by auto
  next
    case (Reply_Anyway w)
    obtain m' where p: "push_used M m ?q1 hd w = ((m', ?q1\<lparr>q_next_used_idx := q_next_used_idx ?q1 + 1\<rparr>), Inr ())"
      using push by blast
    then have "serve_body M handle (q, m, s, c) = Inr (?q1\<lparr>q_next_used_idx := q_next_used_idx ?q1 + 1\<rparr>, m', s1, True)"
      using pop hd(2) h m1 Reply_Anyway by (simp add: serve_body_def chain_at_def)
    with Reply_Anyway other [OF p] show ?thesis by auto
  qed
qed

lemma serve_reads_loop:
  assumes "is_valid q" "rings_fit q" "buffers_safe M m q" "chains_ok M m q" "used_ring_ok M m q"
    and "sources_safe M m q" "avail_idx M m q = Inr d"
    and "serve_chains handle m s (pending_chains M m q) = (s', k)"
  shows "\<exists>q' m'. break_loop (serve_body M handle) (q, m, s, c) = Some (q', m', s', c \<or> 0 < k) \<and>
    pending_heads M m' q' = [] \<and> q_next_used_idx q' = q_next_used_idx q + of_nat k"
  using assms
proof (induction "length (pending_heads M m q)" arbitrary: q m s c k)
  case 0
  then have "pop_avail M m q = (q, Inr None)"
    using pop_avail_fifo_aux [OF "0.prems"(1,7)] by simp
  then have "serve_body M handle (q, m, s, c) = Inl (q, m, s, c)" by (simp add: serve_body_def)
  with 0 show ?case by (simp add: break_loop.simps pending_chains_def)
next
  case (Suc n)
  then obtain e es where ph: "pending_heads M m q = e # es" by (cases "pending_heads M m q") auto
  then obtain ds dss where pc: "pending_chains M m q = ds # dss" by (simp add: pending_chains_def)
  obtain s1 m1' v where h: "handle s m (Inr ds) = ((s1, m1'), v)" by (metis surj_pair)
  obtain q1 m1 where body: "serve_body M handle (q, m, s, c) = Inr (q1, m1, s1, c \<or> v \<noteq> Skip)"
    and used1: "q_next_used_idx q1 = q_next_used_idx q + (if v = Skip then 0 else 1)"
    and other: "\<And>a k. used_ring_fits q \<Longrightarrow> disjoint_ranges (q_used_ring_addr q) (4 + 8 * unat (q_size q)) a k \<Longrightarrow>
      gm_read M m1 a k = gm_read M m a k"
    using serve_body_reads [OF Suc.prems(1,4,5,7) pc h] by blast
  note step = reads.serve_body_step [OF Suc.prems(2,3) body]
  obtain hd where pend: "pending_heads M m q = hd # pending_heads M m1 q1" using step(3) by blast
  have dss: "pending_chains M m1 q1 = dss"
  proof -
    have "dss = map (\<lambda>e. case e of Inl _ \<Rightarrow> [] | Inr h \<Rightarrow> (case collect M m (chain_at q h) of Inl _ \<Rightarrow> [] | Inr ds \<Rightarrow> ds))
        (pending_heads M m1 q1)" using pc pend by (simp add: pending_chains_def)
    then show ?thesis by (simp only: pending_chains_def collected_same_rings [OF step(1,2)])
  qed
  have same: "sources_same M m m1 xs" if xs: "xs \<in> set dss" for xs
    unfolding sources_same_def
  proof (intro ballI conjI allI impI)
    fix x assume x: "x \<in> set xs"
    have "xs \<in> set (pending_chains M m q)" using xs pc by simp
    with x obtain h where "collect M m (chain_at q h) = Inr xs"
      unfolding pending_chains_def by (auto split: sum.splits)
    then have "linked_chain M m (q_desc_table_addr q) (q_size q) h xs" by (simp add: collect_iff)
    note safe = sources_safe_chain [OF Suc.prems(6) this x]
    show "unat (d_addr x) + unat (d_len x) \<le> 2 ^ 64" using safe by blast
    fix a :: u64 and n assume "unat (d_addr x) \<le> unat a \<and> unat a + n \<le> unat (d_addr x) + unat (d_len x)"
    with safe have "disjoint_ranges (q_used_ring_addr q) (4 + 8 * unat (q_size q)) a n"
      by (auto simp: desc_disjoint_def disjoint_ranges_def)
    then show "gm_read M m1 a n = gm_read M m a n" using other Suc.prems(2) by (simp add: rings_fit_def)
  qed
  obtain k1 where k1: "serve_chains handle m s1 dss = (s', k1)" "k = (if v = Skip then k1 else Suc k1)"
    using Suc.prems(8) pc h by (auto split: prod.splits)
  have "serve_chains handle m1 s1 (pending_chains M m1 q1) = (s', k1)"
    using serve_chains_cong [of dss m m1 s1] same k1(1) by (simp add: dss)
  moreover have "used_ring_ok M m1 q1"
    using Suc.prems(5) by (simp add: used_ring_ok_def used_elem_addr_def step(4) queue_config_eqD [OF step(2)])
  moreover have "avail_idx M m1 q1 = Inr d"
    using step(1) Suc.prems(7) by (simp add: same_rings_def avail_idx_def queue_config_eqD [OF step(2)])
  moreover have "is_valid q1" "rings_fit q1" "buffers_safe M m1 q1" "chains_ok M m1 q1" "sources_safe M m1 q1"
    using Suc.prems is_valid_config [OF step(2)] rings_fit_config [OF step(2)]
      buffers_safe_config [OF step(2), of M m1] same_rings_buffers [OF step(1)]
      chains_ok_step [OF step(1,2) pend] sources_safe_step [OF step(1,2)] by simp_all
  moreover have "n = length (pending_heads M m1 q1)" using Suc.hyps(2) pend by simp
  ultimately have "\<exists>q' m'. break_loop (serve_body M handle) (q1, m1, s1, c \<or> v \<noteq> Skip) =
      Some (q', m', s', (c \<or> v \<noteq> Skip) \<or> 0 < k1) \<and>
    pending_heads M m' q' = [] \<and> q_next_used_idx q' = q_next_used_idx q1 + of_nat k1"
    by (intro Suc.hyps(1)) assumption+
  then obtain q' m' where
    "break_loop (serve_body M handle) (q1, m1, s1, c \<or> v \<noteq> Skip) = Some (q', m', s', (c \<or> v \<noteq> Skip) \<or> 0 < k1)"
    "pending_heads M m' q' = []" "q_next_used_idx q' = q_next_used_idx q1 + of_nat k1"
    by blast
  moreover have "(c \<or> v \<noteq> Skip) \<or> 0 < k1 \<longleftrightarrow> c \<or> 0 < k" using k1(2) by simp
  moreover have "q_next_used_idx q1 + of_nat k1 = q_next_used_idx q + of_nat k"
    using used1 k1(2) by (simp add: add.assoc)
  ultimately show ?case
    by (simp only: break_loop.simps [of _ "(q, m, s, c)"] body sum.case) blast
qed

lemma serve_queue_reads:
  assumes "is_valid q" "rings_fit q" "buffers_safe M (w_mem w) q" "chains_ok M (w_mem w) q" "used_ring_ok M (w_mem w) q"
    and "sources_safe M (w_mem w) q" "avail_idx M (w_mem w) q = Inr d"
    and "serve_chains handle (w_mem w) s (pending_chains M (w_mem w) q) = (s', k)"
  shows "\<exists>q' w'. serve_queue M G handle q s w = Some (q', s', w') \<and>
    pending_heads M (w_mem w') q' = [] \<and> q_next_used_idx q' = q_next_used_idx q + of_nat k \<and>
    w_irq w' = (if k = 0 then w_irq w else fst (trigger_queue G (w_irq w)))"
  using serve_reads_loop [OF assms, of False] by (auto simp: serve_queue_def)

end

end
