(* ===== verification/Device_Core.thy ===== *)
theory Device_Core
  imports Queue_Service
begin

text \<open>
  What the frontends of \<open>src/crates/virtio/src/devices/\<close> other than the block device share:
  the feature words, the queues and the activation state of the device structs, and their
  identical implementations of the \<open>VirtioDevice\<close> methods. A device is this record extended
  with fields of its own.

  The \<open>ActiveState\<close> of a device holds guest memory and the interrupt line once activated;
  they are the \<open>virtio_world\<close> here, and \<open>vc_attached\<close> says whether the device has been given
  it. \<open>&mut self.queues[i]\<close> panics on an index out of range: the result is \<open>None\<close> then, as
  for a loop that does not return.
\<close>

subsection \<open>The common fields\<close>

record virtio_core =
  vc_avail :: u64
  vc_acked :: u64
  vc_queues :: "queue list"
  vc_attached :: bool
  vc_activated :: bool

definition core_activate ::
  "'z virtio_core_scheme \<Rightarrow> 'z virtio_core_scheme \<times> (activate_error + unit)" where
  "core_activate self = (self\<lparr>vc_attached := True, vc_activated := True\<rparr>, Inr ())"

definition core_device_ops ::
  "virtio_device_type \<Rightarrow> ('z virtio_core_scheme \<Rightarrow> u64 \<Rightarrow> bytes \<Rightarrow> bytes) \<Rightarrow>
   ('z virtio_core_scheme \<Rightarrow> ('m, 'g) virtio_world \<Rightarrow> u16 \<Rightarrow> ('z virtio_core_scheme \<times> ('m, 'g) virtio_world) option)
    \<Rightarrow> ('z virtio_core_scheme, 'm, 'g) virtio_device_ops" where
  "core_device_ops ty read_config process =
     \<lparr>vd_device_type = (\<lambda>_. ty),
      vd_avail_features = vc_avail,
      vd_acked_features = vc_acked,
      vd_set_acked_features = (\<lambda>self v. self\<lparr>vc_acked := v\<rparr>),
      vd_queues = vc_queues,
      vd_set_queues = (\<lambda>self qs. self\<lparr>vc_queues := qs\<rparr>),
      vd_read_config = read_config,
      vd_write_config = (\<lambda>self _ _. self),
      vd_activate = (\<lambda>self _. core_activate self),
      vd_is_activated = vc_activated,
      vd_process_queue = process\<rparr>"

text \<open>\<open>full.get(off + i).copied().unwrap_or(0)\<close> for every byte of the caller's buffer.\<close>

definition config_window :: "bytes \<Rightarrow> u64 \<Rightarrow> bytes \<Rightarrow> bytes" where
  "config_window full offset data =
     map (\<lambda>i. if unat offset + i < length full then full ! (unat offset + i) else 0) [0..<length data]"

lemma length_config_window [simp]: "length (config_window full off data) = length data"
  by (simp add: config_window_def Let_def)

definition zero_config :: "'d \<Rightarrow> u64 \<Rightarrow> bytes \<Rightarrow> bytes" where
  "zero_config self offset data = replicate (length data) 0"

text \<open>
  The frame around every drain: nothing happens before activation; otherwise queue \<open>i\<close> is
  served with the part of the device's state the handler works on.
\<close>

definition drain_queue ::
  "'m guest_memory_ops \<Rightarrow> 'g gic_ops \<Rightarrow> ('s, 'm) chain_handler \<Rightarrow> ('z virtio_core_scheme \<Rightarrow> 's)
    \<Rightarrow> ('s \<Rightarrow> 'z virtio_core_scheme \<Rightarrow> 'z virtio_core_scheme) \<Rightarrow> nat \<Rightarrow> 'z virtio_core_scheme
    \<Rightarrow> ('m, 'g) virtio_world \<Rightarrow> ('z virtio_core_scheme \<times> ('m, 'g) virtio_world) option" where
  "drain_queue M G handle get_state put_state i self w =
     (if \<not> vc_attached self then Some (self, w)
      else if i \<ge> length (vc_queues self) then None
      else case serve_queue M G handle (vc_queues self ! i) (get_state self) w of
        None \<Rightarrow> None
      | Some (q, s, w') \<Rightarrow> Some (put_state s (self\<lparr>vc_queues := (vc_queues self)[i := q]\<rparr>), w'))"

subsection \<open>The contract of the trait\<close>

text \<open>What the frames of the devices keep.\<close>

definition core_same :: "'z virtio_core_scheme \<Rightarrow> 'z virtio_core_scheme \<Rightarrow> bool" where
  "core_same d d' \<longleftrightarrow>
     vc_avail d' = vc_avail d \<and> vc_acked d' = vc_acked d \<and> vc_attached d' = vc_attached d \<and>
     vc_activated d' = vc_activated d \<and> map queue_config (vc_queues d') = map queue_config (vc_queues d)"

lemma core_same_refl [simp]: "core_same d d"
  by (simp add: core_same_def)

lemma core_same_trans: "core_same d d1 \<Longrightarrow> core_same d1 d2 \<Longrightarrow> core_same d d2"
  by (simp add: core_same_def)

lemma core_same_queue:
  assumes "queue_config q = queue_config (vc_queues d ! i)" "\<And>d. core_same d (put d)"
  shows "core_same d (put (d\<lparr>vc_queues := (vc_queues d)[i := q]\<rparr>))"
proof -
  have "map queue_config ((vc_queues d)[i := q]) = map queue_config (vc_queues d)"
    using assms(1) by (metis list_update_id map_update)
  then have "core_same d (d\<lparr>vc_queues := (vc_queues d)[i := q]\<rparr>)" by (simp add: core_same_def)
  then show ?thesis using assms(2) core_same_trans by blast
qed

lemma drain_queue_same:
  assumes "drain_queue M G handle get_state put_state i d w = Some (d', w')" "\<And>s d. core_same d (put_state s d)"
  shows "core_same d d'"
proof (cases "vc_attached d")
  case True
  with assms(1) obtain q s where r: "serve_queue M G handle (vc_queues d ! i) (get_state d) w = Some (q, s, w')"
    and d': "d' = put_state s (d\<lparr>vc_queues := (vc_queues d)[i := q]\<rparr>)"
    by (auto simp: drain_queue_def split: if_splits option.splits)
  show ?thesis unfolding d' by (rule core_same_queue [OF serve_queue_config [OF r] assms(2)])
qed (use assms(1) in \<open>simp add: drain_queue_def\<close>)

lemma core_device_ops_virtio:
  assumes "\<And>d off data. length (read_config d off data) = length data"
    and "\<And>d w i d' w'. process d w i = Some (d', w') \<Longrightarrow> core_same d d'"
  shows "virtio_device (core_device_ops ty read_config process)"
  using assms(1) assms(2) [unfolded core_same_def]
  by unfold_locales (auto simp: core_device_ops_def core_activate_def)

end
