(* ===== verification/Block_Backend.thy ===== *)
theory Block_Backend
  imports Guest_Memory
begin

text \<open>
  Storage under the block device, the first half of \<open>src/crates/virtio/src/devices/block.rs\<close>:
  the \<open>BlockBackend\<close> trait as a dictionary, the mutex-guarded \<open>SyncFileBackend\<close>, the
  positioned-I/O \<open>AsyncFileBackend\<close> and the token-bucket \<open>RateLimitedBackend\<close>. The host file
  of the standard library is modelled by its contents, its cursor and a schedule of host
  faults, so that every error path of the callers is reachable.

  The locale \<open>block_backend\<close> is the contract of the trait over an abstract disk; all three
  backends satisfy it. The rate limiter's accounting bounds the bytes it lets through.
\<close>

subsection \<open>Host files\<close>

datatype io_error = UnexpectedEof | PermissionDenied | InvalidInput | OsError | IoOther

text \<open>
  A scheduled fault \<open>Some k\<close> makes the next transfer fail after \<open>k\<close> bytes have moved.
\<close>

record host_file =
  hf_content :: bytes
  hf_pos :: nat
  hf_writable :: bool
  hf_faults :: "nat option list"

definition next_fault :: "host_file \<Rightarrow> host_file \<times> nat option" where
  "next_fault f =
     (case hf_faults f of [] \<Rightarrow> (f, None) | x # xs \<Rightarrow> (f\<lparr>hf_faults := xs\<rparr>, x))"

text \<open>Writing beyond the end fills the gap with zeros; writing nothing changes nothing.\<close>

definition put_at :: "nat \<Rightarrow> bytes \<Rightarrow> bytes \<Rightarrow> bytes" where
  "put_at off bs xs =
     (if bs = [] then xs
      else take off xs @ replicate (off - length xs) 0 @ bs @ drop (off + length bs) xs)"

definition seek_start :: "host_file \<Rightarrow> u64 \<Rightarrow> host_file \<times> (io_error + unit)" where
  "seek_start f off =
     (if off \<ge> 0x8000000000000000 then (f, Inl InvalidInput) else (f\<lparr>hf_pos := unat off\<rparr>, Inr ()))"

definition read_exact :: "host_file \<Rightarrow> nat \<Rightarrow> host_file \<times> (io_error + bytes)" where
  "read_exact f n =
     (if n = 0 then (f, Inr [])
      else case next_fault f of
        (f1, Some _) \<Rightarrow> (f1, Inl OsError)
      | (f1, None) \<Rightarrow>
          if hf_pos f + n \<le> length (hf_content f)
          then (f1\<lparr>hf_pos := hf_pos f + n\<rparr>, Inr (slice (hf_pos f) n (hf_content f)))
          else (f1\<lparr>hf_pos := max (hf_pos f) (length (hf_content f))\<rparr>, Inl UnexpectedEof))"

definition write_all :: "host_file \<Rightarrow> bytes \<Rightarrow> host_file \<times> (io_error + unit)" where
  "write_all f bs =
     (if bs = [] then (f, Inr ())
      else if \<not> hf_writable f then (f, Inl OsError)
      else case next_fault f of
        (f1, Some k) \<Rightarrow>
          (f1\<lparr>hf_content := put_at (hf_pos f) (take k bs) (hf_content f),
             hf_pos := hf_pos f + min k (length bs)\<rparr>, Inl OsError)
      | (f1, None) \<Rightarrow>
          (f1\<lparr>hf_content := put_at (hf_pos f) bs (hf_content f), hf_pos := hf_pos f + length bs\<rparr>,
           Inr ()))"

definition sync_data :: "host_file \<Rightarrow> host_file \<times> (io_error + unit)" where
  "sync_data f =
     (case next_fault f of (f1, Some _) \<Rightarrow> (f1, Inl OsError) | (f1, None) \<Rightarrow> (f1, Inr ()))"

text \<open>The positioned forms (\<open>pread\<close> and \<open>pwrite\<close> loops) leave the cursor alone.\<close>

definition read_exact_at :: "host_file \<Rightarrow> nat \<Rightarrow> u64 \<Rightarrow> host_file \<times> (io_error + bytes)" where
  "read_exact_at f n off =
     (if n = 0 then (f, Inr [])
      else if off \<ge> 0x8000000000000000 then (f, Inl InvalidInput)
      else let (f1, r) = read_exact (f\<lparr>hf_pos := unat off\<rparr>) n in (f1\<lparr>hf_pos := hf_pos f\<rparr>, r))"

definition write_all_at :: "host_file \<Rightarrow> bytes \<Rightarrow> u64 \<Rightarrow> host_file \<times> (io_error + unit)" where
  "write_all_at f bs off =
     (if bs = [] then (f, Inr ())
      else if off \<ge> 0x8000000000000000 then (f, Inl InvalidInput)
      else let (f1, r) = write_all (f\<lparr>hf_pos := unat off\<rparr>) bs in (f1\<lparr>hf_pos := hf_pos f\<rparr>, r))"

subsection \<open>The trait\<close>

record 'b block_backend_ops =
  bb_size_bytes :: "'b \<Rightarrow> u64"
  bb_read_at :: "'b \<Rightarrow> u64 \<Rightarrow> nat \<Rightarrow> 'b \<times> (io_error + bytes)"
  bb_write_at :: "'b \<Rightarrow> u64 \<Rightarrow> bytes \<Rightarrow> 'b \<times> (io_error + unit)"
  bb_flush :: "'b \<Rightarrow> 'b \<times> (io_error + unit)"
  bb_read_only :: "'b \<Rightarrow> bool"

subsection \<open>\<open>SyncFileBackend\<close>\<close>

record sync_file =
  sf_file :: host_file
  sf_size_bytes :: u64
  sf_read_only :: bool

text \<open>\<open>open\<close> of a path whose file has the given contents; \<open>None\<close> is a path that cannot be opened.\<close>

definition sync_open :: "bytes option \<Rightarrow> nat option list \<Rightarrow> bool \<Rightarrow> io_error + sync_file" where
  "sync_open path faults read_only =
     (case path of
        None \<Rightarrow> Inl OsError
      | Some content \<Rightarrow>
          Inr \<lparr>sf_file = \<lparr>hf_content = content, hf_pos = 0, hf_writable = (\<not> read_only), hf_faults = faults\<rparr>,
               sf_size_bytes = of_nat (length content), sf_read_only = read_only\<rparr>)"

definition sync_read_at :: "sync_file \<Rightarrow> u64 \<Rightarrow> nat \<Rightarrow> sync_file \<times> (io_error + bytes)" where
  "sync_read_at self byte_offset n =
     (case seek_start (sf_file self) byte_offset of
        (f, Inl e) \<Rightarrow> (self\<lparr>sf_file := f\<rparr>, Inl e)
      | (f, Inr _) \<Rightarrow> let (f', r) = read_exact f n in (self\<lparr>sf_file := f'\<rparr>, r))"

definition sync_write_at :: "sync_file \<Rightarrow> u64 \<Rightarrow> bytes \<Rightarrow> sync_file \<times> (io_error + unit)" where
  "sync_write_at self byte_offset buf =
     (if sf_read_only self then (self, Inl PermissionDenied)
      else case seek_start (sf_file self) byte_offset of
        (f, Inl e) \<Rightarrow> (self\<lparr>sf_file := f\<rparr>, Inl e)
      | (f, Inr _) \<Rightarrow> let (f', r) = write_all f buf in (self\<lparr>sf_file := f'\<rparr>, r))"

definition sync_flush :: "sync_file \<Rightarrow> sync_file \<times> (io_error + unit)" where
  "sync_flush self = (let (f, r) = sync_data (sf_file self) in (self\<lparr>sf_file := f\<rparr>, r))"

definition sync_file_backend :: "sync_file block_backend_ops" where
  "sync_file_backend =
     \<lparr>bb_size_bytes = sf_size_bytes, bb_read_at = sync_read_at, bb_write_at = sync_write_at,
      bb_flush = sync_flush, bb_read_only = sf_read_only\<rparr>"

subsection \<open>\<open>AsyncFileBackend\<close>\<close>

record async_file =
  af_file :: host_file
  af_size_bytes :: u64
  af_read_only :: bool

definition async_from_file :: "host_file \<Rightarrow> bool \<Rightarrow> async_file" where
  "async_from_file file read_only =
     \<lparr>af_file = file, af_size_bytes = of_nat (length (hf_content file)), af_read_only = read_only\<rparr>"

definition async_open :: "bytes option \<Rightarrow> nat option list \<Rightarrow> bool \<Rightarrow> io_error + async_file" where
  "async_open path faults read_only =
     (case path of
        None \<Rightarrow> Inl OsError
      | Some content \<Rightarrow>
          Inr (async_from_file
            \<lparr>hf_content = content, hf_pos = 0, hf_writable = (\<not> read_only), hf_faults = faults\<rparr> read_only))"

definition async_read_at :: "async_file \<Rightarrow> u64 \<Rightarrow> nat \<Rightarrow> async_file \<times> (io_error + bytes)" where
  "async_read_at self byte_offset n =
     (let (f, r) = read_exact_at (af_file self) n byte_offset in (self\<lparr>af_file := f\<rparr>, r))"

definition async_write_at :: "async_file \<Rightarrow> u64 \<Rightarrow> bytes \<Rightarrow> async_file \<times> (io_error + unit)" where
  "async_write_at self byte_offset buf =
     (if af_read_only self then (self, Inl PermissionDenied)
      else let (f, r) = write_all_at (af_file self) buf byte_offset in (self\<lparr>af_file := f\<rparr>, r))"

definition async_flush :: "async_file \<Rightarrow> async_file \<times> (io_error + unit)" where
  "async_flush self = (let (f, r) = sync_data (af_file self) in (self\<lparr>af_file := f\<rparr>, r))"

definition async_file_backend :: "async_file block_backend_ops" where
  "async_file_backend =
     \<lparr>bb_size_bytes = af_size_bytes, bb_read_at = async_read_at, bb_write_at = async_write_at,
      bb_flush = async_flush, bb_read_only = af_read_only\<rparr>"

subsection \<open>The token bucket\<close>

record rate_limit =
  rl_bytes_per_sec :: u64
  rl_burst_bytes :: u64

definition rate_unlimited :: rate_limit where
  "rate_unlimited = \<lparr>rl_bytes_per_sec = - 1, rl_burst_bytes = - 1\<rparr>"

definition rate_steady :: "u64 \<Rightarrow> rate_limit" where
  "rate_steady bytes_per_sec =
     \<lparr>rl_bytes_per_sec = bytes_per_sec, rl_burst_bytes = bytes_per_sec div 10\<rparr>"

text \<open>
  The monotonic clock in nanoseconds. Every reading of it may come later than the last by the
  next delay of the schedule; sleeping moves it forward.
\<close>

record clock =
  ck_now :: nat
  ck_delays :: "nat list"

definition instant_now :: "clock \<Rightarrow> clock \<times> nat" where
  "instant_now c =
     (case ck_delays c of
        [] \<Rightarrow> (c, ck_now c)
      | d # ds \<Rightarrow> (\<lparr>ck_now = ck_now c + d, ck_delays = ds\<rparr>, ck_now c + d))"

definition thread_sleep :: "clock \<Rightarrow> nat \<Rightarrow> clock" where
  "thread_sleep c nanos = c\<lparr>ck_now := ck_now c + nanos\<rparr>"

record token_bucket =
  tb_tokens :: u64
  tb_last_refill :: nat

definition rate_refill :: "token_bucket \<Rightarrow> rate_limit \<Rightarrow> u64 \<Rightarrow> clock \<Rightarrow> token_bucket \<times> clock" where
  "rate_refill state config ceiling c =
     (if rl_bytes_per_sec config = - 1 then (state\<lparr>tb_tokens := ceiling\<rparr>, c)
      else let (c1, now) = instant_now c;
               elapsed = now - tb_last_refill state;
               earned_u128 = saturating_mul (ucast (rl_bytes_per_sec config) :: u128)
                               (try_from_nat_or_max elapsed) div 1000000000;
               earned = try_from_nat_or_max (unat earned_u128) :: u64
           in (\<lparr>tb_tokens = min (saturating_add (tb_tokens state) earned) ceiling,
                tb_last_refill = now\<rparr>, c1))"

definition rate_acquire :: "token_bucket \<Rightarrow> rate_limit \<Rightarrow> u64 \<Rightarrow> clock \<Rightarrow> token_bucket \<times> clock" where
  "rate_acquire state config n c =
     (if rl_bytes_per_sec config = - 1 then (state, c)
      else let ceiling = max n (rl_burst_bytes config);
               (g, c1) = rate_refill state config ceiling c
           in if tb_tokens g \<ge> n then (g\<lparr>tb_tokens := tb_tokens g - n\<rparr>, c1)
              else let needed = n - tb_tokens g;
                       nanos_to_wait = (ucast needed * 1000000000 :: u128)
                                         div ucast (max (rl_bytes_per_sec config) 1);
                       wait = unat (try_from_nat_or_max (unat nanos_to_wait) :: u64);
                       (g2, c2) = rate_refill g config ceiling (thread_sleep c1 wait)
                   in (g2\<lparr>tb_tokens := saturating_sub (tb_tokens g2) n\<rparr>, c2))"

record 'b rate_limited =
  rb_inner :: 'b
  rb_state :: token_bucket
  rb_config :: rate_limit
  rb_clock :: clock

definition rate_limited_new :: "'b \<Rightarrow> rate_limit \<Rightarrow> clock \<Rightarrow> 'b rate_limited" where
  "rate_limited_new inner config c =
     (let (c1, now) = instant_now c
      in \<lparr>rb_inner = inner,
          rb_state = \<lparr>tb_tokens = rl_burst_bytes config, tb_last_refill = now\<rparr>,
          rb_config = config, rb_clock = c1\<rparr>)"

definition rate_limited_acquire :: "'b rate_limited \<Rightarrow> nat \<Rightarrow> 'b rate_limited" where
  "rate_limited_acquire self len =
     (let (g, c) = rate_acquire (rb_state self) (rb_config self) (try_from_nat_or_max len) (rb_clock self)
      in self\<lparr>rb_state := g, rb_clock := c\<rparr>)"

definition rate_limited_read_at ::
  "'b block_backend_ops \<Rightarrow> 'b rate_limited \<Rightarrow> u64 \<Rightarrow> nat \<Rightarrow> 'b rate_limited \<times> (io_error + bytes)" where
  "rate_limited_read_at B self byte_offset n =
     (let self1 = rate_limited_acquire self n;
          (b, r) = bb_read_at B (rb_inner self1) byte_offset n
      in (self1\<lparr>rb_inner := b\<rparr>, r))"

definition rate_limited_write_at ::
  "'b block_backend_ops \<Rightarrow> 'b rate_limited \<Rightarrow> u64 \<Rightarrow> bytes \<Rightarrow> 'b rate_limited \<times> (io_error + unit)" where
  "rate_limited_write_at B self byte_offset buf =
     (let self1 = rate_limited_acquire self (length buf);
          (b, r) = bb_write_at B (rb_inner self1) byte_offset buf
      in (self1\<lparr>rb_inner := b\<rparr>, r))"

definition rate_limited_flush ::
  "'b block_backend_ops \<Rightarrow> 'b rate_limited \<Rightarrow> 'b rate_limited \<times> (io_error + unit)" where
  "rate_limited_flush B self =
     (let (b, r) = bb_flush B (rb_inner self) in (self\<lparr>rb_inner := b\<rparr>, r))"

definition rate_limited_backend :: "'b block_backend_ops \<Rightarrow> 'b rate_limited block_backend_ops" where
  "rate_limited_backend B =
     \<lparr>bb_size_bytes = (\<lambda>self. bb_size_bytes B (rb_inner self)),
      bb_read_at = rate_limited_read_at B,
      bb_write_at = rate_limited_write_at B,
      bb_flush = rate_limited_flush B,
      bb_read_only = (\<lambda>self. bb_read_only B (rb_inner self))\<rparr>"

subsection \<open>The contract of the trait\<close>

lemma length_put_at:
  "length (put_at off bs xs) = (if bs = [] then length xs else max (length xs) (off + length bs))"
  by (auto simp: put_at_def)

lemma slice_put_at_same [simp]: "slice off (length bs) (put_at off bs xs) = bs"
  by (cases "off \<le> length xs") (auto simp: put_at_def slice_def)

lemma put_at_Nil [simp]: "put_at off [] xs = xs"
  by (simp add: put_at_def)

lemma put_at_append: "put_at (off + length bs) cs (put_at off bs xs) = put_at off (bs @ cs) xs"
proof (cases "bs = [] \<or> cs = []")
  case True
  then show ?thesis by (auto simp: put_at_def)
next
  case False
  then show ?thesis
    by (cases "off \<le> length xs") (auto simp: put_at_def take_drop add.commute add.left_commute)
qed

lemma put_at_overwrite:
  "off + length bs \<le> length xs \<Longrightarrow> put_at off bs xs = overwrite off bs xs"
  by (auto simp: put_at_def overwrite_def)

text \<open>
  Reads return the disk's bytes and write nothing; a successful write puts exactly its bytes;
  a read-only backend refuses every write and keeps its disk; size and mode are fixed.
\<close>

locale block_backend =
  fixes B :: "'b block_backend_ops" and disk :: "'b \<Rightarrow> bytes"
  assumes read_ok:
      "bb_read_at B b off n = (b', Inr bs) \<Longrightarrow>
        length bs = n \<and> bs = slice (unat off) n (disk b) \<and> (n = 0 \<or> unat off + n \<le> length (disk b))"
    and read_disk: "bb_read_at B b off n = (b', r) \<Longrightarrow> disk b' = disk b"
    and write_ok: "bb_write_at B b off bs = (b', Inr ()) \<Longrightarrow> disk b' = put_at (unat off) bs (disk b)"
    and write_read_only:
      "bb_read_only B b \<Longrightarrow> bb_write_at B b off bs = (b', r2) \<Longrightarrow> isl r2 \<and> disk b' = disk b"
    and flush_disk: "bb_flush B b = (b', r2) \<Longrightarrow> disk b' = disk b"
    and read_mode: "bb_read_at B b off n = (b', r) \<Longrightarrow>
        bb_read_only B b' = bb_read_only B b \<and> bb_size_bytes B b' = bb_size_bytes B b"
    and write_mode: "bb_write_at B b off bs = (b', r2) \<Longrightarrow>
        bb_read_only B b' = bb_read_only B b \<and> bb_size_bytes B b' = bb_size_bytes B b"
    and flush_mode: "bb_flush B b = (b', r2) \<Longrightarrow>
        bb_read_only B b' = bb_read_only B b \<and> bb_size_bytes B b' = bb_size_bytes B b"

lemmas host_file_defs =
  next_fault_def seek_start_def read_exact_def write_all_def sync_data_def
  read_exact_at_def write_all_at_def

lemma next_fault_frame:
  "next_fault f = (f1, x) \<Longrightarrow> hf_content f1 = hf_content f \<and> hf_pos f1 = hf_pos f \<and> hf_writable f1 = hf_writable f"
  by (auto simp: next_fault_def split: list.splits)

lemma read_exact_ok:
  "read_exact f n = (f', Inr bs) \<Longrightarrow>
    length bs = n \<and> bs = slice (hf_pos f) n (hf_content f) \<and> (n = 0 \<or> hf_pos f + n \<le> length (hf_content f))"
  by (auto simp: read_exact_def slice_def split: if_splits prod.splits option.splits)

lemma read_exact_content: "read_exact f n = (f', r) \<Longrightarrow> hf_content f' = hf_content f"
  by (auto simp: read_exact_def split: if_splits prod.splits option.splits dest: next_fault_frame)

lemma write_all_ok:
  "write_all f bs = (f', Inr ()) \<Longrightarrow> hf_content f' = put_at (hf_pos f) bs (hf_content f)"
  by (auto simp: write_all_def split: if_splits prod.splits option.splits dest: next_fault_frame)

lemma sync_data_content: "sync_data f = (f', r) \<Longrightarrow> hf_content f' = hf_content f"
  by (auto simp: sync_data_def split: prod.splits option.splits dest: next_fault_frame)

lemma read_exact_at_ok:
  "read_exact_at f n off = (f', Inr bs) \<Longrightarrow>
    length bs = n \<and> bs = slice (unat off) n (hf_content f) \<and> (n = 0 \<or> unat off + n \<le> length (hf_content f))"
  by (auto simp: read_exact_at_def slice_def split: if_splits prod.splits dest: read_exact_ok)

lemma read_exact_at_content: "read_exact_at f n off = (f', r) \<Longrightarrow> hf_content f' = hf_content f"
  by (auto simp: read_exact_at_def split: if_splits prod.splits dest: read_exact_content)

lemma write_all_at_ok:
  "write_all_at f bs off = (f', Inr ()) \<Longrightarrow> hf_content f' = put_at (unat off) bs (hf_content f)"
  by (auto simp: write_all_at_def split: if_splits prod.splits dest: write_all_ok)

lemmas host_file_rules =
  read_exact_content sync_data_content read_exact_at_content write_all_at_ok

interpretation sync: block_backend sync_file_backend "\<lambda>b. hf_content (sf_file b)"
proof (unfold_locales, goal_cases)
  case (1 b off n b' bs)
  then show ?case
    by (auto simp: sync_file_backend_def seek_start_def sync_read_at_def split: prod.splits sum.splits if_splits
        dest!: read_exact_ok)
next
  case (3 b off bs b')
  then show ?case
    by (auto simp: sync_file_backend_def seek_start_def sync_write_at_def split: prod.splits sum.splits if_splits
        dest!: write_all_ok)
qed (auto simp: sync_file_backend_def seek_start_def sync_read_at_def sync_write_at_def sync_flush_def
      split: prod.splits sum.splits if_splits dest!: host_file_rules)

interpretation async: block_backend async_file_backend "\<lambda>b. hf_content (af_file b)"
proof (unfold_locales, goal_cases)
  case (1 b off n b' bs)
  then show ?case
    by (auto simp: async_file_backend_def async_read_at_def split: prod.splits dest!: read_exact_at_ok)
qed (auto simp: async_file_backend_def async_read_at_def async_write_at_def async_flush_def
      split: prod.splits if_splits dest!: host_file_rules)

lemma rate_limited_acquire_frame [simp]:
  "rb_inner (rate_limited_acquire self n) = rb_inner self"
  "rb_config (rate_limited_acquire self n) = rb_config self"
  by (simp_all add: rate_limited_acquire_def split: prod.split)

lemma rate_limited_block_backend:
  assumes "block_backend B disk"
  shows "block_backend (rate_limited_backend B) (\<lambda>b. disk (rb_inner b))"
proof -
  note rules = block_backend.read_ok [OF assms] block_backend.read_disk [OF assms]
    block_backend.write_ok [OF assms] block_backend.write_read_only [OF assms]
    block_backend.flush_disk [OF assms] block_backend.read_mode [OF assms]
    block_backend.write_mode [OF assms] block_backend.flush_mode [OF assms]
  show ?thesis
    by unfold_locales
      (auto simp: rate_limited_backend_def rate_limited_read_at_def rate_limited_write_at_def
        rate_limited_flush_def Let_def split: prod.splits dest: rules)
qed

interpretation limited: block_backend "rate_limited_backend sync_file_backend"
  "\<lambda>b. hf_content (sf_file (rb_inner b))"
  by (rule rate_limited_block_backend) (rule sync.block_backend_axioms)

subsection \<open>The rate limiter's accounting\<close>

text \<open>Bytes and tokens are scaled by \<open>10 ^ 9\<close>, so that time in nanoseconds times the rate is exact.\<close>

abbreviation nanos :: nat where "nanos \<equiv> 1000000000"

lemma instant_now_mono: "instant_now c = (c1, now) \<Longrightarrow> ck_now c \<le> now \<and> ck_now c1 = now"
  by (auto simp: instant_now_def split: list.splits)

lemma unat_u128_from_nat_le: "unat (try_from_nat_or_max n :: u128) \<le> n"
  by (auto simp: try_from_defs unsigned_of_nat unat_max_word take_bit_nat_eq_self split: if_splits)

lemma unat_u64_from_nat_le: "unat (try_from_nat_or_max n :: u64) \<le> n"
  by (simp add: unat_try_from_nat_or_max)

lemma rate_refill_bound:
  assumes "rl_bytes_per_sec config \<noteq> - 1" "rate_refill state config ceiling c = (state', c')"
  shows "nanos * unat (tb_tokens state') \<le>
      nanos * unat (tb_tokens state) + unat (rl_bytes_per_sec config) * (tb_last_refill state' - tb_last_refill state)"
    and "ck_now c \<le> tb_last_refill state'" "ck_now c' = tb_last_refill state'"
    and "tb_tokens state' \<le> ceiling"
proof -
  let ?r = "rl_bytes_per_sec config"
  obtain c1 now where now: "instant_now c = (c1, now)" by (cases "instant_now c")
  let ?el = "now - tb_last_refill state"
  let ?e128 = "saturating_mul (ucast ?r :: u128) (try_from_nat_or_max ?el) div 1000000000"
  have st: "state' = \<lparr>tb_tokens = min (saturating_add (tb_tokens state) (try_from_nat_or_max (unat ?e128))) ceiling,
      tb_last_refill = now\<rparr>" "c' = c1"
    using assms now by (auto simp: rate_refill_def Let_def)
  show "ck_now c \<le> tb_last_refill state'" "ck_now c' = tb_last_refill state'"
    using instant_now_mono [OF now] st by simp_all
  show "tb_tokens state' \<le> ceiling" by (simp add: st)
  have "unat (saturating_mul (ucast ?r :: u128) (try_from_nat_or_max ?el)) \<le> unat ?r * ?el"
    using unat_u128_from_nat_le [of ?el]
    by (auto simp: unat_saturating_mul intro!: min.coboundedI1 mult_le_mono)
  then have "nanos * unat ?e128 \<le> unat ?r * ?el"
    by (simp add: unat_div)
  moreover have "unat (tb_tokens state') \<le> unat (tb_tokens state) + unat ?e128"
    using unat_u64_from_nat_le [of "unat ?e128"]
    by (simp add: st unat_min unat_saturating_add)
  ultimately show "nanos * unat (tb_tokens state') \<le>
      nanos * unat (tb_tokens state) + unat ?r * (tb_last_refill state' - tb_last_refill state)"
    by (simp add: st)
qed

lemma rate_wait_exact:
  fixes needed r :: u64
  assumes "unat needed < 2 ^ 32"
  defines "w \<equiv> unat (try_from_nat_or_max (unat ((ucast needed * 1000000000 :: u128) div ucast (max r 1))) :: u64)"
  shows "nanos * unat needed \<le> max 1 (unat r) * (w + 1)"
proof -
  let ?R = "max 1 (unat r)"
  have R: "unat (ucast (max r 1) :: u128) = ?R"
    by (simp add: max_def word_le_nat_alt)
  have "unat (ucast needed * 1000000000 :: u128) = unat needed * nanos"
    using assms(1) by (subst unat_word_ariths(2)) simp
  then have q: "unat ((ucast needed * 1000000000 :: u128) div ucast (max r 1)) = unat needed * nanos div ?R"
    by (simp only: unat_div R)
  have "unat needed * nanos div ?R \<le> unat needed * nanos" by (rule div_le_dividend)
  also have "unat needed * nanos < 2 ^ 64 - 1" using assms(1) by simp
  finally have "w = unat needed * nanos div ?R"
    unfolding w_def q by (simp add: unat_try_from_nat_or_max)
  moreover have "unat needed * nanos < ?R + ?R * (unat needed * nanos div ?R)"
    by (rule dividend_less_times_div) simp
  ultimately show ?thesis by (simp add: algebra_simps)
qed

lemma rate_acquire_bound:
  assumes lim: "rl_bytes_per_sec config \<noteq> - 1" and n: "unat n < 2 ^ 32"
    and inv: "tb_last_refill state \<le> ck_now c"
    and acq: "rate_acquire state config n c = (state', c')"
  defines "R \<equiv> max 1 (unat (rl_bytes_per_sec config))"
  shows "nanos * (unat n + unat (tb_tokens state')) \<le>
      nanos * unat (tb_tokens state) + R * (tb_last_refill state' - tb_last_refill state) + R"
    and "tb_last_refill state \<le> tb_last_refill state'" "tb_last_refill state' = ck_now c'"
proof -
  let ?ceiling = "max n (rl_burst_bytes config)"
  obtain g c1 where g: "rate_refill state config ?ceiling c = (g, c1)"
    by (cases "rate_refill state config ?ceiling c")
  note b1 = rate_refill_bound [OF lim g]
  let ?d1 = "tb_last_refill g - tb_last_refill state"
  have le1: "tb_last_refill state \<le> tb_last_refill g" using inv b1(2) by simp
  have rR: "unat (rl_bytes_per_sec config) * d \<le> R * d" for d by (simp add: R_def)
  have "nanos * (unat n + unat (tb_tokens state')) \<le>
      nanos * unat (tb_tokens state) + R * (tb_last_refill state' - tb_last_refill state) + R \<and>
    tb_last_refill state \<le> tb_last_refill state' \<and> tb_last_refill state' = ck_now c'"
  proof (cases "n \<le> tb_tokens g")
    case True
    then have st: "state' = g\<lparr>tb_tokens := tb_tokens g - n\<rparr>" "c' = c1"
      using acq lim g by (auto simp: rate_acquire_def Let_def)
    have "unat n + unat (tb_tokens g - n) = unat (tb_tokens g)"
      using True by (simp add: unat_sub word_le_nat_alt)
    moreover have "nanos * unat (tb_tokens g) \<le> nanos * unat (tb_tokens state) + R * ?d1 + R"
      using b1(1) rR [of ?d1] by linarith
    ultimately show ?thesis using b1(3) le1 st by simp
  next
    case False
    let ?w = "unat (try_from_nat_or_max (unat ((ucast (n - tb_tokens g) * 1000000000 :: u128)
      div ucast (max (rl_bytes_per_sec config) 1))) :: u64)"
    obtain g2 c2 where g2: "rate_refill g config ?ceiling (thread_sleep c1 ?w) = (g2, c2)"
      by (cases "rate_refill g config ?ceiling (thread_sleep c1 ?w)")
    have st: "state' = g2\<lparr>tb_tokens := saturating_sub (tb_tokens g2) n\<rparr>" "c' = c2"
      using acq lim g g2 False by (auto simp: rate_acquire_def Let_def)
    note b2 = rate_refill_bound [OF lim g2]
    let ?d2 = "tb_last_refill g2 - tb_last_refill g"
    have need: "unat (n - tb_tokens g) = unat n - unat (tb_tokens g)" "unat (tb_tokens g) < unat n"
      using False by (simp_all add: unat_sub word_le_nat_alt)
    have le2: "tb_last_refill g + ?w \<le> tb_last_refill g2"
      using b1(3) b2(2) by (simp add: thread_sleep_def)
    have "nanos * (unat n - unat (tb_tokens g)) \<le> R * (?w + 1)"
      using rate_wait_exact [of "n - tb_tokens g" "rl_bytes_per_sec config"] n need
      by (simp only: R_def)
    also have "R * ?w \<le> R * ?d2"
      using le2 by (intro mult_le_mono2) linarith
    then have "R * (?w + 1) \<le> R * ?d2 + R" by (simp add: distrib_left)
    finally have paid: "nanos * (unat n - unat (tb_tokens g)) \<le> R * ?d2 + R" .
    have "R * (tb_last_refill g2 - tb_last_refill state) = R * ?d1 + R * ?d2"
      using le1 le2 by (simp flip: distrib_left)
    moreover have "nanos * (unat n + (unat (tb_tokens g2) - unat n)) \<le>
        nanos * unat (tb_tokens state) + R * ?d1 + R * ?d2 + R"
    proof (cases "unat n \<le> unat (tb_tokens g2)")
      case True
      then have "nanos * (unat n + (unat (tb_tokens g2) - unat n)) = nanos * unat (tb_tokens g2)" by simp
      then show ?thesis using b1(1) b2(1) rR [of ?d1] rR [of ?d2] by linarith
    next
      case False
      obtain k where k: "unat n = unat (tb_tokens g) + k"
        using need(2) by (metis le_iff_add less_imp_le)
      have "nanos * k \<le> R * ?d2 + R" using paid by (simp add: k)
      moreover have "nanos * (unat n + (unat (tb_tokens g2) - unat n)) = nanos * unat (tb_tokens g) + nanos * k"
        using False by (simp add: k distrib_left)
      moreover have "nanos * unat (tb_tokens g) \<le> nanos * unat (tb_tokens state) + R * ?d1"
        using b1(1) rR [of ?d1] by linarith
      ultimately show ?thesis by linarith
    qed
    ultimately show ?thesis
      using st b2(3) le1 le2 by (simp add: unat_saturating_sub)
  qed
  then show "nanos * (unat n + unat (tb_tokens state')) \<le>
      nanos * unat (tb_tokens state) + R * (tb_last_refill state' - tb_last_refill state) + R"
    and "tb_last_refill state \<le> tb_last_refill state'" "tb_last_refill state' = ck_now c'"
    by blast+
qed

text \<open>The bucket after a sequence of requests of the given lengths.\<close>

fun acquire_run :: "token_bucket \<Rightarrow> rate_limit \<Rightarrow> u64 list \<Rightarrow> clock \<Rightarrow> token_bucket \<times> clock" where
  "acquire_run state config [] c = (state, c)"
| "acquire_run state config (n # ns) c =
     (let (state', c') = rate_acquire state config n c in acquire_run state' config ns c')"

lemma acquire_run_bound:
  assumes "rl_bytes_per_sec config \<noteq> - 1" "list_all (\<lambda>n. unat n < 2 ^ 32) ns"
    and "tb_last_refill state \<le> ck_now c" "acquire_run state config ns c = (state', c')"
  shows "nanos * (sum_list (map unat ns) + unat (tb_tokens state')) \<le>
      nanos * unat (tb_tokens state) +
      max 1 (unat (rl_bytes_per_sec config)) * (tb_last_refill state' - tb_last_refill state + length ns)
    \<and> tb_last_refill state \<le> tb_last_refill state'"
  using assms(2-4)
proof (induction ns arbitrary: state c)
  case Nil
  then show ?case by simp
next
  case (Cons n ns)
  let ?R = "max 1 (unat (rl_bytes_per_sec config))"
  obtain s1 c1 where a: "rate_acquire state config n c = (s1, c1)"
    by (cases "rate_acquire state config n c")
  have n: "unat n < 2 ^ 32" using Cons.prems(1) by simp
  note b = rate_acquire_bound [OF assms(1) n Cons.prems(2) a]
  have IH: "nanos * (sum_list (map unat ns) + unat (tb_tokens state')) \<le>
      nanos * unat (tb_tokens s1) + ?R * (tb_last_refill state' - tb_last_refill s1 + length ns)"
    "tb_last_refill s1 \<le> tb_last_refill state'"
    using Cons.IH [of s1 c1] Cons.prems a b(3) by auto
  obtain d1 d2 where d: "tb_last_refill s1 = tb_last_refill state + d1"
    "tb_last_refill state' = tb_last_refill s1 + d2"
    using b(2) IH(2) by (metis le_iff_add)
  from b(1) have "nanos * unat n + nanos * unat (tb_tokens s1) \<le> nanos * unat (tb_tokens state) + ?R * d1 + ?R"
    by (simp add: d distrib_left)
  moreover from IH(1) have "nanos * (sum_list (map unat ns) + unat (tb_tokens state')) \<le>
      nanos * unat (tb_tokens s1) + ?R * d2 + ?R * length ns"
    by (simp add: d distrib_left)
  ultimately show ?case by (simp add: d distrib_left)
qed

text \<open>
  C20. The rate limiter holds its budget. However the clock advances between its readings, the
  bytes it lets through in any sequence of requests (each below 4 GiB, as every descriptor
  length is) are at most the burst plus the rate times the time that has passed, up to one
  nanosecond's worth per request for the rounded sleep; a rate of zero acts as one byte per
  second.
\<close>

theorem rate_limiter_budget:
  assumes "rl_bytes_per_sec config \<noteq> - 1" "list_all (\<lambda>n. unat n < 2 ^ 32) ns"
    and "acquire_run (rb_state (rate_limited_new inner config c)) config ns
           (rb_clock (rate_limited_new inner config c)) = (state', c')"
  shows "1000000000 * sum_list (map unat ns) \<le>
    1000000000 * unat (rl_burst_bytes config) +
    max 1 (unat (rl_bytes_per_sec config)) *
      (tb_last_refill state' - tb_last_refill (rb_state (rate_limited_new inner config c)) + length ns)"
proof -
  obtain c1 now where now: "instant_now c = (c1, now)" by (cases "instant_now c")
  have "tb_last_refill (rb_state (rate_limited_new inner config c)) \<le> ck_now (rb_clock (rate_limited_new inner config c))"
    using instant_now_mono [OF now] by (simp add: rate_limited_new_def now)
  note bound = acquire_run_bound [OF assms(1,2) this assms(3), THEN conjunct1]
  have burst: "tb_tokens (rb_state (rate_limited_new inner config c)) = rl_burst_bytes config"
    by (simp add: rate_limited_new_def now)
  show ?thesis by (rule order_trans [OF _ bound [unfolded burst]]) simp
qed

definition demo_limit :: rate_limit where
  "demo_limit = \<lparr>rl_bytes_per_sec = 500000000, rl_burst_bytes = 100\<rparr>"

definition demo_clock :: clock where
  "demo_clock = \<lparr>ck_now = 0, ck_delays = []\<rparr>"

theorem rate_limiter_budget_witness:
  "acquire_run (rb_state (rate_limited_new () demo_limit demo_clock)) demo_limit [100, 1]
      (rb_clock (rate_limited_new () demo_limit demo_clock)) =
    (\<lparr>tb_tokens = 0, tb_last_refill = 2\<rparr>, \<lparr>ck_now = 2, ck_delays = []\<rparr>) \<and>
   (1000000000 * 101 :: nat) \<le> 1000000000 * 100 + 500000000 * (2 + 2)"
proof -
  have run: "acquire_run (rb_state (rate_limited_new () demo_limit demo_clock)) demo_limit [100, 1]
      (rb_clock (rate_limited_new () demo_limit demo_clock)) =
    (\<lparr>tb_tokens = 0, tb_last_refill = 2\<rparr>, \<lparr>ck_now = 2, ck_delays = []\<rparr>)"
    by code_simp
  moreover have "rl_bytes_per_sec demo_limit \<noteq> - 1" by (simp add: demo_limit_def)
  moreover have "list_all (\<lambda>n. unat n < 2 ^ 32) [100, 1 :: u64]" by simp
  ultimately show ?thesis
    using rate_limiter_budget [of demo_limit "[100, 1]" "()" demo_clock
        "\<lparr>tb_tokens = 0, tb_last_refill = 2\<rparr>" "\<lparr>ck_now = 2, ck_delays = []\<rparr>"]
    by (simp add: demo_limit_def demo_clock_def rate_limited_new_def instant_now_def)
qed

end
