(* ===== verification/Block_Device.thy ===== *)
theory Block_Device
  imports Device_Core Block_Backend
begin

text \<open>
  The virtio-block frontend, the second half of \<open>src/crates/virtio/src/devices/block.rs\<close>: the
  configuration space, the handling of one request (read, write, flush, get-id) and the loop
  that drains the request queue, as an instance of the \<open>VirtioDevice\<close> dictionary over any
  guest memory and any backend.

  The loop runs as long as the driver's ring offers heads, and a guest that has the device
  overwrite its own ring can keep it going, so it is a partial function: \<open>None\<close> is a loop
  that does not end. The lemmas show that it ends, and what it has done by then, for rings
  laid out as the virtio specification demands; what reads and writes transfer; and that a
  read-only drive is never changed.
\<close>

unbundle bit_operations_syntax

subsection \<open>Constants and state\<close>

definition SECTOR_SIZE :: u64 where "SECTOR_SIZE = 512"

definition REQ_TYPE_IN :: u32 where "REQ_TYPE_IN = 0"

definition REQ_TYPE_OUT :: u32 where "REQ_TYPE_OUT = 1"

definition REQ_TYPE_FLUSH :: u32 where "REQ_TYPE_FLUSH = 4"

definition REQ_TYPE_GET_ID :: u32 where "REQ_TYPE_GET_ID = 8"

definition STATUS_OK :: u8 where "STATUS_OK = 0"

definition STATUS_IOERR :: u8 where "STATUS_IOERR = 1"

definition STATUS_UNSUPP :: u8 where "STATUS_UNSUPP = 2"

definition F_RO :: u64 where "F_RO = push_bit 5 1"

definition F_BLK_SIZE :: u64 where "F_BLK_SIZE = push_bit 6 1"

definition F_FLUSH :: u64 where "F_FLUSH = push_bit 9 1"

definition BLOCK_QUEUE_MAX_SIZE :: u16 where "BLOCK_QUEUE_MAX_SIZE = 256"

lemmas block_consts =
  SECTOR_SIZE_def REQ_TYPE_IN_def REQ_TYPE_OUT_def REQ_TYPE_FLUSH_def REQ_TYPE_GET_ID_def
  STATUS_OK_def STATUS_IOERR_def STATUS_UNSUPP_def BLOCK_QUEUE_MAX_SIZE_def

datatype cache_type = CacheUnsafe | CacheWriteback

record block_config =
  bc_drive_id :: bytes
  bc_is_root_device :: bool
  bc_is_read_only :: bool
  bc_cache_type :: cache_type

text \<open>\<open>ActiveState\<close>: whether the memory and interrupt handles are present, and the flag.\<close>

record 'b block_device =
  bd_avail :: u64
  bd_acked :: u64
  bd_queues :: "queue list"
  bd_config :: block_config
  bd_backend :: 'b
  bd_attached :: bool
  bd_activated :: bool

definition block_device_new :: "'b block_backend_ops \<Rightarrow> block_config \<Rightarrow> 'b \<Rightarrow> 'b block_device" where
  "block_device_new B config backend =
     (let avail = F_BLK_SIZE;
          avail = (if bc_is_read_only config \<or> bb_read_only B backend then avail OR F_RO else avail);
          avail = (if bc_cache_type config = CacheWriteback then avail OR F_FLUSH else avail)
      in \<lparr>bd_avail = avail, bd_acked = 0, bd_queues = [queue_new BLOCK_QUEUE_MAX_SIZE],
          bd_config = config, bd_backend = backend, bd_attached = False, bd_activated = False\<rparr>)"

definition capacity_sectors :: "'b block_backend_ops \<Rightarrow> 'b block_device \<Rightarrow> u64" where
  "capacity_sectors B self = bb_size_bytes B (bd_backend self) div SECTOR_SIZE"

subsection \<open>One request\<close>

fun do_read_loop ::
  "'b block_backend_ops \<Rightarrow> 'm guest_memory_ops \<Rightarrow> descriptor list \<Rightarrow> 'b \<Rightarrow> 'm \<Rightarrow> u64 \<Rightarrow> u32
    \<Rightarrow> ('b \<times> 'm) \<times> (io_error + u32)" where
  "do_read_loop B M [] b m byte_off tot = ((b, m), Inr tot)"
| "do_read_loop B M (desc # payload) b m byte_off tot =
     (if \<not> is_write_only desc then do_read_loop B M payload b m byte_off tot
      else case bb_read_at B b byte_off (unat (d_len desc)) of
        (b1, Inl e) \<Rightarrow> ((b1, m), Inl e)
      | (b1, Inr buf) \<Rightarrow>
          (case gm_write M m (d_addr desc) buf of
             Inl e \<Rightarrow> ((b1, m), Inl IoOther)
           | Inr m1 \<Rightarrow>
               (case checked_add byte_off (ucast (d_len desc)) of
                  None \<Rightarrow> ((b1, m1), Inl IoOther)
                | Some off1 \<Rightarrow>
                    do_read_loop B M payload b1 m1 off1 (saturating_add tot (d_len desc)))))"

definition do_read ::
  "'b block_backend_ops \<Rightarrow> 'm guest_memory_ops \<Rightarrow> 'b \<Rightarrow> 'm \<Rightarrow> descriptor list \<Rightarrow> u64
    \<Rightarrow> ('b \<times> 'm) \<times> (io_error + u32)" where
  "do_read B M b m payload sector =
     (case checked_mul sector SECTOR_SIZE of
        None \<Rightarrow> ((b, m), Inl IoOther)
      | Some byte_off \<Rightarrow> do_read_loop B M payload b m byte_off 0)"

fun do_write_loop ::
  "'b block_backend_ops \<Rightarrow> 'm guest_memory_ops \<Rightarrow> 'm \<Rightarrow> descriptor list \<Rightarrow> 'b \<Rightarrow> u64
    \<Rightarrow> 'b \<times> (io_error + unit)" where
  "do_write_loop B M m [] b byte_off = (b, Inr ())"
| "do_write_loop B M m (desc # payload) b byte_off =
     (if is_write_only desc then do_write_loop B M m payload b byte_off
      else case gm_read M m (d_addr desc) (unat (d_len desc)) of
        Inl e \<Rightarrow> (b, Inl IoOther)
      | Inr buf \<Rightarrow>
          (case bb_write_at B b byte_off buf of
             (b1, Inl e) \<Rightarrow> (b1, Inl e)
           | (b1, Inr _) \<Rightarrow>
               (case checked_add byte_off (ucast (d_len desc)) of
                  None \<Rightarrow> (b1, Inl IoOther)
                | Some off1 \<Rightarrow> do_write_loop B M m payload b1 off1)))"

definition do_write ::
  "'b block_backend_ops \<Rightarrow> 'm guest_memory_ops \<Rightarrow> 'b \<Rightarrow> 'm \<Rightarrow> descriptor list \<Rightarrow> u64
    \<Rightarrow> 'b \<times> (io_error + unit)" where
  "do_write B M b m payload sector =
     (case checked_mul sector SECTOR_SIZE of
        None \<Rightarrow> (b, Inl IoOther)
      | Some byte_off \<Rightarrow> do_write_loop B M m payload b byte_off)"

definition do_get_id ::
  "'m guest_memory_ops \<Rightarrow> bytes \<Rightarrow> 'm \<Rightarrow> descriptor list \<Rightarrow> 'm \<times> (io_error + u32)" where
  "do_get_id M drive_id m payload =
     (case payload of
        [] \<Rightarrow> (m, Inr 0)
      | desc # _ \<Rightarrow>
          let n = min (length drive_id) 20;
              ident = overwrite 0 (take n drive_id) (replicate 20 0)
          in if \<not> is_write_only desc then (m, Inr 0)
             else let len = min (unat (d_len desc)) 20
                  in case gm_write M m (d_addr desc) (take len ident) of
                       Inl e \<Rightarrow> (m, Inl IoOther)
                     | Inr m1 \<Rightarrow> (m1, Inr (of_nat len)))"

text \<open>The dispatch on the request type: new backend and memory, status, bytes written.\<close>

definition dispatch_request ::
  "'b block_backend_ops \<Rightarrow> 'm guest_memory_ops \<Rightarrow> bytes \<Rightarrow> u32 \<Rightarrow> u64 \<Rightarrow> 'b \<Rightarrow> 'm \<Rightarrow> descriptor list
    \<Rightarrow> ('b \<times> 'm) \<times> u8 \<times> u32" where
  "dispatch_request B M drive_id req_type sector b m payload =
     (if req_type = REQ_TYPE_IN then
        (case do_read B M b m payload sector of
           (bm, Inr written) \<Rightarrow> (bm, STATUS_OK, written)
         | (bm, Inl _) \<Rightarrow> (bm, STATUS_IOERR, 0))
      else if req_type = REQ_TYPE_OUT then
        (case do_write B M b m payload sector of
           (b1, Inr _) \<Rightarrow> ((b1, m), STATUS_OK, 0)
         | (b1, Inl _) \<Rightarrow> ((b1, m), STATUS_IOERR, 0))
      else if req_type = REQ_TYPE_FLUSH then
        (case bb_flush B b of
           (b1, Inr _) \<Rightarrow> ((b1, m), STATUS_OK, 0)
         | (b1, Inl _) \<Rightarrow> ((b1, m), STATUS_IOERR, 0))
      else if req_type = REQ_TYPE_GET_ID then
        (case do_get_id M drive_id m payload of
           (m1, Inr written) \<Rightarrow> ((b, m1), STATUS_OK, written)
         | (m1, Inl _) \<Rightarrow> ((b, m1), STATUS_IOERR, 0))
      else ((b, m), STATUS_UNSUPP, 0))"

definition handle_request_inner ::
  "'b block_backend_ops \<Rightarrow> 'm guest_memory_ops \<Rightarrow> bytes \<Rightarrow> 'b \<Rightarrow> 'm \<Rightarrow> descriptor list
    \<Rightarrow> ('b \<times> 'm) \<times> u8 \<times> u32" where
  "handle_request_inner B M drive_id b m descs =
     (if length descs < 2 then ((b, m), STATUS_IOERR, 0)
      else let header = descs ! 0
      in if is_write_only header \<or> d_len header < 16 then ((b, m), STATUS_IOERR, 0)
      else case read_u32_le M m (d_addr header) of
        Inl _ \<Rightarrow> ((b, m), STATUS_IOERR, 0)
      | Inr req_type \<Rightarrow>
      (case read_u64_le M m (d_addr header + 8) of
        Inl _ \<Rightarrow> ((b, m), STATUS_IOERR, 0)
      | Inr sector \<Rightarrow>
          let payload = butlast (tl descs); status_desc = last descs
          in if \<not> is_write_only status_desc \<or> d_len status_desc < 1 then ((b, m), STATUS_IOERR, 0)
             else case dispatch_request B M drive_id req_type sector b m payload of
               ((b1, m1), status, bytes_written) \<Rightarrow>
                 (case gm_write M m1 (d_addr status_desc) [status] of
                    Inl _ \<Rightarrow> ((b1, m1), STATUS_IOERR, bytes_written)
                  | Inr m2 \<Rightarrow> ((b1, m2), status, saturating_add bytes_written 1))))"

subsection \<open>Draining the queue\<close>

text \<open>One turn of the loop: break with, or go on with, the queue, memory, backend and flag.\<close>

definition drain_body ::
  "'b block_backend_ops \<Rightarrow> 'm guest_memory_ops \<Rightarrow> bytes \<Rightarrow> (queue \<times> 'm \<times> 'b \<times> bool)
    \<Rightarrow> (queue \<times> 'm \<times> 'b \<times> bool) + (queue \<times> 'm \<times> 'b \<times> bool)" where
  "drain_body B M drive_id = (\<lambda>(q, m, b, completed).
     case pop_avail M m q of
        (q1, Inl _) \<Rightarrow> Inl (q1, m, b, completed)
      | (q1, Inr None) \<Rightarrow> Inl (q1, m, b, completed)
      | (q1, Inr (Some chain)) \<Rightarrow>
          (case collect M m chain of
             Inl _ \<Rightarrow> Inl (q1, m, b, completed)
           | Inr descs \<Rightarrow>
               (case handle_request_inner B M drive_id b m descs of
                  ((b1, m1), _, written) \<Rightarrow>
                    (case push_used M m1 q1 (dc_head_index chain) written of
                       ((m2, q2), Inl _) \<Rightarrow> Inl (q2, m2, b1, completed)
                     | ((m2, q2), Inr _) \<Rightarrow> Inr (q2, m2, b1, True)))))"

definition drain_requests ::
  "'b block_backend_ops \<Rightarrow> 'm guest_memory_ops \<Rightarrow> 'g gic_ops \<Rightarrow> 'b block_device
    \<Rightarrow> ('m, 'g) virtio_world \<Rightarrow> ('b block_device \<times> ('m, 'g) virtio_world) option" where
  "drain_requests B M G self w =
     (if \<not> bd_attached self then Some (self, w)
      else case break_loop (drain_body B M (bc_drive_id (bd_config self)))
                  (bd_queues self ! 0, w_mem w, bd_backend self, False) of
        None \<Rightarrow> None
      | Some (q, m, b, completed) \<Rightarrow>
          Some (self\<lparr>bd_queues := (bd_queues self)[0 := q], bd_backend := b\<rparr>,
                w\<lparr>w_mem := m,
                  w_irq := (if completed then fst (trigger_queue G (w_irq w)) else w_irq w)\<rparr>))"

subsection \<open>The device\<close>

definition block_config_space :: "'b block_backend_ops \<Rightarrow> 'b block_device \<Rightarrow> bytes" where
  "block_config_space B self =
     (let full = replicate 64 0;
          full = overwrite 0 (to_le_bytes 8 (capacity_sectors B self)) full;
          seg_max = ucast (BLOCK_QUEUE_MAX_SIZE - 2) :: u32;
          full = overwrite 12 (to_le_bytes 4 seg_max) full
      in overwrite 20 (to_le_bytes 4 (ucast SECTOR_SIZE :: u32)) full)"

definition block_read_config ::
  "'b block_backend_ops \<Rightarrow> 'b block_device \<Rightarrow> u64 \<Rightarrow> bytes \<Rightarrow> bytes" where
  "block_read_config B self offset data = config_window (block_config_space B self) offset data"

definition block_activate :: "'b block_device \<Rightarrow> 'b block_device \<times> (activate_error + unit)" where
  "block_activate self = (self\<lparr>bd_attached := True, bd_activated := True\<rparr>, Inr ())"

definition block_process_queue ::
  "'b block_backend_ops \<Rightarrow> 'm guest_memory_ops \<Rightarrow> 'g gic_ops \<Rightarrow> 'b block_device
    \<Rightarrow> ('m, 'g) virtio_world \<Rightarrow> u16 \<Rightarrow> ('b block_device \<times> ('m, 'g) virtio_world) option" where
  "block_process_queue B M G self w queue_index =
     (if queue_index = 0 then drain_requests B M G self w else Some (self, w))"

definition block_device_ops ::
  "'b block_backend_ops \<Rightarrow> 'm guest_memory_ops \<Rightarrow> 'g gic_ops
    \<Rightarrow> ('b block_device, 'm, 'g) virtio_device_ops" where
  "block_device_ops B M G =
     \<lparr>vd_device_type = (\<lambda>_. BlockDevice),
      vd_avail_features = bd_avail,
      vd_acked_features = bd_acked,
      vd_set_acked_features = (\<lambda>self v. self\<lparr>bd_acked := v\<rparr>),
      vd_queues = bd_queues,
      vd_set_queues = (\<lambda>self qs. self\<lparr>bd_queues := qs\<rparr>),
      vd_read_config = block_read_config B,
      vd_write_config = (\<lambda>self _ _. self),
      vd_activate = (\<lambda>self _. block_activate self),
      vd_is_activated = bd_activated,
      vd_process_queue = block_process_queue B M G\<rparr>"

subsection \<open>The device meets the contract of the trait\<close>

lemma drain_body_config:
  "drain_body B M drive_id (q, m, b, c) = Inl (q', m', b', c') \<Longrightarrow> queue_config q' = queue_config q"
  "drain_body B M drive_id (q, m, b, c) = Inr (q', m', b', c') \<Longrightarrow> queue_config q' = queue_config q"
  by (auto simp: drain_body_def split: prod.splits sum.splits option.splits
      dest!: pop_avail_config push_used_config)

lemma drain_requests_frame:
  assumes "drain_requests B M G d w = Some (d', w')"
  shows "bd_avail d' = bd_avail d" "bd_acked d' = bd_acked d" "bd_activated d' = bd_activated d"
    "bd_attached d' = bd_attached d" "bd_config d' = bd_config d"
    "map queue_config (bd_queues d') = map queue_config (bd_queues d)"
proof -
  show "map queue_config (bd_queues d') = map queue_config (bd_queues d)"
  proof (cases "bd_attached d")
    case True
    let ?q = "bd_queues d ! 0"
    obtain q m b c where l: "break_loop (drain_body B M (bc_drive_id (bd_config d)))
        (?q, w_mem w, bd_backend d, False) = Some (q, m, b, c)"
      using assms True by (auto simp: drain_requests_def split: option.splits)
    have "queue_config (fst (q, m, b, c)) = queue_config ?q"
      by (rule break_loop_rule [OF l, where I = "\<lambda>s. queue_config (fst s) = queue_config ?q"])
        (auto dest: drain_body_config)
    then show ?thesis
      using assms True l by (cases "bd_queues d") (auto simp: drain_requests_def)
  qed (use assms in \<open>auto simp: drain_requests_def\<close>)
qed (use assms in \<open>auto simp: drain_requests_def split: if_splits option.splits\<close>)

interpretation block: virtio_device "block_device_ops B M G" for B M G
  by unfold_locales
    (auto simp: block_device_ops_def block_read_config_def block_activate_def block_process_queue_def
      drain_requests_frame split: if_splits)

subsection \<open>A read-only drive\<close>

definition same_disk :: "'b block_backend_ops \<Rightarrow> ('b \<Rightarrow> bytes) \<Rightarrow> 'b \<Rightarrow> 'b \<Rightarrow> bool" where
  "same_disk B disk b b' \<longleftrightarrow> disk b' = disk b \<and> bb_read_only B b' = bb_read_only B b"

lemma same_disk_refl [simp]: "same_disk B disk b b"
  by (simp add: same_disk_def)

lemma same_disk_trans: "same_disk B disk b b1 \<Longrightarrow> same_disk B disk b1 b2 \<Longrightarrow> same_disk B disk b b2"
  by (simp add: same_disk_def)

context block_backend
begin

lemma read_same: "bb_read_at B b off n = (b', r) \<Longrightarrow> same_disk B disk b b'"
  by (simp add: same_disk_def read_disk read_mode)

lemma write_same: "bb_write_at B b off bs = (b', r) \<Longrightarrow> bb_read_only B b \<Longrightarrow> same_disk B disk b b'"
  using write_mode write_read_only by (simp add: same_disk_def)

lemma flush_same: "bb_flush B b = (b', r) \<Longrightarrow> same_disk B disk b b'"
  by (simp add: same_disk_def flush_disk flush_mode)

lemma do_read_loop_same:
  "do_read_loop B M ds b m off t = ((b', m'), r) \<Longrightarrow> same_disk B disk b b'"
proof (induction ds arbitrary: b m off t)
  case (Cons d ds)
  then show ?case
    by (auto split: if_splits sum.splits prod.splits option.splits dest!: read_same
        intro: same_disk_trans)
qed simp

lemma do_read_same: "do_read B M b m ds s = ((b', m'), r) \<Longrightarrow> same_disk B disk b b'"
  by (auto simp: do_read_def split: option.splits dest: do_read_loop_same)

lemma do_write_loop_same:
  "do_write_loop B M m ds b off = (b', r) \<Longrightarrow> bb_read_only B b \<Longrightarrow> same_disk B disk b b'"
proof (induction ds arbitrary: b off)
  case (Cons d ds)
  then show ?case
    by (auto split: if_splits sum.splits prod.splits option.splits dest: write_same write_read_only)
qed simp

lemma do_write_same:
  "do_write B M b m ds s = (b', r) \<Longrightarrow> bb_read_only B b \<Longrightarrow> same_disk B disk b b'"
  by (auto simp: do_write_def split: option.splits dest: do_write_loop_same)

lemma dispatch_same:
  "dispatch_request B M i ty s b m ds = ((b', m'), r) \<Longrightarrow> bb_read_only B b \<Longrightarrow> same_disk B disk b b'"
  by (auto simp: dispatch_request_def split: if_splits sum.splits prod.splits
      dest: do_read_same do_write_same flush_same)

lemma handle_request_same:
  assumes "handle_request_inner B M i b m ds = ((b', m'), r)" "bb_read_only B b"
  shows "same_disk B disk b b'"
  using assms dispatch_same
  by (fastforce simp: handle_request_inner_def Let_def split: if_splits sum.splits prod.splits)

lemma drain_body_same:
  "drain_body B M i (q, m, b, c) = Inl (q', m', b', c') \<Longrightarrow> bb_read_only B b \<Longrightarrow> same_disk B disk b b'"
  "drain_body B M i (q, m, b, c) = Inr (q', m', b', c') \<Longrightarrow> bb_read_only B b \<Longrightarrow> same_disk B disk b b'"
  by (auto simp: drain_body_def split: prod.splits sum.splits option.splits dest: handle_request_same)

lemma drain_requests_same:
  fixes M :: "'m guest_memory_ops"
  assumes "drain_requests B M G d w = Some (d', w')" "bb_read_only B (bd_backend d)"
  shows "same_disk B disk (bd_backend d) (bd_backend d')"
proof (cases "bd_attached d")
  case True
  obtain q m b c where l: "break_loop (drain_body B M (bc_drive_id (bd_config d)))
      (bd_queues d ! 0, w_mem w, bd_backend d, False) = Some (q, m, b, c)"
    and d': "bd_backend d' = b"
    using assms(1) True by (auto simp: drain_requests_def split: option.splits)
  have "same_disk B disk (bd_backend d) (fst (snd (snd (q, m, b, c))))"
  proof (rule break_loop_rule [OF l, where I = "\<lambda>s. same_disk B disk (bd_backend d) (fst (snd (snd s)))"])
    fix s t :: "queue \<times> 'm \<times> 'b \<times> bool"
    assume I: "same_disk B disk (bd_backend d) (fst (snd (snd s)))"
    then have ro: "bb_read_only B (fst (snd (snd s)))" using assms(2) by (simp add: same_disk_def)
    show "same_disk B disk (bd_backend d) (fst (snd (snd t)))"
      if "drain_body B M (bc_drive_id (bd_config d)) s = Inr t"
      using that I ro by (cases s; cases t) (auto intro: same_disk_trans dest: drain_body_same(2))
    show "same_disk B disk (bd_backend d) (fst (snd (snd t)))"
      if "drain_body B M (bc_drive_id (bd_config d)) s = Inl t"
      using that I ro by (cases s; cases t) (auto intro: same_disk_trans dest: drain_body_same(1))
  qed simp
  then show ?thesis by (simp add: d')
qed (use assms in \<open>simp add: drain_requests_def\<close>)

lemma read_only_invariant:
  "device_invariant (block_device_ops B M G)
    (\<lambda>d. bb_read_only B (bd_backend d) \<and> disk (bd_backend d) = content)"
  by unfold_locales
    (auto simp: block_device_ops_def block_activate_def block_process_queue_def same_disk_def
      split: if_splits dest!: drain_requests_same)

end

interpretation read_only_drive:
  device_invariant "block_device_ops sync_file_backend M G"
    "\<lambda>d. bb_read_only sync_file_backend (bd_backend d) \<and> hf_content (sf_file (bd_backend d)) = content"
  for M G content
  by (rule sync.read_only_invariant)

subsection \<open>What a request transfers\<close>

locale block_io = guest_memory M + block_backend B disk
  for M :: "'m guest_memory_ops" and B :: "'b block_backend_ops" and disk :: "'b \<Rightarrow> bytes"
begin

lemma do_write_loop_ok:
  "do_write_loop B M m ds b off = (b', Inr ()) \<Longrightarrow>
    \<exists>bs. gather M m (driver_buffers ds) = Inr bs \<and> length bs = total_len (driver_buffers ds) \<and>
      disk b' = put_at (unat off) bs (disk b)"
proof (induction ds arbitrary: b off)
  case (Cons d ds)
  show ?case
  proof (cases "is_write_only d")
    case True
    with Cons show ?thesis by simp
  next
    case False
    with Cons.prems obtain buf b1 off1 where r: "gm_read M m (d_addr d) (unat (d_len d)) = Inr buf"
      and w: "bb_write_at B b off buf = (b1, Inr ())"
      and o: "checked_add off (ucast (d_len d)) = Some off1"
      and rest: "do_write_loop B M m ds b1 off1 = (b', Inr ())"
      by (auto split: sum.splits prod.splits option.splits)
    from Cons.IH [OF rest] obtain bs where bs: "gather M m (driver_buffers ds) = Inr bs"
      "length bs = total_len (driver_buffers ds)" "disk b' = put_at (unat off1) bs (disk b1)" by auto
    have len: "length buf = unat (d_len d)" using r by (rule read_length)
    have "unat off1 = unat off + length buf"
      using checked_add_SomeD [OF o] len by simp
    then have "disk b' = put_at (unat off) (buf @ bs) (disk b)"
      using bs(3) write_ok [OF w] by (simp add: put_at_append)
    with bs r len False show ?thesis by simp
  qed
qed simp

lemma do_read_loop_frame:
  "do_read_loop B M ds b m off t = ((b', m'), r) \<Longrightarrow>
    list_all (\<lambda>d. desc_disjoint d a n) (device_buffers ds) \<Longrightarrow> gm_read M m' a n = gm_read M m a n"
proof (induction ds arbitrary: b m off t)
  case (Cons d ds)
  show ?case
  proof (cases "is_write_only d")
    case False
    with Cons show ?thesis by simp
  next
    case True
    have other: "gm_read M m1 a n = gm_read M m a n"
      if "bb_read_at B b off (unat (d_len d)) = (b1, Inr buf)" "gm_write M m (d_addr d) buf = Inr m1" for b1 buf m1
    proof -
      have "length buf = unat (d_len d)" using read_ok [OF that(1)] by blast
      with read_other [OF that(2), of a n] Cons.prems(2) True show ?thesis
        by (simp add: desc_disjoint_def)
    qed
    from Cons.prems True Cons.IH show ?thesis
      by (auto split: sum.splits prod.splits option.splits simp: other)
  qed
qed simp

lemma do_read_loop_ok:
  "do_read_loop B M ds b m off t = ((b', m'), Inr tot) \<Longrightarrow> bufs_disjoint (device_buffers ds) \<Longrightarrow>
    gather M m' (device_buffers ds) = Inr (slice (unat off) (total_len (device_buffers ds)) (disk b)) \<and>
    unat tot = min (unat t + total_len (device_buffers ds)) (2 ^ 32 - 1)"
proof (induction ds arbitrary: b m off t)
  case Nil
  have "unat t \<le> 4294967295" using unat_lt32 [of t] by linarith
  with Nil show ?case by (simp add: slice_def)
next
  case (Cons d ds)
  show ?case
  proof (cases "is_write_only d")
    case False
    with Cons show ?thesis by simp
  next
    case True
    with Cons.prems(1) obtain buf b1 m1 off1
      where r: "bb_read_at B b off (unat (d_len d)) = (b1, Inr buf)"
        and w: "gm_write M m (d_addr d) buf = Inr m1"
        and o: "checked_add off (ucast (d_len d)) = Some off1"
        and rest: "do_read_loop B M ds b1 m1 off1 (saturating_add t (d_len d)) = ((b', m'), Inr tot)"
      by (auto split: sum.splits prod.splits option.splits)
    from read_ok [OF r] have buf: "length buf = unat (d_len d)" "buf = slice (unat off) (unat (d_len d)) (disk b)"
      by blast+
    have off1: "unat off1 = unat off + unat (d_len d)" using checked_add_SomeD [OF o] by simp
    have "gm_read M m' (d_addr d) (length buf) = gm_read M m1 (d_addr d) (length buf)"
      using Cons.prems(2) True buf(1) by (intro do_read_loop_frame [OF rest]) auto
    then have stored: "gm_read M m' (d_addr d) (unat (d_len d)) = Inr buf"
      using read_back [OF w] buf(1) by simp
    from Cons.IH [OF rest] Cons.prems(2) True read_disk [OF r] stored buf(2) off1
    show ?thesis
      by (simp add: unat_saturating_add slice_append)
  qed
qed

end

interpretation slice_sync: block_io slice_guest_memory sync_file_backend "\<lambda>b. hf_content (sf_file b)"
  by unfold_locales

lemma checked_mul_sector: "checked_mul s SECTOR_SIZE = Some off \<Longrightarrow> unat off = 512 * unat s"
  using checked_mul_SomeD [of s SECTOR_SIZE off] by (simp add: SECTOR_SIZE_def)

text \<open>A small drive and guest memory for the instances.\<close>

definition demo_buffers :: slice_memory where
  "demo_buffers = slice_memory_from_bytes 0x1000 [1, 2, 3, 4, 5, 6, 7, 8, 0, 0, 0, 0, 0, 0, 0, 0]"

definition demo_disk :: "bool \<Rightarrow> sync_file" where
  "demo_disk read_only =
     \<lparr>sf_file = \<lparr>hf_content = replicate 8 9, hf_pos = 0, hf_writable = (\<not> read_only), hf_faults = []\<rparr>,
      sf_size_bytes = 8, sf_read_only = read_only\<rparr>"

definition demo_out :: "descriptor list" where
  "demo_out = [\<lparr>d_addr = 0x1000, d_len = 2, d_flags = 1, d_next = 1\<rparr>,
    \<lparr>d_addr = 0x1004, d_len = 2, d_flags = 1, d_next = 2\<rparr>]"

definition demo_in :: "descriptor list" where
  "demo_in = [\<lparr>d_addr = 0x1008, d_len = 4, d_flags = 3, d_next = 1\<rparr>]"

definition demo_written :: sync_file where
  "demo_written =
     \<lparr>sf_file = \<lparr>hf_content = [1, 2, 5, 6, 9, 9, 9, 9], hf_pos = 4, hf_writable = True, hf_faults = []\<rparr>,
      sf_size_bytes = 8, sf_read_only = False\<rparr>"

lemma demo_out_ok:
  "do_write sync_file_backend slice_guest_memory (demo_disk False) demo_buffers demo_out 0 = (demo_written, Inr ())"
  by code_simp

text \<open>
  C31. Guest writes reach the disk exactly: a write request that is answered with success has
  put the concatenated bytes of the driver's buffers at byte \<open>512 * sector\<close> and left every
  other byte of the disk as it was, growing the disk if the request ends beyond its end.
\<close>

theorem block_write_exact:
  assumes "guest_memory M" "block_backend B disk"
    and "do_write B M b m ds sector = (b', Inr ())"
  shows "\<exists>bs. gather M m (driver_buffers ds) = Inr bs \<and> length bs = total_len (driver_buffers ds) \<and>
    disk b' = put_at (512 * unat sector) bs (disk b)"
proof -
  have io: "block_io M B disk" using assms(1,2) by (rule block_io.intro)
  from assms(3) obtain off where "checked_mul sector SECTOR_SIZE = Some off"
    "do_write_loop B M m ds b off = (b', Inr ())"
    by (auto simp: do_write_def split: option.splits)
  with block_io.do_write_loop_ok [OF io] show ?thesis by (metis checked_mul_sector)
qed

theorem block_write_exact_witness:
  "gather slice_guest_memory demo_buffers (driver_buffers demo_out) = Inr [1, 2, 5, 6] \<and>
   hf_content (sf_file demo_written) = put_at 0 [1, 2, 5, 6] (replicate 8 9)"
proof -
  have "gather slice_guest_memory demo_buffers (driver_buffers demo_out) = Inr [1, 2, 5, 6]"
    by code_simp
  with block_write_exact [OF slice.guest_memory_axioms sync.block_backend_axioms demo_out_ok]
  show ?thesis by (auto simp: demo_disk_def)
qed

text \<open>
  C14. What was written is read back: after a successful write request, a successful read
  request for the same sector and the same number of bytes, into buffers that do not overlap,
  leaves in the guest's buffers exactly the bytes that were written, whatever the layout of
  the two descriptor lists, and reports their count.
\<close>

theorem block_write_read_roundtrip:
  assumes "guest_memory M" "block_backend B disk"
    and w: "do_write B M b m ws sector = (b1, Inr ())"
    and r: "do_read B M b1 m1 rs sector = ((b2, m2), Inr tot)"
    and "bufs_disjoint (device_buffers rs)"
    and "total_len (device_buffers rs) = total_len (driver_buffers ws)"
  shows "gather M m2 (device_buffers rs) = gather M m (driver_buffers ws) \<and>
    unat tot = min (total_len (driver_buffers ws)) (2 ^ 32 - 1)"
proof -
  have io: "block_io M B disk" using assms(1,2) by (rule block_io.intro)
  obtain off where off: "checked_mul sector SECTOR_SIZE = Some off"
    and wl: "do_write_loop B M m ws b off = (b1, Inr ())"
    using w by (auto simp: do_write_def split: option.splits)
  have rl: "do_read_loop B M rs b1 m1 off 0 = ((b2, m2), Inr tot)"
    using r off by (simp add: do_read_def)
  obtain bs where "gather M m (driver_buffers ws) = Inr bs" "length bs = total_len (driver_buffers ws)"
    "disk b1 = put_at (unat off) bs (disk b)"
    using block_io.do_write_loop_ok [OF io wl] by blast
  with block_io.do_read_loop_ok [OF io rl assms(5)] assms(6) show ?thesis
    by (metis slice_put_at_same unsigned_0 add_0)
qed

theorem block_write_read_roundtrip_witness:
  "\<exists>b m tot. do_read sync_file_backend slice_guest_memory demo_written demo_buffers demo_in 0 = ((b, m), Inr tot) \<and>
    gather slice_guest_memory m (device_buffers demo_in) = Inr [1, 2, 5, 6] \<and> tot = 4"
proof -
  let ?r = "do_read sync_file_backend slice_guest_memory demo_written demo_buffers demo_in 0"
  have r: "?r = ((fst (fst ?r), snd (fst ?r)), Inr 4)" by code_simp
  have len: "total_len (device_buffers demo_in) = total_len (driver_buffers demo_out)"
    by (simp add: demo_in_def demo_out_def is_write_only_def VIRTQ_DESC_F_WRITE_def)
  have dis: "bufs_disjoint (device_buffers demo_in)" by code_simp
  have "gather slice_guest_memory demo_buffers (driver_buffers demo_out) = Inr [1, 2, 5, 6]"
    by code_simp
  with block_write_read_roundtrip
    [OF slice.guest_memory_axioms sync.block_backend_axioms demo_out_ok r dis len] r
  show ?thesis by metis
qed

end
