(* ===== verification/Block_Progress.thy ===== *)
theory Block_Progress
  imports Block_Device
begin

text \<open>
  Progress of the block device's drain loop. Its requests write only inside the
  device-writable buffers of their chain, and every request is answered, so the loop is an
  instance of the servers of \<open>Queue_Service\<close>: on well laid out rings it ends, and if every
  published chain is well formed and the used ring is accessible it has then completed every
  request that was pending.
\<close>

subsection \<open>What a request can write\<close>

context block_io
begin

lemma write_frame:
  assumes "gm_write M m a bs = Inr m'" "length bs \<le> k" "disjoint_ranges a k x n"
  shows "gm_read M m' x n = gm_read M m x n"
  using assms read_other disjoint_ranges_shorter by blast

lemma do_get_id_frame:
  assumes "do_get_id M i m ds = (m', r)" "list_all (\<lambda>d. desc_disjoint d a n) (device_buffers ds)"
  shows "gm_read M m' a n = gm_read M m a n"
  using assms
  by (auto simp: do_get_id_def desc_disjoint_def Let_def split: list.splits if_splits sum.splits
      elim!: write_frame intro: disjoint_ranges_shorter)

lemma dispatch_frame:
  assumes "dispatch_request B M i ty s b m ds = ((b', m'), r)"
    and "list_all (\<lambda>d. desc_disjoint d a n) (device_buffers ds)"
  shows "gm_read M m' a n = gm_read M m a n"
  using assms
  by (auto simp: dispatch_request_def do_read_def split: if_splits sum.splits prod.splits option.splits
      dest: do_get_id_frame do_read_loop_frame)

lemma handle_request_frame:
  assumes h: "handle_request_inner B M i b m ds = ((b', m'), r)"
    and dis: "\<And>d. d \<in> set ds \<Longrightarrow> is_write_only d \<Longrightarrow> desc_disjoint d a n"
  shows "gm_read M m' a n = gm_read M m a n"
proof (cases "m' = m")
  case False
  let ?pay = "butlast (tl ds)"
  have pay: "list_all (\<lambda>d. desc_disjoint d a n) (device_buffers ?pay)"
    using dis by (cases ds) (auto simp: list_all_iff dest: in_set_butlastD)
  have ne: "ds \<noteq> []" using h False by (auto simp: handle_request_inner_def)
  from h False obtain ty s b1 m1 st w where d: "dispatch_request B M i ty s b m ?pay = ((b1, m1), st, w)"
    and last: "is_write_only (last ds)" "1 \<le> unat (d_len (last ds))"
    and m': "m' = m1 \<or> gm_write M m1 (d_addr (last ds)) [st] = Inr m'"
    by (auto simp: handle_request_inner_def Let_def word_less_nat_alt split: if_splits sum.splits prod.splits)
  have "gm_read M m1 a n = gm_read M m a n" using d pay by (rule dispatch_frame)
  moreover have "gm_read M m' a n = gm_read M m1 a n"
    using m' dis [of "last ds"] ne last write_frame [of m1 "d_addr (last ds)" "[st]" m' "unat (d_len (last ds))" a n]
    by (auto simp: desc_disjoint_def)
  ultimately show ?thesis by simp
qed simp

text \<open>No request changes which addresses are accessible.\<close>

lemma do_read_loop_domain:
  "do_read_loop B M ds b m off t = ((b', m'), r) \<Longrightarrow> isl (gm_read M m' a n) = isl (gm_read M m a n)"
proof (induction ds arbitrary: b m off t)
  case (Cons d ds)
  then show ?case
    by (auto split: if_splits sum.splits prod.splits option.splits dest: write_keeps_domain)
qed simp

lemma dispatch_domain:
  assumes "dispatch_request B M i ty s b m ds = ((b', m'), r)"
  shows "isl (gm_read M m' a n) = isl (gm_read M m a n)"
  using assms
  by (auto simp: dispatch_request_def do_read_def do_get_id_def Let_def
      split: if_splits sum.splits prod.splits option.splits list.splits
      dest: do_read_loop_domain write_keeps_domain)

lemma handle_request_domain:
  assumes "handle_request_inner B M i b m ds = ((b', m'), r)"
  shows "isl (gm_read M m' a n) = isl (gm_read M m a n)"
  using assms
  by (auto simp: handle_request_inner_def Let_def split: if_splits sum.splits prod.splits
      dest: dispatch_domain write_keeps_domain)

end

subsection \<open>The loop\<close>

text \<open>The block device's loop is the loop of \<open>Queue_Service\<close> around \<open>handle_request_inner\<close>.\<close>

definition block_handler ::
  "'b block_backend_ops \<Rightarrow> 'm guest_memory_ops \<Rightarrow> bytes \<Rightarrow> ('b, 'm) chain_handler" where
  "block_handler B M drive_id b m chain =
     (case chain of
        Inl _ \<Rightarrow> ((b, m), Give_Up)
      | Inr descs \<Rightarrow>
          (case handle_request_inner B M drive_id b m descs of (bm, _, written) \<Rightarrow> (bm, Reply written)))"

lemma drain_body_serves: "drain_body B M i = serve_body M (block_handler B M i)"
  by (rule ext) (auto simp: drain_body_def serve_body_def block_handler_def split: prod.splits sum.splits option.splits)

sublocale block_io \<subseteq> served: answering_server M "block_handler B M i" for i
proof (unfold_locales, goal_cases)
  case (1 s m r s' m' v a n)
  then show ?case
    by (cases r) (auto simp: block_handler_def split: prod.splits intro: handle_request_frame)
next
  case (2 s m r s' m' v a n)
  then show ?case
    by (cases r) (auto simp: block_handler_def split: prod.splits dest: handle_request_domain)
next
  case (3 s m ds)
  then show ?case by (simp add: block_handler_def split: prod.split)
qed

context block_io
begin

lemma drain_loop_terminates:
  assumes "rings_fit q" "buffers_safe M m q"
  shows "\<exists>r. break_loop (drain_body B M i) (q, m, b, c) = Some r"
  using served.serve_loop_terminates [OF assms] by (simp add: drain_body_serves)

lemma drain_completes_loop:
  assumes "is_valid q" "rings_fit q" "buffers_safe M m q" "chains_ok M m q" "used_ring_ok M m q"
    and "avail_idx M m q = Inr d"
  shows "\<exists>q' m' b'. break_loop (drain_body B M i) (q, m, b, c) = Some (q', m', b', c \<or> pending_heads M m q \<noteq> []) \<and>
    pending_heads M m' q' = [] \<and>
    q_next_used_idx q' = q_next_used_idx q + of_nat (length (pending_heads M m q))"
  using served.serve_completes_loop [OF assms] by (simp add: drain_body_serves)

end

subsection \<open>Properties\<close>

text \<open>
  A two-entry queue holding one flush request: header at \<open>0x1040\<close>, status byte at \<open>0x1050\<close>.
\<close>

definition flush_header :: descriptor where
  "flush_header = \<lparr>d_addr = 0x1040, d_len = 16, d_flags = 1, d_next = 1\<rparr>"

definition flush_status :: descriptor where
  "flush_status = \<lparr>d_addr = 0x1050, d_len = 1, d_flags = 2, d_next = 0\<rparr>"

definition flush_memory :: slice_memory where
  "flush_memory = slice_memory_from_bytes 0x1000
     ([0x40,0x10,0,0,0,0,0,0, 16,0,0,0, 1,0, 1,0] @ [0x50,0x10,0,0,0,0,0,0, 1,0,0,0, 2,0, 0,0]
      @ [0,0, 1,0, 0,0, 0,0] @ replicate 24 0 @ [4,0,0,0, 0,0,0,0, 0,0,0,0,0,0,0,0] @ [0xFF])"

definition flush_device :: "sync_file block_device" where
  "flush_device =
     \<lparr>bd_avail = F_BLK_SIZE, bd_acked = 0, bd_queues = [demo_queue],
      bd_config = \<lparr>bc_drive_id = [], bc_is_root_device = False, bc_is_read_only = False, bc_cache_type = CacheUnsafe\<rparr>,
      bd_backend = demo_disk False, bd_attached = True, bd_activated = True\<rparr>"

lemma flush_descriptors:
  "read_descriptor slice_guest_memory flush_memory 0x1000 0 = Inr flush_header"
  "read_descriptor slice_guest_memory flush_memory 0x1000 1 = Inr flush_status"
  "has_next flush_header" "\<not> has_next flush_status" "\<not> is_write_only flush_header" "is_write_only flush_status"
  by code_simp+

lemma flush_pending:
  "pending_heads slice_guest_memory flush_memory demo_queue = [Inr 0]"
  "avail_idx slice_guest_memory flush_memory demo_queue = Inr 1"
  by code_simp+

lemma flush_layout:
  "is_valid demo_queue" "rings_fit demo_queue" "buffers_safe slice_guest_memory flush_memory demo_queue"
  "used_ring_ok slice_guest_memory flush_memory demo_queue"
proof -
  show "is_valid demo_queue" by code_simp
  show "rings_fit demo_queue"
    by (simp add: rings_fit_def used_ring_fits_def demo_queue_def disjoint_ranges_def)
  have "[0..<unat (q_size demo_queue)] = [0, 1]" by (simp add: demo_queue_def upt_rec)
  then show "buffers_safe slice_guest_memory flush_memory demo_queue"
    using flush_descriptors
    by (simp add: buffers_safe_def desc_disjoint_def disjoint_ranges_def flush_status_def demo_queue_def)
  show "used_ring_ok slice_guest_memory flush_memory demo_queue" by code_simp
qed

lemma flush_chain: "chains_ok slice_guest_memory flush_memory demo_queue"
proof -
  have "linked_chain slice_guest_memory flush_memory 0x1000 2 0 [flush_header, flush_status]"
    using chain_last [OF _ flush_descriptors(2,4), of 2] flush_descriptors
    by (intro chain_link [where i = 0]) (simp_all add: flush_header_def)
  then have "collect slice_guest_memory flush_memory (chain_at demo_queue 0) = Inr [flush_header, flush_status]"
    by (simp add: collect_iff demo_queue_def)
  moreover have "0 < q_size demo_queue" by (simp add: demo_queue_def)
  ultimately show ?thesis by (simp add: chains_ok_def flush_pending)
qed

text \<open>
  C15. The drain loop of the block device ends on every well laid out ring, whatever the
  requests and the backend do: it is cut off neither by fuel nor by an assumption about the
  requests, because each turn consumes one pending head and no turn can publish another.
\<close>

theorem block_drain_terminates:
  assumes "guest_memory M" "block_backend B disk" "rings_fit q" "buffers_safe M m q"
  shows "\<exists>r. break_loop (drain_body B M drive_id) (q, m, b, c) = Some r"
  using block_io.drain_loop_terminates [OF block_io.intro [OF assms(1,2)] assms(3,4)] .

theorem block_drain_terminates_witness:
  "\<exists>r. break_loop (drain_body sync_file_backend slice_guest_memory [])
      (demo_queue, flush_memory, demo_disk False, False) = Some r"
  using block_drain_terminates [OF slice.guest_memory_axioms sync.block_backend_axioms flush_layout(2,3)] .

text \<open>
  C3. One notification serves everything that is pending: if moreover every pending head
  starts a well-formed chain and the used ring is accessible, \<open>drain_requests\<close> returns with no
  head pending, with the used index advanced by exactly the number of heads that were
  pending, and it has pulsed the interrupt line if and only if there was at least one.
\<close>

theorem block_drain_completes:
  assumes "guest_memory M" "block_backend B disk"
    and "bd_attached d" "bd_queues d = [q]" "is_valid q" "rings_fit q"
    and "buffers_safe M (w_mem w) q" "chains_ok M (w_mem w) q" "used_ring_ok M (w_mem w) q"
    and "avail_idx M (w_mem w) q = Inr idx"
  shows "\<exists>d' w' q'. drain_requests B M G d w = Some (d', w') \<and> bd_queues d' = [q'] \<and>
    pending_heads M (w_mem w') q' = [] \<and>
    q_next_used_idx q' = q_next_used_idx q + of_nat (length (pending_heads M (w_mem w) q)) \<and>
    w_irq w' = (if pending_heads M (w_mem w) q = [] then w_irq w else fst (trigger_queue G (w_irq w)))"
proof -
  have io: "block_io M B disk" using assms(1,2) by (rule block_io.intro)
  obtain q' m' b' where "break_loop (drain_body B M (bc_drive_id (bd_config d)))
      (q, w_mem w, bd_backend d, False) = Some (q', m', b', pending_heads M (w_mem w) q \<noteq> [])"
    "pending_heads M m' q' = []"
    "q_next_used_idx q' = q_next_used_idx q + of_nat (length (pending_heads M (w_mem w) q))"
    using block_io.drain_completes_loop [OF io assms(5-10), where b = "bd_backend d" and c = False
        and i = "bc_drive_id (bd_config d)"] by auto
  then show ?thesis
    using assms(3,4) by (simp add: drain_requests_def)
qed

theorem block_drain_completes_witness:
  "\<exists>d' w' q'. drain_requests sync_file_backend slice_guest_memory recording_gic flush_device
      \<lparr>w_mem = flush_memory, w_irq = irq_line_new [] (IntId 48)\<rparr> = Some (d', w') \<and>
    bd_queues d' = [q'] \<and> pending_heads slice_guest_memory (w_mem w') q' = [] \<and>
    q_next_used_idx q' = 1 \<and> il_gic (w_irq w') = [Pulse (IntId 48)]"
proof -
  let ?w = "\<lparr>w_mem = flush_memory, w_irq = irq_line_new [] (IntId 48)\<rparr>"
  obtain d' w' q' where r: "drain_requests sync_file_backend slice_guest_memory recording_gic flush_device ?w = Some (d', w')"
    "bd_queues d' = [q']" "pending_heads slice_guest_memory (w_mem w') q' = []"
    "q_next_used_idx q' = q_next_used_idx demo_queue + 1"
    "w_irq w' = fst (trigger_queue recording_gic (irq_line_new [] (IntId 48)))"
    using block_drain_completes [OF slice.guest_memory_axioms sync.block_backend_axioms, of flush_device demo_queue ?w 1 recording_gic]
      flush_layout flush_chain flush_pending by (auto simp: flush_device_def)
  then show ?thesis
    by (simp add: demo_queue_def trigger_queue_def irq_line_new_def recording_gic_def)
qed

end
