(* ===== verification/Virtio_Stack.thy ===== *)
theory Virtio_Stack
  imports Block_Progress
begin

text \<open>
  The transport and its device together: properties of \<open>VirtioMmioTransport\<close> over any device
  that meets the contract of the trait, instantiated for the block device, and of a block
  device that a guest drives through any sequence of register writes.
\<close>

unbundle bit_operations_syntax

abbreviation demo_ops :: "(sync_file block_device, slice_memory, gic_event list) virtio_device_ops" where
  "demo_ops \<equiv> block_device_ops sync_file_backend slice_guest_memory recording_gic"

definition demo_drive :: "bool \<Rightarrow> sync_file block_device" where
  "demo_drive read_only =
     block_device_new sync_file_backend
       \<lparr>bc_drive_id = [], bc_is_root_device = False, bc_is_read_only = read_only, bc_cache_type = CacheUnsafe\<rparr>
       (demo_disk read_only)"

definition demo_transport :: "bool \<Rightarrow> (sync_file block_device, slice_memory, gic_event list) virtio_transport" where
  "demo_transport read_only =
     transport_new (demo_drive read_only) flush_memory (irq_line_new [] (IntId 48))"

text \<open>The driver's writes: a register with its value.\<close>

definition reg_write :: "u64 \<Rightarrow> u32 \<Rightarrow> u64 \<times> bytes" where
  "reg_write offset value = (offset, to_le_bytes 4 value)"

lemma transport_write_register [simp]:
  "off \<le> 0xFF \<Longrightarrow> transport_write D t off (to_le_bytes 4 (v :: u32)) = write_register D t off v"
  by (simp add: transport_write_def)

lemma transport_run_reg [simp]:
  "off \<le> 0xFF \<Longrightarrow> transport_run D t (reg_write off v # ws) =
    (case write_register D t off v of None \<Rightarrow> None | Some t' \<Rightarrow> transport_run D t' ws)"
  by (simp add: reg_write_def)

subsection \<open>Initialisation\<close>

definition driver_init :: "(u64 \<times> bytes) list" where
  "driver_init = map (reg_write 0x70) [ACKNOWLEDGE, ACKNOWLEDGE OR DRIVER,
     ACKNOWLEDGE OR DRIVER OR FEATURES_OK, ACKNOWLEDGE OR DRIVER OR FEATURES_OK OR DRIVER_OK]"

text \<open>
  The initialisation sequence of the virtio specification brings the device up: from a
  reset transport whose device is not yet active, the four status writes run the device's
  \<open>activate\<close> once on the shared memory and interrupt line and leave the status at 15; if
  activation fails the status is 79, with DEVICE_NEEDS_RESET set. Nothing else changes.
\<close>

theorem driver_init_activates:
  assumes "t_status t = INIT" "\<not> vd_is_activated D (t_device t)"
  shows "transport_run D t driver_init =
    (case vd_activate D (t_device t) (t_world t) of
       (d, Inr _) \<Rightarrow> Some (t\<lparr>t_status := 15, t_device := d\<rparr>)
     | (d, Inl _) \<Rightarrow> Some (t\<lparr>t_status := 79, t_device := d\<rparr>))"
  using assms
  by (simp add: driver_init_def write_register_def set_status_def is_valid_transition_iff
      device_status_defs activate_device_def split: prod.split sum.split)

theorem driver_init_activates_witness:
  "\<exists>t. transport_run demo_ops (demo_transport False) driver_init = Some t \<and> t_status t = 15 \<and>
    bd_activated (t_device t)"
  using driver_init_activates [of "demo_transport False" demo_ops]
  by (simp add: demo_transport_def transport_new_def demo_drive_def block_device_new_def Let_def
      block_device_ops_def block_activate_def)

definition program_queue :: "u64 \<Rightarrow> u64 \<Rightarrow> u64 \<Rightarrow> (u64 \<times> bytes) list" where
  "program_queue desc avail used =
     [reg_write 0x80 (ucast desc), reg_write 0x84 (ucast (drop_bit 32 desc)),
      reg_write 0x90 (ucast avail), reg_write 0x94 (ucast (drop_bit 32 avail)),
      reg_write 0xA0 (ucast used), reg_write 0xA4 (ucast (drop_bit 32 used))]"

text \<open>
  Programming a queue: before the driver is live, writing the two halves of three 64-bit
  addresses to the registers of the selected queue sets exactly the descriptor-table,
  available-ring and used-ring addresses of that queue and changes no other queue.
\<close>

theorem queue_addresses_programmed:
  assumes "virtio_device D" "t_status t AND DRIVER_OK = 0"
    and "unat (t_queue_select t) < length (vd_queues D (t_device t))"
  shows "\<exists>t'. transport_run D t (program_queue desc avail used) = Some t' \<and>
    vd_queues D (t_device t') = (vd_queues D (t_device t))[unat (t_queue_select t) :=
      (vd_queues D (t_device t) ! unat (t_queue_select t))
        \<lparr>q_desc_table_addr := desc, q_avail_ring_addr := avail, q_used_ring_addr := used\<rparr>]"
  using assms(2,3)
  by (simp add: program_queue_def write_register_def set_addr_low_high
      virtio_device.update_queue_field_queues [OF assms(1)])

theorem queue_addresses_programmed_witness:
  "\<exists>t'. transport_run demo_ops (demo_transport False) (program_queue 0x1000 0x1020 0x1028) = Some t' \<and>
    map q_used_ring_addr (bd_queues (t_device t')) = [0x1028]"
proof -
  have "t_status (demo_transport False) AND DRIVER_OK = 0" by code_simp
  moreover have "unat (t_queue_select (demo_transport False)) < length (vd_queues demo_ops (t_device (demo_transport False)))"
    by code_simp
  ultimately obtain t' where "transport_run demo_ops (demo_transport False) (program_queue 0x1000 0x1020 0x1028) = Some t'"
    "vd_queues demo_ops (t_device t') = (vd_queues demo_ops (t_device (demo_transport False)))[unat (t_queue_select (demo_transport False)) :=
      (vd_queues demo_ops (t_device (demo_transport False)) ! unat (t_queue_select (demo_transport False)))
        \<lparr>q_desc_table_addr := 0x1000, q_avail_ring_addr := 0x1020, q_used_ring_addr := 0x1028\<rparr>]"
    using queue_addresses_programmed [OF block.virtio_device_axioms] by blast
  then show ?thesis
    by (simp add: demo_transport_def transport_new_def demo_drive_def block_device_new_def Let_def
        block_device_ops_def)
qed

subsection \<open>Every sequence of guest writes\<close>

text \<open>
  C1. The transport's invariant, over every sequence of MMIO writes a guest can issue to a
  fresh transport of any device that meets the trait's contract: the status register only
  takes the values 0, 1, 3, 11, 15 and 79, each with or without FAILED; the acknowledged
  features are those the driver negotiated and never leave the offered set (with
  VIRTIO_F_VERSION_1); and a live status without DEVICE_NEEDS_RESET means an active device.
\<close>

theorem transport_invariant:
  assumes "virtio_device D" "vd_acked_features D d = 0"
    and "transport_run D (transport_new d m irq) ws = Some t"
  shows "transport_inv D t"
proof -
  have "transport_inv D (transport_new d m irq)"
    using assms(2) by (simp add: transport_inv_def transport_new_def status_ok_def status_values_def INIT_def)
  then show ?thesis using virtio_device.inv_transport_run [OF assms(1)] assms(3) by blast
qed

theorem transport_invariant_witness:
  "\<exists>t. transport_run demo_ops (demo_transport False) driver_init = Some t \<and> transport_inv demo_ops t"
proof -
  have acked: "vd_acked_features demo_ops (demo_drive False) = 0" by code_simp
  obtain t where "transport_run demo_ops (demo_transport False) driver_init = Some t"
    by (simp add: driver_init_def write_register_def set_status_def is_valid_transition_iff
      device_status_defs activate_device_def demo_transport_def transport_new_def demo_drive_def
      block_device_new_def Let_def block_device_ops_def block_activate_def)
  with transport_invariant [OF block.virtio_device_axioms acked] show ?thesis
    unfolding demo_transport_def by blast
qed

definition status_move :: "u32 \<Rightarrow> u32 \<Rightarrow> bool \<Rightarrow> bool" where
  "status_move old new reset \<longleftrightarrow> new = old \<or> new = old OR FAILED \<or> (new = 0 \<and> reset) \<or>
     (old, new) \<in> {(0, 1), (1, 3), (3, 11), (11, 15), (11, 79)}"

lemma status_move_refl [simp]: "status_move s s r"
  by (simp add: status_move_def)

lemma set_status_move: "status_move (t_status t) (t_status (set_status D t v)) (v = 0)"
  by (cases rule: set_status_cases [of v D t])
    (auto simp: status_move_def transport_reset_def Let_def INIT_def)

lemma write_register_status:
  assumes "write_register D t off v = Some t'"
  shows "status_move (t_status t) (t_status t') (off = 0x70 \<and> v = 0)"
proof (cases rule: write_register_cases [of D t off v])
  case status
  with assms set_status_move [of t D v] show ?thesis by simp
next
  case notify
  with assms have "t_status t' = t_status t"
    by (auto simp: handle_queue_notify_def split: if_splits option.splits)
  then show ?thesis by (simp add: status_move_def)
next
  case features
  with assms have "t_status t' = t_status t"
    by (auto simp: handle_driver_features_write_def Let_def)
  then show ?thesis by (simp add: status_move_def)
qed (use assms in \<open>auto simp: status_move_def\<close>)

text \<open>
  How the status register moves in one write: not at all, to 0 by a reset (value 0 written
  to the status register), by adding FAILED, or along the initialisation order 0, 1, 3, 11 and
  then 15, or 79 when activation fails. In particular only a reset leaves FAILED.
\<close>

theorem transport_status_step:
  assumes "transport_write D t off data = Some t'"
  shows "status_move (t_status t) (t_status t') (off = 0x70 \<and> from_le_bytes data = (0 :: u32))"
  using assms write_register_status [of D t off "from_le_bytes data" t']
  by (auto simp: transport_write_def split: if_splits)

theorem transport_status_step_witness:
  "\<exists>t'. transport_write demo_ops (demo_transport False) 0x70 [1, 0, 0, 0] = Some t' \<and> t_status t' = 1 \<and>
    status_move (t_status (demo_transport False)) 1 False"
proof -
  have "from_le_bytes [1, 0, 0, 0] = (1 :: u32)" by code_simp
  moreover from this have r: "transport_write demo_ops (demo_transport False) 0x70 [1, 0, 0, 0] =
      Some ((demo_transport False)\<lparr>t_status := 1\<rparr>)"
    by (simp add: transport_write_def write_register_def set_status_def is_valid_transition_iff
        device_status_defs demo_transport_def transport_new_def)
  ultimately show ?thesis
    using transport_status_step [OF r] by simp
qed

text \<open>
  C27. Activation happens at most once: from a transport whose device is active, no sequence of
  guest writes, resets and re-initialisations included, ever runs the device's \<open>activate\<close>
  again (replacing it by any other function gives the same run).
\<close>

theorem activate_at_most_once:
  assumes "virtio_device D" "vd_is_activated D (t_device t)"
  shows "transport_run (D\<lparr>vd_activate := f\<rparr>) t ws = transport_run D t ws"
  using virtio_device.activated_run [OF assms] .

theorem activate_at_most_once_witness:
  "transport_run (demo_ops\<lparr>vd_activate := \<lambda>d w. (d, Inl ActivateOther)\<rparr>)
      (transport_new flush_device flush_memory (irq_line_new [] (IntId 48))) (reg_write 0x70 0 # driver_init) =
    transport_run demo_ops
      (transport_new flush_device flush_memory (irq_line_new [] (IntId 48))) (reg_write 0x70 0 # driver_init)"
  by (rule activate_at_most_once [OF block.virtio_device_axioms])
    (simp add: block_device_ops_def transport_new_def flush_device_def)

text \<open>
  C28. A live device is shielded: once DRIVER_OK is set, no write but a reset changes what the
  driver configured of any queue (size, ready flag, ring addresses), and a write to the
  configuration space changes nothing at all.
\<close>

theorem live_device_frozen:
  assumes "virtio_device D" "t_status t AND DRIVER_OK \<noteq> 0"
    and "off \<noteq> 0x70 \<or> from_le_bytes data \<noteq> (0 :: u32)"
    and "transport_write D t off data = Some t'"
  shows "map queue_config (vd_queues D (t_device t')) = map queue_config (vd_queues D (t_device t)) \<and>
    (0x100 \<le> off \<longrightarrow> t' = t)"
proof -
  have "\<not> (off \<le> 0xFF \<and> 0x100 \<le> off)" by (simp add: word_le_nat_alt)
  then show ?thesis
    using assms virtio_device.live_write_register [OF assms(1,2)]
    by (auto simp: transport_write_def accept_config_write_def split: if_splits)
qed

theorem live_device_frozen_witness:
  "\<exists>t t'. t_status t = 15 \<and> transport_write demo_ops t 0x38 [1, 0, 0, 0] = Some t' \<and>
    map queue_config (vd_queues demo_ops (t_device t')) = map queue_config (vd_queues demo_ops (t_device t))"
proof -
  let ?t = "(transport_new flush_device flush_memory (irq_line_new [] (IntId 48)))\<lparr>t_status := 15\<rparr>"
  have "from_le_bytes [1, 0, 0, 0] = (1 :: u32)" by code_simp
  then have r: "transport_write demo_ops ?t 0x38 [1, 0, 0, 0] = Some ?t"
    by (simp add: transport_write_def write_register_def update_queue_field_def DRIVER_OK_def)
  have "t_status ?t AND DRIVER_OK \<noteq> 0" by (simp add: DRIVER_OK_def)
  from live_device_frozen [OF block.virtio_device_axioms this _ r] r show ?thesis
    by (intro exI [of _ ?t]) simp
qed

text \<open>
  C6. A read-only drive stays as it is: whatever sequence of register writes a guest issues,
  with whatever it has put in its memory, a block device whose backend was opened read-only
  has the same contents afterwards, for every backend that meets the backend contract.
\<close>

theorem read_only_drive_unchanged:
  assumes "block_backend B disk" "bb_read_only B (bd_backend d)"
    and "transport_run (block_device_ops B M G) (transport_new d m irq) ws = Some t"
  shows "disk (bd_backend (t_device t)) = disk (bd_backend d)"
  using device_invariant.P_transport_run
    [OF block_backend.read_only_invariant [OF assms(1), of M G "disk (bd_backend d)"] _ assms(3)] assms(2)
  by (simp add: transport_new_def)

theorem read_only_drive_unchanged_witness:
  "\<exists>t. transport_run demo_ops (demo_transport True) driver_init = Some t \<and>
    hf_content (sf_file (bd_backend (t_device t))) = replicate 8 9"
proof -
  have ro: "bb_read_only sync_file_backend (bd_backend (demo_drive True))" by code_simp
  obtain t where t: "transport_run demo_ops (transport_new (demo_drive True) flush_memory (irq_line_new [] (IntId 48))) driver_init = Some t"
    by (simp add: driver_init_def write_register_def set_status_def is_valid_transition_iff
      device_status_defs activate_device_def transport_new_def demo_drive_def
      block_device_new_def Let_def block_device_ops_def block_activate_def)
  from read_only_drive_unchanged [OF sync.block_backend_axioms ro t] t show ?thesis
    by (auto simp: demo_transport_def demo_drive_def block_device_new_def Let_def demo_disk_def)
qed

end
