(* ===== verification/Stream_Devices.thy ===== *)
theory Stream_Devices
  imports Device_Core
begin

text \<open>
  The entropy source (\<open>src/crates/virtio/src/devices/rng.rs\<close>), the console
  (\<open>console.rs\<close>) and the boot timer (\<open>boot_timer.rs\<close>).

  The entropy source of the host is the function \<open>fill\<close>: given the state of the source and a
  length it returns the next bytes. The console's sink is a writer \<open>write_all\<close> over a sink
  state. The monotonic clock of the boot timer is an argument of the read.
\<close>

subsection \<open>virtio-rng\<close>

definition RNG_QUEUE_MAX_SIZE :: u16 where "RNG_QUEUE_MAX_SIZE = 256"

record 'e rng_device = virtio_core +
  rd_source :: 'e

definition rng_with_source :: "'e \<Rightarrow> 'e rng_device" where
  "rng_with_source source =
     \<lparr>vc_avail = 0, vc_acked = 0, vc_queues = [queue_new RNG_QUEUE_MAX_SIZE],
      vc_attached = False, vc_activated = False, rd_source = source\<rparr>"

fun rng_fill_loop ::
  "('e \<Rightarrow> nat \<Rightarrow> 'e \<times> bytes) \<Rightarrow> 'm guest_memory_ops \<Rightarrow> 'e \<Rightarrow> 'm \<Rightarrow> descriptor list \<Rightarrow> u32
    \<Rightarrow> ('e \<times> 'm) \<times> u32" where
  "rng_fill_loop fill M source m [] bytes_written = ((source, m), bytes_written)"
| "rng_fill_loop fill M source m (desc # descs) bytes_written =
     (if d_flags desc AND VIRTQ_DESC_F_WRITE = 0
      then rng_fill_loop fill M source m descs bytes_written
      else case fill source (unat (d_len desc)) of
        (source1, buf) \<Rightarrow>
          (case gm_write M m (d_addr desc) buf of
             Inl _ \<Rightarrow> ((source1, m), bytes_written)
           | Inr m1 \<Rightarrow> rng_fill_loop fill M source1 m1 descs (saturating_add bytes_written (d_len desc))))"

definition rng_handler ::
  "('e \<Rightarrow> nat \<Rightarrow> 'e \<times> bytes) \<Rightarrow> 'm guest_memory_ops \<Rightarrow> ('e, 'm) chain_handler" where
  "rng_handler fill M source m chain =
     (case chain of
        Inl _ \<Rightarrow> ((source, m), Give_Up)
      | Inr descs \<Rightarrow>
          (case rng_fill_loop fill M source m descs 0 of (sm, bytes_written) \<Rightarrow> (sm, Reply bytes_written)))"

definition rng_process_queue ::
  "('e \<Rightarrow> nat \<Rightarrow> 'e \<times> bytes) \<Rightarrow> 'm guest_memory_ops \<Rightarrow> 'g gic_ops \<Rightarrow> 'e rng_device
    \<Rightarrow> ('m, 'g) virtio_world \<Rightarrow> u16 \<Rightarrow> ('e rng_device \<times> ('m, 'g) virtio_world) option" where
  "rng_process_queue fill M G self w queue_index =
     (if queue_index \<noteq> 0 then Some (self, w)
      else drain_queue M G (rng_handler fill M) rd_source (\<lambda>s d. d\<lparr>rd_source := s\<rparr>) 0 self w)"

definition rng_device_ops ::
  "('e \<Rightarrow> nat \<Rightarrow> 'e \<times> bytes) \<Rightarrow> 'm guest_memory_ops \<Rightarrow> 'g gic_ops
    \<Rightarrow> ('e rng_device, 'm, 'g) virtio_device_ops" where
  "rng_device_ops fill M G = core_device_ops RngDevice zero_config (rng_process_queue fill M G)"

text \<open>
  \<open>OsEntropy\<close>: the open \<open>/dev/urandom\<close>, a stream of bytes that \<open>read_exact\<close> consumes.
\<close>

definition os_entropy_fill :: "(nat \<Rightarrow> u8) \<Rightarrow> nat \<Rightarrow> (nat \<Rightarrow> u8) \<times> bytes" where
  "os_entropy_fill file n = (\<lambda>i. file (i + n), map file [0..<n])"

subsection \<open>virtio-console\<close>

definition CONSOLE_RX_QUEUE :: nat where "CONSOLE_RX_QUEUE = 0"

definition CONSOLE_TX_QUEUE :: nat where "CONSOLE_TX_QUEUE = 1"

definition CONSOLE_QUEUE_MAX_SIZE :: u16 where "CONSOLE_QUEUE_MAX_SIZE = 64"

datatype 'k console_sink = Discard | Writer 'k

record 'k console_device = virtio_core +
  cd_sink :: "'k console_sink"

definition console_new :: "'k console_sink \<Rightarrow> 'k console_device" where
  "console_new sink =
     \<lparr>vc_avail = 0, vc_acked = 0,
      vc_queues = [queue_new CONSOLE_QUEUE_MAX_SIZE, queue_new CONSOLE_QUEUE_MAX_SIZE],
      vc_attached = False, vc_activated = False, cd_sink = sink\<rparr>"

fun sink_write :: "('k \<Rightarrow> bytes \<Rightarrow> 'k) \<Rightarrow> 'k console_sink \<Rightarrow> bytes \<Rightarrow> 'k console_sink" where
  "sink_write write_all Discard buf = Discard"
| "sink_write write_all (Writer k) buf = Writer (write_all k buf)"

fun console_tx_loop ::
  "('k \<Rightarrow> bytes \<Rightarrow> 'k) \<Rightarrow> 'm guest_memory_ops \<Rightarrow> 'm \<Rightarrow> 'k console_sink \<Rightarrow> descriptor list \<Rightarrow> u32
    \<Rightarrow> 'k console_sink \<times> u32" where
  "console_tx_loop write_all M m sink [] written = (sink, written)"
| "console_tx_loop write_all M m sink (desc # descs) written =
     (if is_write_only desc then console_tx_loop write_all M m sink descs written
      else if unat (d_len desc) = 0 then console_tx_loop write_all M m sink descs written
      else case gm_read M m (d_addr desc) (unat (d_len desc)) of
        Inl _ \<Rightarrow> console_tx_loop write_all M m sink descs written
      | Inr buf \<Rightarrow>
          console_tx_loop write_all M m (sink_write write_all sink buf) descs (saturating_add written (d_len desc)))"

definition console_tx_handler ::
  "('k \<Rightarrow> bytes \<Rightarrow> 'k) \<Rightarrow> 'm guest_memory_ops \<Rightarrow> ('k console_sink, 'm) chain_handler" where
  "console_tx_handler write_all M sink m chain =
     (case chain of
        Inl _ \<Rightarrow> ((sink, m), Give_Up)
      | Inr descs \<Rightarrow>
          (case console_tx_loop write_all M m sink descs 0 of (sink', written) \<Rightarrow> ((sink', m), Reply written)))"

definition console_drain_tx ::
  "('k \<Rightarrow> bytes \<Rightarrow> 'k) \<Rightarrow> 'm guest_memory_ops \<Rightarrow> 'g gic_ops \<Rightarrow> 'k console_device
    \<Rightarrow> ('m, 'g) virtio_world \<Rightarrow> ('k console_device \<times> ('m, 'g) virtio_world) option" where
  "console_drain_tx write_all M G =
     drain_queue M G (console_tx_handler write_all M) cd_sink (\<lambda>s d. d\<lparr>cd_sink := s\<rparr>) CONSOLE_TX_QUEUE"

definition console_process_queue ::
  "('k \<Rightarrow> bytes \<Rightarrow> 'k) \<Rightarrow> 'm guest_memory_ops \<Rightarrow> 'g gic_ops \<Rightarrow> 'k console_device
    \<Rightarrow> ('m, 'g) virtio_world \<Rightarrow> u16 \<Rightarrow> ('k console_device \<times> ('m, 'g) virtio_world) option" where
  "console_process_queue write_all M G self w queue_index =
     (if unat queue_index = CONSOLE_TX_QUEUE then console_drain_tx write_all M G self w else Some (self, w))"

definition console_device_ops ::
  "('k \<Rightarrow> bytes \<Rightarrow> 'k) \<Rightarrow> 'm guest_memory_ops \<Rightarrow> 'g gic_ops
    \<Rightarrow> ('k console_device, 'm, 'g) virtio_device_ops" where
  "console_device_ops write_all M G =
     core_device_ops ConsoleDevice zero_config (console_process_queue write_all M G)"

subsection \<open>The boot timer\<close>

text \<open>Times are in microseconds; \<open>now\<close> is the clock at the moment of the read.\<close>

record boot_timer =
  bt_avail :: u64
  bt_acked :: u64
  bt_queues :: "queue list"
  bt_boot_start :: nat
  bt_activated :: bool

definition boot_timer_new :: "nat \<Rightarrow> boot_timer" where
  "boot_timer_new now =
     \<lparr>bt_avail = 0, bt_acked = 0, bt_queues = [], bt_boot_start = now, bt_activated = False\<rparr>"

definition elapsed_us :: "nat \<Rightarrow> boot_timer \<Rightarrow> u32" where
  "elapsed_us now self = try_from_nat_or_max (min (now - bt_boot_start self) (2 ^ 32 - 1))"

definition boot_timer_read_config :: "nat \<Rightarrow> boot_timer \<Rightarrow> u64 \<Rightarrow> bytes \<Rightarrow> bytes" where
  "boot_timer_read_config now self offset data =
     (if offset = 0 \<and> length data = 4 then to_le_bytes 4 (elapsed_us now self)
      else replicate (length data) 0)"

definition boot_timer_ops :: "nat \<Rightarrow> (boot_timer, 'm, 'g) virtio_device_ops" where
  "boot_timer_ops now =
     \<lparr>vd_device_type = (\<lambda>_. BootTimerDevice),
      vd_avail_features = bt_avail,
      vd_acked_features = bt_acked,
      vd_set_acked_features = (\<lambda>self v. self\<lparr>bt_acked := v\<rparr>),
      vd_queues = bt_queues,
      vd_set_queues = (\<lambda>self qs. self\<lparr>bt_queues := qs\<rparr>),
      vd_read_config = boot_timer_read_config now,
      vd_write_config = (\<lambda>self _ _. self),
      vd_activate = (\<lambda>self _. (self\<lparr>bt_activated := True\<rparr>, Inr ())),
      vd_is_activated = bt_activated,
      vd_process_queue = (\<lambda>self w _. Some (self, w))\<rparr>"

subsection \<open>The devices meet the contract of the trait\<close>

lemma rng_same: "rng_process_queue fill M G d w i = Some (d', w') \<Longrightarrow> core_same d d'"
  by (auto simp: rng_process_queue_def core_same_def [of _ "rd_source_update _ _"] split: if_splits
      elim!: drain_queue_same)

lemma console_same: "console_process_queue write_all M G d w i = Some (d', w') \<Longrightarrow> core_same d d'"
  by (auto simp: console_process_queue_def console_drain_tx_def core_same_def [of _ "cd_sink_update _ _"]
      split: if_splits elim!: drain_queue_same)

interpretation rng: virtio_device "rng_device_ops fill M G" for fill M G
  unfolding rng_device_ops_def by (rule core_device_ops_virtio) (auto simp: zero_config_def dest: rng_same)

interpretation console: virtio_device "console_device_ops write_all M G" for write_all M G
  unfolding console_device_ops_def by (rule core_device_ops_virtio) (auto simp: zero_config_def dest: console_same)

interpretation boot_timer: virtio_device "boot_timer_ops now" for now
  by unfold_locales (auto simp: boot_timer_ops_def boot_timer_read_config_def)

subsection \<open>What the entropy device writes\<close>

text \<open>The contract of \<open>EntropySource::fill\<close>: the whole buffer is filled.\<close>

locale entropy_source = guest_memory M
  for M :: "'m guest_memory_ops" +
  fixes fill :: "'e \<Rightarrow> nat \<Rightarrow> 'e \<times> bytes"
  assumes fill_length: "fill s n = (s', bs) \<Longrightarrow> length bs = n"
begin

lemma rng_fill_frame:
  "rng_fill_loop fill M s m ds w = ((s', m'), w') \<Longrightarrow>
    list_all (\<lambda>d. desc_disjoint d a n) (device_buffers ds) \<Longrightarrow> gm_read M m' a n = gm_read M m a n"
proof (induction ds arbitrary: s m w)
  case (Cons d ds)
  have other: "gm_read M m1 a n = gm_read M m a n"
    if "is_write_only d" "fill s (unat (d_len d)) = (s1, buf)" "gm_write M m (d_addr d) buf = Inr m1" for s1 buf m1
    using that Cons.prems(2) fill_length [OF that(2)] by (intro read_other [OF that(3)]) (simp add: desc_disjoint_def)
  from Cons.prems Cons.IH other show ?case
    by (auto simp: is_write_only_def split: if_splits sum.splits prod.splits)
qed simp

lemma rng_fill_domain:
  "rng_fill_loop fill M s m ds w = ((s', m'), w') \<Longrightarrow> isl (gm_read M m' a n) = isl (gm_read M m a n)"
  by (induction ds arbitrary: s m w)
    (auto simp: write_keeps_domain split: if_splits sum.splits prod.splits)

end

text \<open>What the source yields for a sequence of requests.\<close>

fun draws :: "('e \<Rightarrow> nat \<Rightarrow> 'e \<times> bytes) \<Rightarrow> 'e \<Rightarrow> nat list \<Rightarrow> bytes" where
  "draws fill s [] = []"
| "draws fill s (n # ns) = (case fill s n of (s1, bs) \<Rightarrow> bs @ draws fill s1 ns)"

context entropy_source
begin

lemma rng_fill_exact_loop:
  assumes "rng_fill_loop fill M s m ds w = ((s', m'), w')" "bufs_disjoint (device_buffers ds)"
    and "list_all (\<lambda>d. \<not> isl (gm_read M m (d_addr d) (unat (d_len d)))) (device_buffers ds)"
  shows "gather M m' (device_buffers ds) = Inr (draws fill s (map (\<lambda>d. unat (d_len d)) (device_buffers ds))) \<and>
    unat w' = min (unat w + total_len (device_buffers ds)) (2 ^ 32 - 1)"
  using assms
proof (induction ds arbitrary: s m w)
  case Nil
  have "unat w \<le> 4294967295" using unat_lt32 [of w] by linarith
  with Nil show ?case by simp
next
  case (Cons d ds)
  show ?case
  proof (cases "is_write_only d")
    case False
    with Cons show ?thesis by (simp add: is_write_only_def)
  next
    case True
    obtain s1 buf where f: "fill s (unat (d_len d)) = (s1, buf)" by (metis surj_pair)
    have len: "length buf = unat (d_len d)" using f by (rule fill_length)
    have "\<not> isl (gm_read M m (d_addr d) (length buf))" using Cons.prems(3) True len by simp
    then obtain m1 where w: "gm_write M m (d_addr d) buf = Inr m1"
      using write_ok_iff_read_ok [of m "d_addr d" buf] by (cases "gm_write M m (d_addr d) buf") auto
    have rest: "rng_fill_loop fill M s1 m1 ds (saturating_add w (d_len d)) = ((s', m'), w')"
      using Cons.prems(1) True f w by (simp add: is_write_only_def)
    have acc: "list_all (\<lambda>d. \<not> isl (gm_read M m1 (d_addr d) (unat (d_len d)))) (device_buffers ds)"
      using Cons.prems(3) True write_keeps_domain [OF w] by (simp add: list_all_iff)
    have "gm_read M m' (d_addr d) (unat (d_len d)) = gm_read M m1 (d_addr d) (unat (d_len d))"
      using Cons.prems(2) True by (intro rng_fill_frame [OF rest]) simp
    then have "gm_read M m' (d_addr d) (unat (d_len d)) = Inr buf" using read_back [OF w] len by simp
    with Cons.IH [OF rest _ acc] Cons.prems(2) True f show ?thesis
      by (simp add: unat_saturating_add)
  qed
qed

end

sublocale entropy_source \<subseteq> served: answering_server M "rng_handler fill M"
proof (unfold_locales, goal_cases)
  case (1 s m r s' m' v a n)
  then show ?case
    by (cases r) (auto simp: rng_handler_def list_all_iff split: prod.splits intro: rng_fill_frame)
next
  case (2 s m r s' m' v a n)
  then show ?case
    by (cases r) (auto simp: rng_handler_def split: prod.splits dest: rng_fill_domain)
next
  case (3 s m ds)
  then show ?case by (simp add: rng_handler_def split: prod.split)
qed

context entropy_source
begin

lemmas rng_serve_completes = served.serve_queue_completes

end

interpretation slice_os: entropy_source slice_guest_memory os_entropy_fill
  by unfold_locales (auto simp: os_entropy_fill_def)

subsection \<open>What the console transmits\<close>

text \<open>The writes one chain causes: its non-empty readable driver buffers, in order.\<close>

fun console_writes :: "'m guest_memory_ops \<Rightarrow> 'm \<Rightarrow> descriptor list \<Rightarrow> bytes list" where
  "console_writes M m [] = []"
| "console_writes M m (d # ds) =
     (if is_write_only d \<or> d_len d = 0 then console_writes M m ds
      else case gm_read M m (d_addr d) (unat (d_len d)) of
        Inl _ \<Rightarrow> console_writes M m ds
      | Inr buf \<Rightarrow> buf # console_writes M m ds)"

lemma console_tx_loop_writes:
  "fst (console_tx_loop write_all M m sink ds w) = foldl (sink_write write_all) sink (console_writes M m ds)"
  by (induction ds arbitrary: sink w) (auto simp: unat_eq_0 split: sum.split)

lemma console_tx_cong:
  "(\<And>d. d \<in> set ds \<Longrightarrow> gm_read M m' (d_addr d) (unat (d_len d)) = gm_read M m (d_addr d) (unat (d_len d))) \<Longrightarrow>
    console_tx_loop write_all M m' sink ds w = console_tx_loop write_all M m sink ds w"
  by (induction ds arbitrary: sink w) (auto split: sum.split)

lemma console_reading_server:
  assumes "guest_memory M"
  shows "reading_server M (console_tx_handler write_all M)"
proof (rule reading_server.intro [OF assms], unfold_locales, goal_cases)
  case (1 s m r s' m' v)
  then show ?case by (auto simp: console_tx_handler_def split: sum.splits prod.splits)
next
  case (2 m m' ds s s' v)
  then show ?case
    by (auto simp: console_tx_handler_def console_tx_cong [OF sources_same_read [OF 2(1)]] split: prod.splits)
next
  case (3 s m ds)
  then show ?case by (simp add: console_tx_handler_def split: prod.split)
qed

lemma console_serve_chains:
  "serve_chains (console_tx_handler write_all M) m sink dss =
    (foldl (sink_write write_all) sink (concat (map (console_writes M m) dss)), length dss)"
proof (induction dss arbitrary: sink)
  case (Cons ds dss)
  obtain sink1 w where l: "console_tx_loop write_all M m sink ds 0 = (sink1, w)" by (metis surj_pair)
  then have "sink1 = foldl (sink_write write_all) sink (console_writes M m ds)"
    using console_tx_loop_writes [of write_all M m sink ds 0] by simp
  with l Cons.IH [of sink1] show ?case by (simp add: console_tx_handler_def)
qed simp

end
