(* ===== verification/Packet_Queues.thy ===== *)
theory Packet_Queues
  imports Device_Core
begin

text \<open>
  The packet paths the network and vsock frontends share (\<open>net.rs\<close> and \<open>vsock.rs\<close> under
  \<open>src/crates/virtio/src/devices/\<close> repeat the same loops): gathering the driver's buffers of
  a transmit chain, scattering a packet over the device-writable buffers of a receive chain,
  and delivering a list of packets into the receive queue.
\<close>

subsection \<open>Gathering a transmit chain\<close>

fun read_buffers :: "'m guest_memory_ops \<Rightarrow> 'm \<Rightarrow> descriptor list \<Rightarrow> bytes" where
  "read_buffers M m [] = []"
| "read_buffers M m (desc # descs) =
     (if is_write_only desc then read_buffers M m descs
      else case gm_read M m (d_addr desc) (unat (d_len desc)) of
        Inl _ \<Rightarrow> read_buffers M m descs
      | Inr buf \<Rightarrow> buf @ read_buffers M m descs)"

lemma read_buffers_gather:
  "gather M m (driver_buffers ds) = Inr bs \<Longrightarrow> read_buffers M m ds = bs"
  by (induction ds arbitrary: bs) (auto split: sum.splits if_splits)

lemma read_buffers_cong:
  "sources_same M m m' ds \<Longrightarrow> read_buffers M m' ds = read_buffers M m ds"
  by (induction ds) (auto simp: sources_same_def split: sum.splits)

subsection \<open>Scattering a packet over a receive chain\<close>

fun scatter ::
  "'m guest_memory_ops \<Rightarrow> 'm \<Rightarrow> bytes \<Rightarrow> nat \<Rightarrow> descriptor list \<Rightarrow> u32 \<Rightarrow> 'm \<times> u32" where
  "scatter M m wire wire_off [] written = (m, written)"
| "scatter M m wire wire_off (desc # descs) written =
     (if \<not> is_write_only desc then scatter M m wire wire_off descs written
      else let len = min (unat (d_len desc)) (length wire - wire_off)
      in if len = 0 then scatter M m wire wire_off descs written
         else case gm_write M m (d_addr desc) (slice wire_off len wire) of
           Inl _ \<Rightarrow> (m, written)
         | Inr m1 \<Rightarrow>
             let wire_off' = wire_off + len; written' = saturating_add written (of_nat len)
             in if wire_off' \<ge> length wire then (m1, written')
                else scatter M m1 wire wire_off' descs written')"

fun deliver_loop ::
  "'m guest_memory_ops \<Rightarrow> ('p \<Rightarrow> bytes) \<Rightarrow> queue \<Rightarrow> 'm \<Rightarrow> bool \<Rightarrow> 'p list \<Rightarrow> queue \<times> 'm \<times> bool \<times> 'p option" where
  "deliver_loop M wire q m completed [] = (q, m, completed, None)"
| "deliver_loop M wire q m completed (p # ps) =
     (case pop_avail M m q of
        (q1, Inl _) \<Rightarrow> (q1, m, completed, None)
      | (q1, Inr None) \<Rightarrow> (q1, m, completed, Some p)
      | (q1, Inr (Some chain)) \<Rightarrow>
          (case collect M m chain of
             Inl _ \<Rightarrow> (q1, m, completed, None)
           | Inr descs \<Rightarrow>
               (case scatter M m (wire p) 0 descs 0 of
                  (m1, written) \<Rightarrow>
                    (case push_used M m1 q1 (dc_head_index chain) written of
                       ((m2, q2), Inl _) \<Rightarrow> (q2, m2, completed, None)
                     | ((m2, q2), Inr _) \<Rightarrow> deliver_loop M wire q2 m2 True ps))))"

lemma deliver_loop_config:
  "deliver_loop M wire q m c ps = (q', m', c', r) \<Longrightarrow> queue_config q' = queue_config q"
  by (induction M wire q m c ps rule: deliver_loop.induct)
    (auto split: prod.splits sum.splits option.splits dest!: pop_avail_config push_used_config)

lemma deliver_loop_full:
  assumes "is_valid q" "avail_idx M m q = Inr (q_next_avail_idx q)"
  shows "deliver_loop M wire q m c (p # ps) = (q, m, c, Some p)"
  using assms by (simp add: pop_avail_def)

text \<open>The first \<open>n\<close> bytes of a list of buffers.\<close>

fun clip :: "nat \<Rightarrow> descriptor list \<Rightarrow> descriptor list" where
  "clip n [] = []"
| "clip n (d # ds) =
     (let l = min (unat (d_len d)) n
      in if l = 0 then clip n ds else d\<lparr>d_len := of_nat l\<rparr> # clip (n - l) ds)"

lemma clip_0 [simp]: "clip 0 ds = []"
  by (induction ds) auto

context guest_memory
begin

lemma scatter_frame:
  "scatter M m wire off ds w = (m', w') \<Longrightarrow>
    list_all (\<lambda>d. desc_disjoint d a n) (device_buffers ds) \<Longrightarrow> gm_read M m' a n = gm_read M m a n"
proof (induction ds arbitrary: m off w)
  case (Cons d ds)
  have other: "gm_read M m1 a n = gm_read M m a n"
    if "is_write_only d" "gm_write M m (d_addr d) (slice off (min (unat (d_len d)) (length wire - off)) wire) = Inr m1" for m1
    using that Cons.prems(2) by (intro read_other [OF that(2)]) (auto simp: desc_disjoint_def intro: disjoint_ranges_shorter)
  from Cons show ?case by (auto simp: Let_def other split: if_splits sum.splits)
qed simp

lemma scatter_domain:
  "scatter M m wire off ds w = (m', w') \<Longrightarrow> isl (gm_read M m' a n) = isl (gm_read M m a n)"
  by (induction ds arbitrary: m off w)
    (auto simp: Let_def write_keeps_domain split: if_splits sum.splits)

text \<open>
  The used length is honest: whatever the outcome, the driver finds exactly that many bytes of
  the packet, in order, at the start of its buffers.
\<close>

lemma scatter_exact:
  assumes "scatter M m wire off ds w = (m', w')" "bufs_disjoint (device_buffers ds)"
    and "off \<le> length wire" "unat w + (length wire - off) < 2 ^ 32"
  shows "\<exists>k \<le> length wire - off. unat w' = unat w + k \<and>
    gather M m' (clip k (device_buffers ds)) = Inr (slice off k wire)"
  using assms
proof (induction ds arbitrary: m off w)
  case Nil
  then show ?case by (simp add: slice_def)
next
  case (Cons d ds)
  let ?l = "min (unat (d_len d)) (length wire - off)"
  have bd: "bufs_disjoint (device_buffers ds)" using Cons.prems(2) by (cases "is_write_only d") auto
  show ?case
  proof (cases "is_write_only d \<and> ?l \<noteq> 0")
    case False
    then have "scatter M m wire off ds w = (m', w')" using Cons.prems(1) by (auto simp: Let_def split: if_splits)
    from Cons.IH [OF this bd Cons.prems(3,4)] obtain k where k: "k \<le> length wire - off" "unat w' = unat w + k"
      "gather M m' (clip k (device_buffers ds)) = Inr (slice off k wire)" by blast
    moreover have "clip k (device_buffers (d # ds)) = clip k (device_buffers ds)"
      using False k(1) by (auto simp: Let_def min_def split: if_splits)
    ultimately show ?thesis by auto
  next
    case True
    let ?p = "slice off ?l wire"
    show ?thesis
    proof (cases "gm_write M m (d_addr d) ?p")
      case (Inl e)
      with Cons.prems(1) True have "w' = w" by (simp add: Let_def split: if_splits)
      then show ?thesis by (intro exI [of _ 0]) (simp add: slice_def)
    next
      case (Inr m1)
      have len: "length ?p = ?l" using Cons.prems(3) by simp
      have l32: "?l < 2 ^ 32" using Cons.prems(4) by simp
      have uw: "unat (saturating_add w (of_nat ?l)) = unat w + ?l"
        using Cons.prems(4) l32 by (simp add: unat_saturating_add unsigned_of_nat take_bit_nat_eq_self)
      have ul: "unat (of_nat ?l :: u32) = ?l" using l32 by (simp add: unsigned_of_nat take_bit_nat_eq_self)
      have here: "gm_read M m1 (d_addr d) ?l = Inr ?p" using read_back [OF Inr] len by simp
      show ?thesis
      proof (cases "length wire \<le> off + ?l")
        case last: True
        then have r: "m' = m1" "w' = saturating_add w (of_nat ?l)"
          using Cons.prems(1) True Inr by (auto simp: Let_def)
        then show ?thesis
          using True here uw ul by (intro exI [of _ ?l]) (simp add: Let_def slice_def)
      next
        case more: False
        then have l: "?l = unat (d_len d)" by auto
        have rest: "scatter M m1 wire (off + ?l) ds (saturating_add w (of_nat ?l)) = (m', w')"
          using Cons.prems(1) True Inr more by (simp add: Let_def split: if_splits)
        obtain k where k: "k \<le> length wire - (off + ?l)" "unat w' = unat w + ?l + k"
          "gather M m' (clip k (device_buffers ds)) = Inr (slice (off + ?l) k wire)"
          using Cons.IH [OF rest bd] Cons.prems(4) more uw by auto
        have "gm_read M m' (d_addr d) ?l = gm_read M m1 (d_addr d) ?l"
          using Cons.prems(2) True l by (intro scatter_frame [OF rest]) auto
        then have "gather M m' (clip (?l + k) (device_buffers (d # ds))) = Inr (?p @ slice (off + ?l) k wire)"
          using True here k(3) l ul by (simp add: Let_def)
        moreover have "?p @ slice (off + ?l) k wire = slice off (?l + k) wire" by (simp add: slice_append)
        ultimately show ?thesis
          using k(1,2) more by (intro exI [of _ "?l + k"]) auto
      qed
    qed
  qed
qed

end

end
