(* ===== verification/Mmds_Pdu.thy ===== *)
theory Mmds_Pdu
  imports Squib_Prelude
begin

text \<open>
  The protocol data units of the metadata service, \<open>src/crates/mmds/src/pdu.rs\<close>,
  \<open>pdu/ipv4.rs\<close> and \<open>pdu/tcp.rs\<close>: the internet checksum, Ethernet and ARP, IPv4 headers and
  TCP segments, each with its parser and its serialiser. A fixed-size array \<open>[u8; n]\<close> is a
  byte list; where a statement needs the length it says so.
  Theory \<open>Mmds_Wire\<close> has what is proved of them.
\<close>

type_synonym mac = bytes
type_synonym ipv4_addr = bytes

definition ETHER_HDR_LEN :: nat where "ETHER_HDR_LEN = 14"
definition ETHERTYPE_IPV4 :: u16 where "ETHERTYPE_IPV4 = 0x0800"
definition ETHERTYPE_ARP :: u16 where "ETHERTYPE_ARP = 0x0806"
definition ARP_PACKET_LEN :: nat where "ARP_PACKET_LEN = 28"
definition ARP_HTYPE_ETHER :: u16 where "ARP_HTYPE_ETHER = 1"
definition ARP_PTYPE_IPV4 :: u16 where "ARP_PTYPE_IPV4 = 0x0800"
definition ARP_HLEN :: u8 where "ARP_HLEN = 6"
definition ARP_PLEN :: u8 where "ARP_PLEN = 4"
definition ARP_OP_REQUEST :: u16 where "ARP_OP_REQUEST = 1"
definition ARP_OP_REPLY :: u16 where "ARP_OP_REPLY = 2"

datatype pdu_error = PduTooShort | PduUnsupported string | PduBadChecksum

subsection \<open>The internet checksum\<close>

fun sum_words :: "u32 \<Rightarrow> bytes \<Rightarrow> u32" where
  "sum_words acc (a # b # bs) = sum_words (acc + ucast (from_be_bytes [a, b] :: u16)) bs"
| "sum_words acc [a] = acc + ucast (from_be_bytes [a, 0] :: u16)"
| "sum_words acc [] = acc"

lemma fold_carry_measure:
  fixes s :: u32
  assumes "drop_bit 16 s \<noteq> 0"
  shows "unat ((s AND 0xFFFF) + drop_bit 16 s) = unat s mod 65536 + unat s div 65536"
    and "unat s mod 65536 + unat s div 65536 < unat s"
proof -
  have m: "s AND 0xFFFF = take_bit 16 s"
    by (simp add: take_bit_eq_mask mask_eq_exp_minus_1)
  have d: "unat (drop_bit 16 s) = unat s div 65536"
    by (simp only: unsigned_drop_bit_eq) (simp add: drop_bit_eq_div take_bit_nat_eq_self)
  have t: "unat (s AND 0xFFFF) = unat s mod 65536"
    by (simp only: m unsigned_take_bit_eq) (simp add: take_bit_eq_mod)
  have "unat s div 65536 < 65536" using unat_lt32 [of s] by linarith
  then show "unat ((s AND 0xFFFF) + drop_bit 16 s) = unat s mod 65536 + unat s div 65536"
    by (simp add: unat_plus_nowrap d t)
  have "unat s div 65536 \<noteq> 0" using assms d by (metis unat_eq_zero)
  then show "unat s mod 65536 + unat s div 65536 < unat s"
    using div_mult_mod_eq [of "unat s" 65536] by linarith
qed

function fold_carry :: "u32 \<Rightarrow> u32" where
  "fold_carry s =
     (if drop_bit 16 s \<noteq> 0 then fold_carry ((s AND 0xFFFF) + drop_bit 16 s) else s)"
  by pat_completeness auto

termination fold_carry
  by (relation "measure unat") (use fold_carry_measure in auto)

declare fold_carry.simps [simp del]

definition ones_complement_sum :: "bytes \<Rightarrow> u16" where
  "ones_complement_sum bs = NOT (ucast (fold_carry (sum_words 0 bs)))"

subsection \<open>Ethernet and ARP\<close>

record ethernet_header =
  eth_dst :: mac
  eth_src :: mac
  eth_ethertype :: u16

definition ethernet_parse :: "bytes \<Rightarrow> pdu_error + ethernet_header" where
  "ethernet_parse frame =
     (if length frame < ETHER_HDR_LEN then Inl PduTooShort
      else Inr \<lparr>eth_dst = slice 0 6 frame, eth_src = slice 6 6 frame,
                eth_ethertype = from_be_bytes [frame ! 12, frame ! 13]\<rparr>)"

definition ethernet_to_bytes :: "ethernet_header \<Rightarrow> bytes" where
  "ethernet_to_bytes self = eth_dst self @ eth_src self @ to_be_bytes 2 (eth_ethertype self)"

record arp_packet =
  arp_op :: u16
  arp_sender_mac :: mac
  arp_sender_ip :: ipv4_addr
  arp_target_mac :: mac
  arp_target_ip :: ipv4_addr

definition arp_parse :: "bytes \<Rightarrow> pdu_error + arp_packet" where
  "arp_parse arp_body =
     (if length arp_body < ARP_PACKET_LEN then Inl PduTooShort
      else let htype = from_be_bytes [arp_body ! 0, arp_body ! 1];
               ptype = from_be_bytes [arp_body ! 2, arp_body ! 3];
               hlen = arp_body ! 4; plen = arp_body ! 5;
               op = from_be_bytes [arp_body ! 6, arp_body ! 7]
           in if htype \<noteq> ARP_HTYPE_ETHER then Inl (PduUnsupported ''ARP htype is not Ethernet'')
              else if ptype \<noteq> ARP_PTYPE_IPV4 then Inl (PduUnsupported ''ARP ptype is not IPv4'')
              else if hlen \<noteq> ARP_HLEN \<or> plen \<noteq> ARP_PLEN then Inl (PduUnsupported ''ARP hlen/plen mismatch'')
              else Inr \<lparr>arp_op = op, arp_sender_mac = slice 8 6 arp_body,
                        arp_sender_ip = slice 14 4 arp_body, arp_target_mac = slice 18 6 arp_body,
                        arp_target_ip = slice 24 4 arp_body\<rparr>)"

definition arp_to_bytes :: "arp_packet \<Rightarrow> bytes" where
  "arp_to_bytes self =
     to_be_bytes 2 ARP_HTYPE_ETHER @ to_be_bytes 2 ARP_PTYPE_IPV4 @ [ARP_HLEN, ARP_PLEN] @
     to_be_bytes 2 (arp_op self) @ arp_sender_mac self @ arp_sender_ip self @
     arp_target_mac self @ arp_target_ip self"

definition build_arp_reply_frame :: "mac \<Rightarrow> ipv4_addr \<Rightarrow> mac \<Rightarrow> ipv4_addr \<Rightarrow> bytes" where
  "build_arp_reply_frame from_mac from_ip to_mac to_ip =
     ethernet_to_bytes \<lparr>eth_dst = to_mac, eth_src = from_mac, eth_ethertype = ETHERTYPE_ARP\<rparr> @
     arp_to_bytes \<lparr>arp_op = ARP_OP_REPLY, arp_sender_mac = from_mac, arp_sender_ip = from_ip,
                   arp_target_mac = to_mac, arp_target_ip = to_ip\<rparr>"

subsection \<open>IPv4\<close>

definition IPV4_HDR_LEN :: nat where "IPV4_HDR_LEN = 20"
definition DEFAULT_TTL :: u8 where "DEFAULT_TTL = 64"

datatype ip_protocol = ProtoIcmp | ProtoTcp | ProtoUdp

fun ip_protocol_wire :: "ip_protocol \<Rightarrow> u8" where
  "ip_protocol_wire ProtoIcmp = 1"
| "ip_protocol_wire ProtoTcp = 6"
| "ip_protocol_wire ProtoUdp = 17"

definition ip_protocol_from_wire :: "u8 \<Rightarrow> ip_protocol option" where
  "ip_protocol_from_wire v =
     (if v = 1 then Some ProtoIcmp else if v = 6 then Some ProtoTcp
      else if v = 17 then Some ProtoUdp else None)"

record ipv4_header =
  ip_version_ihl :: u8
  ip_tos :: u8
  ip_total_len :: u16
  ip_ident :: u16
  ip_flags_frag :: u16
  ip_ttl :: u8
  ip_protocol :: u8
  ip_checksum :: u16
  ip_src :: ipv4_addr
  ip_dst :: ipv4_addr

definition ipv4_parse :: "bytes \<Rightarrow> pdu_error + ipv4_header" where
  "ipv4_parse bs =
     (if length bs < IPV4_HDR_LEN then Inl PduTooShort
      else let version = drop_bit 4 (bs ! 0); ihl = bs ! 0 AND 0x0F
           in if version \<noteq> 4 then Inl (PduUnsupported ''IPv4: version != 4'')
              else if ihl \<noteq> 5 then Inl (PduUnsupported ''IPv4: header has options (IHL > 5)'')
              else let flags_frag = from_be_bytes [bs ! 6, bs ! 7]
                   in if flags_frag AND 0x2000 \<noteq> 0 \<or> flags_frag AND 0x1FFF \<noteq> 0
                      then Inl (PduUnsupported ''IPv4: fragmentation'')
                      else let hdr = \<lparr>ip_version_ihl = bs ! 0, ip_tos = bs ! 1,
                                 ip_total_len = from_be_bytes [bs ! 2, bs ! 3],
                                 ip_ident = from_be_bytes [bs ! 4, bs ! 5],
                                 ip_flags_frag = flags_frag, ip_ttl = bs ! 8, ip_protocol = bs ! 9,
                                 ip_checksum = from_be_bytes [bs ! 10, bs ! 11],
                                 ip_src = [bs ! 12, bs ! 13, bs ! 14, bs ! 15],
                                 ip_dst = [bs ! 16, bs ! 17, bs ! 18, bs ! 19]\<rparr>;
                               hdr_zero = (take IPV4_HDR_LEN bs)[10 := 0, 11 := 0]
                           in if ones_complement_sum hdr_zero \<noteq> ip_checksum hdr
                              then Inl PduBadChecksum
                              else Inr (hdr\<lparr>ip_checksum := 0\<rparr>))"

definition ipv4_build ::
  "ipv4_addr \<Rightarrow> ipv4_addr \<Rightarrow> ip_protocol \<Rightarrow> u16 \<Rightarrow> u16 \<Rightarrow> ipv4_header" where
  "ipv4_build src dst protocol payload_len ident =
     \<lparr>ip_version_ihl = push_bit 4 4 OR 5, ip_tos = 0,
      ip_total_len = saturating_add (of_nat IPV4_HDR_LEN) payload_len, ip_ident = ident,
      ip_flags_frag = 0x4000, ip_ttl = DEFAULT_TTL, ip_protocol = ip_protocol_wire protocol,
      ip_checksum = 0, ip_src = src, ip_dst = dst\<rparr>"

text \<open>The twenty bytes with a given checksum field.\<close>

definition ipv4_bytes_with :: "ipv4_header \<Rightarrow> u16 \<Rightarrow> bytes" where
  "ipv4_bytes_with self c =
     [ip_version_ihl self, ip_tos self] @ to_be_bytes 2 (ip_total_len self) @
     to_be_bytes 2 (ip_ident self) @ to_be_bytes 2 (ip_flags_frag self) @
     [ip_ttl self, ip_protocol self] @ to_be_bytes 2 c @ ip_src self @ ip_dst self"

definition ipv4_to_bytes :: "ipv4_header \<Rightarrow> bytes" where
  "ipv4_to_bytes self =
     (let out = ipv4_bytes_with self 0; checksum = ones_complement_sum out
      in overwrite 10 (to_be_bytes 2 checksum) out)"

definition ipv4_payload_len :: "ipv4_header \<Rightarrow> u16" where
  "ipv4_payload_len self = saturating_sub (ip_total_len self) (of_nat IPV4_HDR_LEN)"

subsection \<open>TCP\<close>

definition TCP_HDR_LEN :: nat where "TCP_HDR_LEN = 20"
definition TCP_FIN :: u8 where "TCP_FIN = push_bit 0 1"
definition TCP_SYN :: u8 where "TCP_SYN = push_bit 1 1"
definition TCP_RST :: u8 where "TCP_RST = push_bit 2 1"
definition TCP_PSH :: u8 where "TCP_PSH = push_bit 3 1"
definition TCP_ACK :: u8 where "TCP_ACK = push_bit 4 1"

lemmas tcp_flag_defs = TCP_FIN_def TCP_SYN_def TCP_RST_def TCP_PSH_def TCP_ACK_def

record tcp_header =
  tcp_src_port :: u16
  tcp_dst_port :: u16
  tcp_seq :: u32
  tcp_ack :: u32
  tcp_data_offset :: u8
  tcp_flags :: u8
  tcp_window :: u16
  tcp_checksum :: u16
  tcp_urgent :: u16
  tcp_mss :: "u16 option"

function tcp_options_mss :: "bytes \<Rightarrow> nat \<Rightarrow> nat \<Rightarrow> u16 option \<Rightarrow> u16 option" where
  "tcp_options_mss bs hdr_len i mss =
     (if \<not> i + 1 < hdr_len then mss
      else let kind = bs ! i
           in if kind = 0 then mss
              else if kind = 1 then tcp_options_mss bs hdr_len (i + 1) mss
              else if i + 1 \<ge> hdr_len then mss
              else let len = unat (bs ! (i + 1))
                   in if len < 2 \<or> i + len > hdr_len then mss
                      else tcp_options_mss bs hdr_len (i + len)
                             (if kind = 2 \<and> len = 4 \<and> i + 4 \<le> hdr_len
                              then Some (from_be_bytes [bs ! (i + 2), bs ! (i + 3)]) else mss))"
  by pat_completeness auto

termination tcp_options_mss
  by (relation "measure (\<lambda>(bs, hdr_len, i, mss). hdr_len - i)") auto

declare tcp_options_mss.simps [simp del]

text \<open>The bytes the checksum of a segment covers before the segment itself.\<close>

definition tcp_pseudo_header :: "ipv4_addr \<Rightarrow> ipv4_addr \<Rightarrow> nat \<Rightarrow> bytes" where
  "tcp_pseudo_header src_ip dst_ip n =
     src_ip @ dst_ip @ [0, ip_protocol_wire ProtoTcp] @ to_be_bytes 2 (try_from_nat_or_max n :: u16)"

definition tcp_parse :: "bytes \<Rightarrow> bytes \<Rightarrow> ipv4_addr \<Rightarrow> ipv4_addr \<Rightarrow> pdu_error + tcp_header" where
  "tcp_parse bs payload src_ip dst_ip =
     (if length bs < TCP_HDR_LEN then Inl PduTooShort
      else let data_offset = drop_bit 4 (bs ! 12); hdr_len = 4 * unat data_offset
           in if hdr_len < TCP_HDR_LEN \<or> length bs < hdr_len then Inl PduTooShort
              else let hdr = \<lparr>tcp_src_port = from_be_bytes [bs ! 0, bs ! 1],
                         tcp_dst_port = from_be_bytes [bs ! 2, bs ! 3],
                         tcp_seq = from_be_bytes [bs ! 4, bs ! 5, bs ! 6, bs ! 7],
                         tcp_ack = from_be_bytes [bs ! 8, bs ! 9, bs ! 10, bs ! 11],
                         tcp_data_offset = data_offset, tcp_flags = bs ! 13 AND 0x3F,
                         tcp_window = from_be_bytes [bs ! 14, bs ! 15],
                         tcp_checksum = from_be_bytes [bs ! 16, bs ! 17],
                         tcp_urgent = from_be_bytes [bs ! 18, bs ! 19],
                         tcp_mss = tcp_options_mss bs hdr_len TCP_HDR_LEN None\<rparr>;
                       sum_buf = tcp_pseudo_header src_ip dst_ip (hdr_len + length payload) @
                         take 16 bs @ [0, 0] @ slice 18 (hdr_len - 18) bs @ payload
                   in if ones_complement_sum sum_buf \<noteq> tcp_checksum hdr then Inl PduBadChecksum
                      else Inr (hdr\<lparr>tcp_checksum := 0\<rparr>))"

definition tcp_build :: "u16 \<Rightarrow> u16 \<Rightarrow> u32 \<Rightarrow> u32 \<Rightarrow> u8 \<Rightarrow> u16 \<Rightarrow> tcp_header" where
  "tcp_build src_port dst_port seq ack flags window =
     \<lparr>tcp_src_port = src_port, tcp_dst_port = dst_port, tcp_seq = seq, tcp_ack = ack,
      tcp_data_offset = 5, tcp_flags = flags, tcp_window = window, tcp_checksum = 0,
      tcp_urgent = 0, tcp_mss = None\<rparr>"

definition tcp_bytes_with :: "tcp_header \<Rightarrow> u16 \<Rightarrow> bytes \<Rightarrow> bytes" where
  "tcp_bytes_with self c payload =
     to_be_bytes 2 (tcp_src_port self) @ to_be_bytes 2 (tcp_dst_port self) @
     to_be_bytes 4 (tcp_seq self) @ to_be_bytes 4 (tcp_ack self) @
     [push_bit 4 (tcp_data_offset self), tcp_flags self] @ to_be_bytes 2 (tcp_window self) @
     to_be_bytes 2 c @ to_be_bytes 2 (tcp_urgent self) @ payload"

definition tcp_to_bytes_with_payload ::
  "tcp_header \<Rightarrow> ipv4_addr \<Rightarrow> ipv4_addr \<Rightarrow> bytes \<Rightarrow> bytes" where
  "tcp_to_bytes_with_payload self src_ip dst_ip payload =
     (let out = tcp_bytes_with self 0 payload;
          sum_buf = tcp_pseudo_header src_ip dst_ip (length out) @ out;
          checksum = ones_complement_sum sum_buf
      in overwrite 16 (to_be_bytes 2 checksum) out)"

definition tcp_to_bytes_header_only :: "tcp_header \<Rightarrow> ipv4_addr \<Rightarrow> ipv4_addr \<Rightarrow> bytes" where
  "tcp_to_bytes_header_only self src_ip dst_ip = tcp_to_bytes_with_payload self src_ip dst_ip []"

definition tcp_is_syn :: "tcp_header \<Rightarrow> bool" where "tcp_is_syn self \<longleftrightarrow> tcp_flags self AND TCP_SYN \<noteq> 0"
definition tcp_is_fin :: "tcp_header \<Rightarrow> bool" where "tcp_is_fin self \<longleftrightarrow> tcp_flags self AND TCP_FIN \<noteq> 0"
definition tcp_is_rst :: "tcp_header \<Rightarrow> bool" where "tcp_is_rst self \<longleftrightarrow> tcp_flags self AND TCP_RST \<noteq> 0"
definition tcp_is_ack :: "tcp_header \<Rightarrow> bool" where "tcp_is_ack self \<longleftrightarrow> tcp_flags self AND TCP_ACK \<noteq> 0"

lemmas tcp_is_defs = tcp_is_syn_def tcp_is_fin_def tcp_is_rst_def tcp_is_ack_def

end
