(* ===== verification/Mmds_Wire.thy ===== *)
theory Mmds_Wire
  imports Mmds_Pdu
begin

text \<open>
  Correctness of the protocol data units of the metadata service
  (\<open>src/crates/mmds/src/pdu.rs\<close>, \<open>pdu/ipv4.rs\<close>, \<open>pdu/tcp.rs\<close>): every parser inverts its
  serialiser, and \<open>ones_complement_sum\<close> is the checksum of RFC 1071, so that what the
  serialisers emit passes the standard receiver's test and the parsers apply that test.
\<close>

subsection \<open>The checksum is the one of RFC 1071\<close>

text \<open>The sum of the 16-bit words of a message, an odd last byte padded with zero.\<close>

fun word_sum :: "bytes \<Rightarrow> nat" where
  "word_sum (a # b # bs) = 256 * unat a + unat b + word_sum bs"
| "word_sum [a] = 256 * unat a"
| "word_sum [] = 0"

lemma unat_from_be_pair: "unat (from_be_bytes [a, b] :: u16) = 256 * unat a + unat b"
proof -
  have "from_be_bytes [a, b] = (ucast b OR push_bit 8 (ucast a) :: u16)"
    by (simp add: from_be_bytes_def)
  also have "\<dots> = ucast b + push_bit 8 (ucast a)"
    by (rule disjunctive_add [symmetric])
      (auto simp: bit_ucast_iff bit_push_bit_iff dest: bit_imp_le_length)
  finally have "unat (from_be_bytes [a, b] :: u16) = (unat b + unat a * 256) mod 65536"
    by (simp add: push_bit_eq_mult unat_word_ariths)
  moreover have "unat a < 256" "unat b < 256" by (rule unat_lt8)+
  ultimately show ?thesis by simp
qed

lemma word_sum_bound: "word_sum bs \<le> 65535 * ((length bs + 1) div 2)"
proof (induction bs rule: word_sum.induct)
  case (1 a b bs)
  have "unat a \<le> 255" "unat b \<le> 255"
    using unat_lt8 [of a] unat_lt8 [of b] by linarith+
  with 1 show ?case by simp
next
  case (2 a)
  have "unat a \<le> 255" using unat_lt8 [of a] by linarith
  then show ?case by simp
qed simp

lemma unat_sum_words:
  "unat acc + word_sum bs < 2 ^ 32 \<Longrightarrow> unat (sum_words acc bs) = unat acc + word_sum bs"
  by (induction acc bs rule: sum_words.induct) (simp_all add: unat_plus_nowrap unat_from_be_pair)

lemma fold_carry_spec:
  "unat (fold_carry s) < 65536 \<and> unat (fold_carry s) mod 65535 = unat s mod 65535 \<and>
    (fold_carry s = 0 \<longleftrightarrow> s = 0)"
proof (induction s rule: fold_carry.induct)
  case (1 s)
  show ?case
  proof (cases "drop_bit 16 s = 0")
    case True
    have "unat s div 65536 = unat (drop_bit 16 s)"
      by (simp only: unsigned_drop_bit_eq) (simp add: drop_bit_eq_div take_bit_nat_eq_self)
    with True have "unat s div 65536 = 0" by simp
    with True show ?thesis by (subst (1 2 3) fold_carry.simps) (auto simp: div_eq_0_iff)
  next
    case False
    let ?t = "(s AND 0xFFFF) + drop_bit 16 s"
    have t: "unat ?t = unat s mod 65536 + unat s div 65536" by (rule fold_carry_measure [OF False])
    have "unat s = 65536 * (unat s div 65536) + unat s mod 65536" by simp
    then have "unat s = 65535 * (unat s div 65536) + unat ?t" using t by linarith
    then have "unat s mod 65535 = unat ?t mod 65535" by (metis mod_mult_self4)
    moreover have "unat s \<noteq> 0" using fold_carry_measure(2) [OF False] by linarith
    moreover from this have "unat ?t \<noteq> 0"
      unfolding t using div_mult_mod_eq [of "unat s" 65536] by linarith
    ultimately have "unat s mod 65535 = unat ?t mod 65535 \<and> ?t \<noteq> 0 \<and> s \<noteq> 0" by auto
    moreover have "fold_carry s = fold_carry ?t" using False by (subst fold_carry.simps) simp
    ultimately show ?thesis using 1 [OF False] by simp
  qed
qed

lemma word_sum_append:
  "even (length xs) \<Longrightarrow> word_sum (xs @ ys) = word_sum xs + word_sum ys"
  by (induction xs rule: word_sum.induct) auto

text \<open>The receiver's test of RFC 1071: the ones-complement sum over the message with its checksum
  field is all ones.\<close>

definition checksum_ok :: "bytes \<Rightarrow> bool" where
  "checksum_ok bs \<longleftrightarrow> ones_complement_sum bs = 0"

lemma mod_eq_0_small:
  "0 < k \<Longrightarrow> x < 3 * k \<Longrightarrow> x mod k = 0 \<longleftrightarrow> x = 0 \<or> x = k \<or> x = 2 * k" for x k :: nat
proof
  assume k: "0 < k" "x < 3 * k" and "x mod k = 0"
  then obtain q where q: "x = k * q" by auto
  with k have "q < 3" by simp
  then have "q = 0 \<or> q = 1 \<or> q = 2" by linarith
  with q show "x = 0 \<or> x = k \<or> x = 2 * k" by auto
qed auto

lemma ones_complement_sum_spec:
  assumes "word_sum bs < 2 ^ 32"
  shows "\<exists>r < 65536. unat (ones_complement_sum bs) = 65535 - r \<and>
    r mod 65535 = word_sum bs mod 65535 \<and> (r = 0 \<longleftrightarrow> word_sum bs = 0)"
proof -
  define f where "f = fold_carry (sum_words 0 bs)"
  have s: "unat (sum_words 0 bs) = word_sum bs" using unat_sum_words [of 0 bs] assms by simp
  have f: "unat f < 65536" "unat f mod 65535 = word_sum bs mod 65535"
    using fold_carry_spec [of "sum_words 0 bs"] s by (auto simp: f_def)
  have z: "unat f = 0 \<longleftrightarrow> word_sum bs = 0"
    using fold_carry_spec [of "sum_words 0 bs"] s unat_eq_zero [of f]
      unat_eq_zero [of "sum_words 0 bs"] by (simp add: f_def)
  have u: "unat (ucast f :: u16) = unat f"
    using f(1) by (simp add: unsigned_ucast_eq take_bit_nat_eq_self)
  have "NOT (ucast f :: u16) = - 1 - ucast f" by (simp add: not_eq_complement)
  moreover have "unat (- 1 - (ucast f :: u16)) = unat (- 1 :: u16) - unat (ucast f :: u16)"
    by (rule unat_sub) simp
  ultimately have "unat (NOT (ucast f) :: u16) = 65535 - unat f"
    by (simp add: unat_max_word u)
  then show ?thesis
    using f z by (intro exI [of _ "unat f"]) (simp add: ones_complement_sum_def f_def)
qed

lemma checksum_ok_iff:
  assumes "word_sum bs < 2 ^ 32"
  shows "checksum_ok bs \<longleftrightarrow> word_sum bs \<noteq> 0 \<and> word_sum bs mod 65535 = 0"
proof -
  obtain r where r: "r < 65536" "unat (ones_complement_sum bs) = 65535 - r"
    "r mod 65535 = word_sum bs mod 65535" "r = 0 \<longleftrightarrow> word_sum bs = 0"
    using ones_complement_sum_spec [OF assms] by auto
  have e: "r mod 65535 = 0 \<longleftrightarrow> r = 0 \<or> r = 65535 \<or> r = 2 * 65535"
    by (rule mod_eq_0_small) (use r(1) in simp_all)
  have "checksum_ok bs \<longleftrightarrow> unat (ones_complement_sum bs) = 0"
    unfolding checksum_ok_def by (rule unat_eq_zero [symmetric])
  also have "\<dots> \<longleftrightarrow> r = 65535" using r(1,2) by linarith
  also have "\<dots> \<longleftrightarrow> r \<noteq> 0 \<and> r mod 65535 = 0"
    unfolding e using r(1) by linarith
  finally show ?thesis unfolding r(3) r(4) .
qed

lemma word_sum_field:
  "even (length pre) \<Longrightarrow>
    word_sum (pre @ [hi, lo] @ post) = word_sum (pre @ [0, 0] @ post) + unat (from_be_bytes [hi, lo] :: u16)"
  by (simp add: word_sum_append unat_from_be_pair)

lemma checksum_rule:
  fixes hi lo :: u8
  assumes "even (length pre)" "word_sum (pre @ [0, 0] @ post) + 65535 < 2 ^ 32"
  shows "checksum_ok (pre @ [hi, lo] @ post) \<longleftrightarrow>
    ones_complement_sum (pre @ [0, 0] @ post) = from_be_bytes [hi, lo] \<or>
    (from_be_bytes [hi, lo] = (0xFFFF :: u16) \<and> ones_complement_sum (pre @ [0, 0] @ post) = 0)"
proof -
  define S where "S = word_sum (pre @ [0, 0] @ post)"
  define c where "c = unat (from_be_bytes [hi, lo] :: u16)"
  have c: "c < 65536" unfolding c_def by (rule unat_lt16)
  obtain r where r: "r < 65536" "unat (ones_complement_sum (pre @ [0, 0] @ post)) = 65535 - r"
    "r mod 65535 = S mod 65535" "r = 0 \<longleftrightarrow> S = 0"
    using ones_complement_sum_spec [of "pre @ [0, 0] @ post"] assms(2) unfolding S_def by auto
  have e: "(r + c) mod 65535 = 0 \<longleftrightarrow> r + c = 0 \<or> r + c = 65535 \<or> r + c = 2 * 65535"
    by (rule mod_eq_0_small) (use r(1) c in simp_all)
  have "checksum_ok (pre @ [hi, lo] @ post) \<longleftrightarrow> S + c \<noteq> 0 \<and> (S + c) mod 65535 = 0"
    using checksum_ok_iff [of "pre @ [hi, lo] @ post"] assms(2) c
    unfolding word_sum_field [OF assms(1), of hi lo post] S_def [symmetric] c_def [symmetric] by simp
  also have "(S + c) mod 65535 = (r + c) mod 65535"
    by (metis r(3) mod_add_left_eq)
  also have "S + c \<noteq> 0 \<and> (r + c) mod 65535 = 0 \<longleftrightarrow> c = 65535 - r \<or> (c = 65535 \<and> r = 65535)"
    unfolding e using r(1,4) c by linarith
  also have "c = 65535 - r \<longleftrightarrow> ones_complement_sum (pre @ [0, 0] @ post) = from_be_bytes [hi, lo]"
    using r(2) by (metis c_def word_unat_eq_iff)
  also have "c = 65535 \<longleftrightarrow> from_be_bytes [hi, lo] = (0xFFFF :: u16)"
    unfolding c_def by (simp add: word_unat_eq_iff)
  also have "r = 65535 \<longleftrightarrow> unat (ones_complement_sum (pre @ [0, 0] @ post)) = 0"
    using r(1,2) by linarith
  also have "\<dots> \<longleftrightarrow> ones_complement_sum (pre @ [0, 0] @ post) = 0" by (rule unat_eq_zero)
  finally show ?thesis .
qed

subsection \<open>Parsers invert serialisers\<close>

lemma to_be_bytes_2: "to_be_bytes 2 w = [ucast (drop_bit 8 w), ucast w]"
  by (simp add: to_be_bytes_def numeral_2_eq_2)

lemma to_be_bytes_4:
  "to_be_bytes 4 w = [ucast (drop_bit 24 w), ucast (drop_bit 16 w), ucast (drop_bit 8 w), ucast w]"
  by (simp add: to_be_bytes_def numeral_eq_Suc)

lemma from_be_bytes_split [simp]:
  "from_be_bytes [ucast (drop_bit 8 a), ucast a] = (a :: u16)"
  "from_be_bytes [ucast (drop_bit 24 b), ucast (drop_bit 16 b), ucast (drop_bit 8 b), ucast b] = (b :: u32)"
  using from_to_be_bytes_fixed(1) [of a] from_to_be_bytes_fixed(2) [of b]
  by (simp_all only: to_be_bytes_2 to_be_bytes_4)

lemma to_from_be_pair: "[ucast (drop_bit 8 (from_be_bytes [a, b] :: u16)), ucast (from_be_bytes [a, b] :: u16)] = [a, b]"
  using to_from_be_bytes [of "[a, b]" 2, where 'a = 16] by (simp add: to_be_bytes_2)

lemma length_4E:
  assumes "length xs = 4"
  obtains a b c d where "xs = [a, b, c, d]"
  using assms by (auto simp: length_Suc_conv numeral_eq_Suc)

lemma ethernet_roundtrip:
  "length (eth_dst h) = 6 \<Longrightarrow> length (eth_src h) = 6 \<Longrightarrow>
    ethernet_parse (ethernet_to_bytes h @ rest) = Inr h"
  by (simp add: ethernet_parse_def ethernet_to_bytes_def ETHER_HDR_LEN_def to_be_bytes_2 slice_def
      nth_append)

lemma length_ethernet_to_bytes:
  "length (eth_dst h) = 6 \<Longrightarrow> length (eth_src h) = 6 \<Longrightarrow> length (ethernet_to_bytes h) = 14"
  by (simp add: ethernet_to_bytes_def)

lemma arp_roundtrip:
  assumes "length (arp_sender_mac a) = 6" "length (arp_target_mac a) = 6"
    and "length (arp_sender_ip a) = 4" "length (arp_target_ip a) = 4"
  shows "arp_parse (arp_to_bytes a @ rest) = Inr a"
  using assms
  by (simp add: arp_parse_def arp_to_bytes_def ARP_PACKET_LEN_def to_be_bytes_2 slice_def
      nth_append Let_def)

lemma ipv4_to_bytes_eq:
  "ipv4_to_bytes h = ipv4_bytes_with h (ones_complement_sum (ipv4_bytes_with h 0))"
  by (simp add: ipv4_to_bytes_def ipv4_bytes_with_def overwrite_def Let_def to_be_bytes_2)

lemma length_ipv4_to_bytes:
  "length (ip_src h) = 4 \<Longrightarrow> length (ip_dst h) = 4 \<Longrightarrow> length (ipv4_to_bytes h) = 20"
  by (simp add: ipv4_to_bytes_eq ipv4_bytes_with_def)

lemma ipv4_parse_bytes_with:
  assumes "length (ip_src h) = 4" "length (ip_dst h) = 4" "ip_checksum h = 0"
    and "ip_version_ihl h = 0x45" "ip_flags_frag h AND 0x2000 = 0" "ip_flags_frag h AND 0x1FFF = 0"
  shows "ipv4_parse (ipv4_to_bytes h @ rest) = Inr h"
proof -
  obtain s1 s2 s3 s4 where s: "ip_src h = [s1, s2, s3, s4]" using assms(1) by (rule length_4E)
  obtain d1 d2 d3 d4 where d: "ip_dst h = [d1, d2, d3, d4]" using assms(2) by (rule length_4E)
  have v: "drop_bit 4 (0x45 :: u8) = 4" "(0x45 :: u8) AND 0x0F = 5" by code_simp+
  have z: "(take IPV4_HDR_LEN (ipv4_to_bytes h @ rest))[10 := 0, 11 := 0] = ipv4_bytes_with h 0"
    by (simp add: ipv4_to_bytes_eq ipv4_bytes_with_def IPV4_HDR_LEN_def to_be_bytes_2 s d)
  show ?thesis
    unfolding ipv4_parse_def z Let_def
    using assms by (simp add: ipv4_to_bytes_eq ipv4_bytes_with_def IPV4_HDR_LEN_def to_be_bytes_2 s d v)
qed

lemma ipv4_build_roundtrip:
  "length src = 4 \<Longrightarrow> length dst = 4 \<Longrightarrow>
    ipv4_parse (ipv4_to_bytes (ipv4_build src dst p n i) @ rest) = Inr (ipv4_build src dst p n i)"
  by (rule ipv4_parse_bytes_with) (simp_all add: ipv4_build_def)

lemma length_tcp_bytes_with [simp]: "length (tcp_bytes_with h c payload) = 20 + length payload"
  by (simp add: tcp_bytes_with_def)

lemma overwrite_tcp_checksum [simp]:
  "overwrite 16 (to_be_bytes 2 c) (tcp_bytes_with h 0 payload) = tcp_bytes_with h c payload"
  by (simp add: tcp_bytes_with_def overwrite_def to_be_bytes_2 to_be_bytes_4)

lemma tcp_to_bytes_eq:
  "tcp_to_bytes_with_payload h src dst payload =
    tcp_bytes_with h (ones_complement_sum (tcp_pseudo_header src dst (20 + length payload) @
      tcp_bytes_with h 0 payload)) payload"
  by (simp add: tcp_to_bytes_with_payload_def Let_def)

lemma length_tcp_to_bytes:
  "length (tcp_to_bytes_with_payload h src dst payload) = 20 + length payload"
  by (simp add: tcp_to_bytes_eq)

lemma drop_tcp_to_bytes:
  "drop 20 (tcp_to_bytes_with_payload h src dst payload) = payload"
  by (simp add: tcp_to_bytes_eq tcp_bytes_with_def to_be_bytes_2 to_be_bytes_4)

lemma tcp_options_none: "tcp_options_mss bs 20 20 mss = mss"
  by (subst tcp_options_mss.simps) simp

lemma tcp_parse_bytes_with:
  assumes "tcp_data_offset h = 5" "tcp_flags h AND 0x3F = tcp_flags h" "tcp_checksum h = 0" "tcp_mss h = None"
  shows "tcp_parse (take 20 (tcp_to_bytes_with_payload h src dst payload)) payload src dst = Inr h"
proof -
  have v: "push_bit 4 (5 :: u8) = 0x50" "drop_bit 4 (0x50 :: u8) = 5" by code_simp+
  show ?thesis
    using assms
    by (simp add: tcp_parse_def Let_def TCP_HDR_LEN_def tcp_to_bytes_eq tcp_bytes_with_def to_be_bytes_2
        to_be_bytes_4 v tcp_options_none slice_def)
qed

lemma tcp_build_roundtrip:
  "flags AND 0x3F = flags \<Longrightarrow>
    tcp_parse (take 20 (tcp_to_bytes_with_payload (tcp_build sp dp seq ack flags win) src dst payload))
      payload src dst = Inr (tcp_build sp dp seq ack flags win)"
  by (rule tcp_parse_bytes_with) (simp_all add: tcp_build_def)

subsection \<open>The contract of a wire format\<close>

text \<open>A parser that inverts a serialiser, whatever follows on the wire: two well-formed units with
  the same bytes, or one a prefix of the other, are the same unit.\<close>

locale wire_format =
  fixes parse :: "bytes \<Rightarrow> pdu_error + 'a" and render :: "'a \<Rightarrow> bytes" and ok :: "'a \<Rightarrow> bool"
  assumes parse_render: "ok h \<Longrightarrow> parse (render h @ rest) = Inr h"
begin

lemma render_prefix_free:
  assumes "ok h" "ok h'" "render h @ rest = render h' @ rest'"
  shows "h = h'" "rest = rest'"
proof -
  show "h = h'" using parse_render [OF assms(1), of rest] parse_render [OF assms(2), of rest'] assms(3) by simp
  with assms(3) show "rest = rest'" by simp
qed

end

definition ethernet_ok :: "ethernet_header \<Rightarrow> bool" where
  "ethernet_ok h \<longleftrightarrow> length (eth_dst h) = 6 \<and> length (eth_src h) = 6"

definition arp_ok :: "arp_packet \<Rightarrow> bool" where
  "arp_ok a \<longleftrightarrow> length (arp_sender_mac a) = 6 \<and> length (arp_target_mac a) = 6 \<and>
     length (arp_sender_ip a) = 4 \<and> length (arp_target_ip a) = 4"

definition ipv4_ok :: "ipv4_header \<Rightarrow> bool" where
  "ipv4_ok h \<longleftrightarrow> length (ip_src h) = 4 \<and> length (ip_dst h) = 4 \<and> ip_checksum h = 0 \<and>
     ip_version_ihl h = 0x45 \<and> ip_flags_frag h AND 0x2000 = 0 \<and> ip_flags_frag h AND 0x1FFF = 0"

interpretation ethernet_wire: wire_format ethernet_parse ethernet_to_bytes ethernet_ok
  by unfold_locales (simp add: ethernet_ok_def ethernet_roundtrip)

interpretation arp_wire: wire_format arp_parse arp_to_bytes arp_ok
  by unfold_locales (simp add: arp_ok_def arp_roundtrip)

interpretation ipv4_wire: wire_format ipv4_parse ipv4_to_bytes ipv4_ok
  by unfold_locales (simp add: ipv4_ok_def ipv4_parse_bytes_with)

subsection \<open>What the parsers accept\<close>

lemma version_ihl_iff: "drop_bit 4 b = 4 \<and> b AND 0x0F = 5 \<longleftrightarrow> b = 0x45" for b :: u8
proof
  assume a: "drop_bit 4 b = 4 \<and> b AND 0x0F = 5"
  have "push_bit 4 (drop_bit 4 b) + take_bit 4 b = b" by (rule bits_ident)
  moreover have "take_bit 4 b = b AND 0x0F" by (simp add: take_bit_eq_mask mask_eq_exp_minus_1)
  moreover have "push_bit 4 4 + 5 = (0x45 :: u8)" by code_simp
  ultimately show "b = 0x45" using a by metis
next
  have "drop_bit 4 (0x45 :: u8) = 4 \<and> (0x45 :: u8) AND 0x0F = 5" by code_simp
  then show "b = 0x45 \<Longrightarrow> drop_bit 4 b = 4 \<and> b AND 0x0F = 5" by simp
qed

lemma fragment_iff:
  "x AND 0x2000 = 0 \<and> x AND 0x1FFF = 0 \<longleftrightarrow> x AND 0x3FFF = 0" for x :: u16
proof -
  have m: "0x3FFF = (0x2000 OR 0x1FFF :: u16)" by code_simp
  show ?thesis unfolding m bit.conj_disj_distrib or_eq_0_iff ..
qed

lemma split_checksum_field:
  assumes "20 \<le> length bs"
  shows "take 20 bs = take 10 bs @ [bs ! 10, bs ! 11] @ slice 12 8 bs"
    and "(take 20 bs)[10 := a, 11 := b] = take 10 bs @ [a, b] @ slice 12 8 bs"
proof -
  have "drop 10 bs = bs ! 10 # bs ! 11 # drop 12 bs"
    using assms Cons_nth_drop_Suc [of 10 bs] Cons_nth_drop_Suc [of 11 bs] by simp
  then show "take 20 bs = take 10 bs @ [bs ! 10, bs ! 11] @ slice 12 8 bs"
    using take_add [of 10 10 bs] by (simp add: slice_def)
  then show "(take 20 bs)[10 := a, 11 := b] = take 10 bs @ [a, b] @ slice 12 8 bs"
    using assms by (simp add: list_update_append)
qed

lemma ipv4_checksum_test:
  assumes "20 \<le> length bs" "bs ! 0 = 0x45"
  shows "ones_complement_sum ((take 20 bs)[10 := 0, 11 := 0]) = from_be_bytes [bs ! 10, bs ! 11] \<longleftrightarrow>
    checksum_ok (take 20 bs) \<and> from_be_bytes [bs ! 10, bs ! 11] \<noteq> (0xFFFF :: u16)"
proof -
  let ?z = "take 10 bs @ [0, 0] @ slice 12 8 bs"
  have "length ?z = 20" using assms(1) by simp
  then have b: "word_sum ?z + 65535 < 2 ^ 32" using word_sum_bound [of ?z] by simp
  have "word_sum ?z \<noteq> 0"
  proof -
    obtain x xs where "bs = 0x45 # x # xs"
      using assms by (cases bs; cases "tl bs") auto
    then have "?z = 0x45 # x # take 8 xs @ [0, 0] @ slice 12 8 bs" by (simp add: take_Cons')
    then show ?thesis by simp
  qed
  then have "ones_complement_sum ?z \<noteq> 0xFFFF"
    using ones_complement_sum_spec [of ?z] b by (auto simp: word_unat_eq_iff)
  moreover have "checksum_ok (take 20 bs) \<longleftrightarrow> ones_complement_sum ?z = from_be_bytes [bs ! 10, bs ! 11] \<or>
      from_be_bytes [bs ! 10, bs ! 11] = (0xFFFF :: u16) \<and> ones_complement_sum ?z = 0"
    unfolding split_checksum_field(1) [OF assms(1)] by (rule checksum_rule [OF _ b]) (use assms(1) in simp)
  ultimately show ?thesis
    unfolding split_checksum_field(2) [OF assms(1)] by auto
qed

text \<open>
  The IPv4 parser against RFC 791 and RFC 1071: it accepts exactly the packets of at least
  twenty bytes that carry version 4 with a header of five words, are not fragmented and pass the
  standard receiver's checksum test, except that a checksum field of all ones (the other
  representation of zero, which no conforming sender puts there) is refused.
\<close>

theorem ipv4_parse_accepts:
  "(\<exists>h. ipv4_parse bs = Inr h) \<longleftrightarrow>
    20 \<le> length bs \<and> bs ! 0 = 0x45 \<and> from_be_bytes [bs ! 6, bs ! 7] AND 0x3FFF = (0 :: u16) \<and>
    checksum_ok (take 20 bs) \<and> from_be_bytes [bs ! 10, bs ! 11] \<noteq> (0xFFFF :: u16)"
proof (cases "20 \<le> length bs \<and> bs ! 0 = 0x45 \<and> from_be_bytes [bs ! 6, bs ! 7] AND 0x3FFF = (0 :: u16)")
  case True
  then show ?thesis
    using ipv4_checksum_test [of bs] version_ihl_iff [of "bs ! 0"] fragment_iff [of "from_be_bytes [bs ! 6, bs ! 7]"]
    by (auto simp: ipv4_parse_def IPV4_HDR_LEN_def Let_def)
next
  case False
  then show ?thesis
    using version_ihl_iff [of "bs ! 0"] fragment_iff [of "from_be_bytes [bs ! 6, bs ! 7]"]
    by (auto simp: ipv4_parse_def IPV4_HDR_LEN_def Let_def split: if_splits)
qed

lemma ipv4_parse_checksum: "ipv4_parse bs = Inr h \<Longrightarrow> checksum_ok (take 20 bs)"
  using ipv4_checksum_test [of bs] version_ihl_iff [of "bs ! 0"]
  by (auto simp: ipv4_parse_def IPV4_HDR_LEN_def Let_def split: if_splits)

lemma ipv4_build_checksum_ok:
  "length src = 4 \<Longrightarrow> length dst = 4 \<Longrightarrow> checksum_ok (ipv4_to_bytes (ipv4_build src dst p n i))"
  using ipv4_parse_checksum [OF ipv4_build_roundtrip, of src dst p n i "[]"]
    length_ipv4_to_bytes [of "ipv4_build src dst p n i"]
  by (simp add: ipv4_build_def)

end
