(* ===== verification/Mmds_Http.thy ===== *)
theory Mmds_Http
  imports Squib_Prelude
begin

text \<open>
  HTTP on the metadata endpoint, the first part of \<open>src/crates/mmds/src/tcp.rs\<close>: responses
  and their wire form, and the parser \<open>try_parse_http\<close> with the pieces of the Rust string
  library it uses (UTF-8 validation, \<open>split\<close>, \<open>split_whitespace\<close>, \<open>trim\<close>, \<open>parse\<close>).

  A \<open>String\<close> is its UTF-8 bytes; while the parser works on characters, a \<open>&str\<close> is the list
  of its Unicode scalar values. \<open>try_parse_http\<close> slices the buffer with computed bounds, and a
  slice whose end lies before its start panics: the result \<open>None\<close>.
\<close>

type_synonym str = "u32 list"

definition ascii :: "string \<Rightarrow> bytes" where "ascii s = map of_char s"

definition ascii_str :: "string \<Rightarrow> str" where "ascii_str s = map of_char s"

subsection \<open>The string library\<close>

definition utf8_cont :: "u8 \<Rightarrow> bool" where "utf8_cont b \<longleftrightarrow> b AND 0xC0 = 0x80"

definition cont_bits :: "u8 \<Rightarrow> u32" where "cont_bits b = ucast (b AND 0x3F)"

text \<open>\<open>std::str::from_utf8\<close>: the well-formed byte sequences of the Unicode standard.\<close>

fun utf8_decode :: "bytes \<Rightarrow> str option" where
  "utf8_decode [] = Some []"
| "utf8_decode (b0 # bs) =
     (if b0 < 0x80 then map_option ((#) (ucast b0)) (utf8_decode bs)
      else if 0xC2 \<le> b0 \<and> b0 \<le> 0xDF then
        (case bs of
           b1 # r \<Rightarrow>
             if utf8_cont b1
             then map_option ((#) (push_bit 6 (ucast (b0 AND 0x1F)) OR cont_bits b1)) (utf8_decode r)
             else None
         | _ \<Rightarrow> None)
      else if 0xE0 \<le> b0 \<and> b0 \<le> 0xEF then
        (case bs of
           b1 # b2 # r \<Rightarrow>
             if utf8_cont b1 \<and> utf8_cont b2 \<and> (b0 = 0xE0 \<longrightarrow> 0xA0 \<le> b1) \<and> (b0 = 0xED \<longrightarrow> b1 \<le> 0x9F)
             then map_option ((#) (push_bit 12 (ucast (b0 AND 0x0F)) OR push_bit 6 (cont_bits b1) OR cont_bits b2))
                    (utf8_decode r)
             else None
         | _ \<Rightarrow> None)
      else if 0xF0 \<le> b0 \<and> b0 \<le> 0xF4 then
        (case bs of
           b1 # b2 # b3 # r \<Rightarrow>
             if utf8_cont b1 \<and> utf8_cont b2 \<and> utf8_cont b3 \<and>
                (b0 = 0xF0 \<longrightarrow> 0x90 \<le> b1) \<and> (b0 = 0xF4 \<longrightarrow> b1 \<le> 0x8F)
             then map_option ((#) (push_bit 18 (ucast (b0 AND 0x07)) OR push_bit 12 (cont_bits b1) OR
                    push_bit 6 (cont_bits b2) OR cont_bits b3)) (utf8_decode r)
             else None
         | _ \<Rightarrow> None)
      else None)"

definition utf8_encode_char :: "u32 \<Rightarrow> bytes" where
  "utf8_encode_char c =
     (if c < 0x80 then [ucast c]
      else if c < 0x800 then [0xC0 OR ucast (drop_bit 6 c), 0x80 OR (ucast c AND 0x3F)]
      else if c < 0x10000
      then [0xE0 OR ucast (drop_bit 12 c), 0x80 OR (ucast (drop_bit 6 c) AND 0x3F), 0x80 OR (ucast c AND 0x3F)]
      else [0xF0 OR ucast (drop_bit 18 c), 0x80 OR (ucast (drop_bit 12 c) AND 0x3F),
            0x80 OR (ucast (drop_bit 6 c) AND 0x3F), 0x80 OR (ucast c AND 0x3F)])"

definition utf8_encode :: "str \<Rightarrow> bytes" where
  "utf8_encode s = concat (map utf8_encode_char s)"

definition is_whitespace :: "u32 \<Rightarrow> bool" where
  "is_whitespace c \<longleftrightarrow>
     (9 \<le> c \<and> c \<le> 13) \<or> c = 0x20 \<or> c = 0x85 \<or> c = 0xA0 \<or> c = 0x1680 \<or> (0x2000 \<le> c \<and> c \<le> 0x200A) \<or>
     c = 0x2028 \<or> c = 0x2029 \<or> c = 0x202F \<or> c = 0x205F \<or> c = 0x3000"

fun split_crlf :: "str \<Rightarrow> str list" where
  "split_crlf [] = [[]]"
| "split_crlf [a] = [[a]]"
| "split_crlf (a # b # r) =
     (if a = 13 \<and> b = 10 then [] # split_crlf r
      else let ls = split_crlf (b # r) in (a # hd ls) # tl ls)"

text \<open>\<open>split_whitespace().next()\<close>: the next word and what follows it.\<close>

definition next_word :: "str \<Rightarrow> (str \<times> str) option" where
  "next_word s =
     (let t = dropWhile is_whitespace s
      in if t = [] then None
         else Some (takeWhile (\<lambda>c. \<not> is_whitespace c) t, dropWhile (\<lambda>c. \<not> is_whitespace c) t))"

definition str_trim :: "str \<Rightarrow> str" where
  "str_trim s = rev (dropWhile is_whitespace (rev (dropWhile is_whitespace s)))"

definition to_ascii_lowercase :: "u32 \<Rightarrow> u32" where
  "to_ascii_lowercase c = (if 65 \<le> c \<and> c \<le> 90 then c + 32 else c)"

definition eq_ignore_ascii_case :: "str \<Rightarrow> str \<Rightarrow> bool" where
  "eq_ignore_ascii_case a b \<longleftrightarrow> map to_ascii_lowercase a = map to_ascii_lowercase b"

fun parse_digits :: "'a::len word \<Rightarrow> str \<Rightarrow> 'a word option" where
  "parse_digits acc [] = Some acc"
| "parse_digits acc (c # cs) =
     (if 48 \<le> c \<and> c \<le> 57
      then (case checked_mul acc 10 of
              None \<Rightarrow> None
            | Some m \<Rightarrow> (case checked_add m (ucast (c - 48)) of
                          None \<Rightarrow> None | Some acc' \<Rightarrow> parse_digits acc' cs))
      else None)"

text \<open>\<open>s.parse::<T>()\<close> for an unsigned integer type.\<close>

definition parse_uint :: "str \<Rightarrow> 'a::len word option" where
  "parse_uint s =
     (let digits = (case s of c # r \<Rightarrow> if c = 43 \<and> r \<noteq> [] then r else s | [] \<Rightarrow> [])
      in if digits = [] then None else parse_digits 0 digits)"

function decimal :: "nat \<Rightarrow> bytes" where
  "decimal n = (if n < 10 then [of_nat (48 + n)] else decimal (n div 10) @ [of_nat (48 + n mod 10)])"
  by pat_completeness auto

termination decimal
  by (relation "measure id") auto

declare decimal.simps [simp del]

subsection \<open>Responses\<close>

record http_response =
  rs_status :: u16
  rs_body :: bytes

definition http_reason :: "u16 \<Rightarrow> bytes" where
  "http_reason status =
     (if status = 200 then ascii ''OK''
      else if status = 400 then ascii ''Bad Request''
      else if status = 401 then ascii ''Unauthorized''
      else if status = 404 then ascii ''Not Found''
      else if status = 405 then ascii ''Method Not Allowed''
      else if status = 413 then ascii ''Payload Too Large''
      else if status = 414 then ascii ''URI Too Long''
      else if status = 500 then ascii ''Internal Server Error''
      else ascii ''Unknown'')"

definition CRLF :: bytes where "CRLF = [13, 10]"

definition http_to_wire :: "http_response \<Rightarrow> bytes" where
  "http_to_wire self =
     ascii ''HTTP/1.1 '' @ decimal (unat (rs_status self)) @ ascii '' '' @ http_reason (rs_status self) @ CRLF @
     ascii ''Content-Length: '' @ decimal (length (rs_body self)) @ CRLF @
     ascii ''Content-Type: application/json'' @ CRLF @ ascii ''Connection: close'' @ CRLF @ CRLF @
     rs_body self"

subsection \<open>Requests\<close>

record http_request =
  rq_method :: bytes
  rq_path :: bytes
  rq_token_header :: "bytes option"
  rq_ttl_header :: "u32 option"
  rq_body :: bytes

definition MAX_REQUEST_BYTES :: nat where "MAX_REQUEST_BYTES = 16 * 1024"

datatype http_parse_outcome =
  HttpIncomplete | HttpComplete http_request | HttpMalformed | HttpTooLarge

definition split_header :: "str \<Rightarrow> (str \<times> str) option" where
  "split_header line =
     (case dropWhile (\<lambda>c. c \<noteq> 58) line of
        [] \<Rightarrow> None
      | _ # value \<Rightarrow> Some (takeWhile (\<lambda>c. c \<noteq> 58) line, value))"

definition find_subsequence :: "bytes \<Rightarrow> bytes \<Rightarrow> nat option" where
  "find_subsequence haystack needle =
     find (\<lambda>i. slice i (length needle) haystack = needle) [0..<Suc (length haystack) - length needle]"

text \<open>The three headers the parser collects: \<open>content_length\<close>, \<open>token_header\<close>, \<open>ttl_header\<close>.\<close>

record http_fields =
  hf_content_length :: u64
  hf_token_header :: "bytes option"
  hf_ttl_header :: "u32 option"

definition http_header_line :: "http_fields \<Rightarrow> str \<Rightarrow> http_fields" where
  "http_header_line fs line =
     (case split_header line of
        None \<Rightarrow> fs
      | Some (name, value) \<Rightarrow>
          if eq_ignore_ascii_case name (ascii_str ''content-length'')
          then fs\<lparr>hf_content_length := (case parse_uint (str_trim value) of Some n \<Rightarrow> n | None \<Rightarrow> 0)\<rparr>
          else if eq_ignore_ascii_case name (ascii_str ''x-aws-ec2-metadata-token'')
          then fs\<lparr>hf_token_header := Some (utf8_encode (str_trim value))\<rparr>
          else if eq_ignore_ascii_case name (ascii_str ''x-aws-ec2-metadata-token-ttl-seconds'')
          then fs\<lparr>hf_ttl_header := parse_uint (str_trim value)\<rparr>
          else fs)"

definition http_fields_of :: "str list \<Rightarrow> http_fields" where
  "http_fields_of ls =
     foldl http_header_line \<lparr>hf_content_length = 0, hf_token_header = None, hf_ttl_header = None\<rparr> ls"

text \<open>Method, path and headers of a head that decodes; \<open>None\<close> is the malformed verdict.\<close>

definition parse_http_head :: "bytes \<Rightarrow> (bytes \<times> bytes \<times> http_fields) option" where
  "parse_http_head header_bytes =
     (case utf8_decode header_bytes of
        None \<Rightarrow> None
      | Some header_str \<Rightarrow>
          (case split_crlf header_str of
             [] \<Rightarrow> None
           | request_line # ls \<Rightarrow>
               (case next_word request_line of
                  None \<Rightarrow> None
                | Some (m, r) \<Rightarrow>
                    (case next_word r of
                       None \<Rightarrow> None
                     | Some (p, _) \<Rightarrow> Some (utf8_encode m, utf8_encode p, http_fields_of ls)))))"

definition try_parse_http :: "bytes \<Rightarrow> http_parse_outcome option" where
  "try_parse_http buf =
     (if length buf > MAX_REQUEST_BYTES then Some HttpTooLarge
      else case find_subsequence buf [13, 10, 13, 10] of
        None \<Rightarrow> Some HttpIncomplete
      | Some header_end \<Rightarrow>
          (case parse_http_head (take header_end buf) of
             None \<Rightarrow> Some HttpMalformed
           | Some (m, p, fs) \<Rightarrow>
               (let body_start = of_nat (header_end + 4) :: u64;
                    body_end = body_start + hf_content_length fs
                in if unat body_end > MAX_REQUEST_BYTES then Some HttpTooLarge
                   else if length buf < unat body_end then Some HttpIncomplete
                   else if body_end < body_start then None
                   else Some (HttpComplete
                          \<lparr>rq_method = m, rq_path = p, rq_token_header = hf_token_header fs,
                           rq_ttl_header = hf_ttl_header fs,
                           rq_body = slice (unat body_start) (unat body_end - unat body_start) buf\<rparr>))))"

subsection \<open>Searching the end of the head\<close>

lemma find_upt_Suc:
  "find P [0..<Suc n] = (if P 0 then Some 0 else map_option Suc (find (\<lambda>i. P (Suc i)) [0..<n]))"
proof -
  have "find P (map Suc xs) = map_option Suc (find (\<lambda>i. P (Suc i)) xs)" for xs
    by (induction xs) auto
  then show ?thesis by (simp only: upt_conv_Cons [of 0 "Suc n"] map_Suc_upt [symmetric]) simp
qed

lemma find_subsequence_Cons:
  assumes "needle \<noteq> []"
  shows "find_subsequence (x # xs) needle =
    (if take (length needle) (x # xs) = needle then Some 0
     else map_option Suc (find_subsequence xs needle))"
proof (cases "length needle \<le> length (x # xs)")
  case True
  then have "Suc (length (x # xs)) - length needle = Suc (Suc (length xs) - length needle)"
    by (simp add: Suc_diff_le)
  then show ?thesis
    unfolding find_subsequence_def by (simp only: find_upt_Suc) (simp add: slice_def)
next
  case False
  then have "Suc (length (x # xs)) - length needle = 0" "Suc (length xs) - length needle = 0" by auto
  moreover from False have "take (length needle) (x # xs) \<noteq> needle"
    by (metis length_take min.absorb_iff2 nat_le_linear)
  ultimately show ?thesis unfolding find_subsequence_def by simp
qed

lemma find_subsequence_Nil: "needle \<noteq> [] \<Longrightarrow> find_subsequence [] needle = None"
  by (cases needle) (simp_all add: find_subsequence_def)

lemma find_subsequence_bound:
  "find_subsequence xs needle = Some i \<Longrightarrow> needle \<noteq> [] \<Longrightarrow> i + length needle \<le> length xs"
proof (induction xs arbitrary: i)
  case Nil
  then show ?case by (simp add: find_subsequence_Nil)
next
  case (Cons x xs)
  show ?case
  proof (cases "take (length needle) (x # xs) = needle")
    case True
    then have "length needle \<le> length (x # xs)" by (metis length_take min.cobounded1 min_def)
    with True Cons.prems show ?thesis by (simp add: find_subsequence_Cons)
  next
    case False
    with Cons.prems Cons.IH show ?thesis by (auto simp: find_subsequence_Cons)
  qed
qed

lemma find_subsequence_append:
  "find_subsequence xs needle = Some i \<Longrightarrow> needle \<noteq> [] \<Longrightarrow> find_subsequence (xs @ ys) needle = Some i"
proof (induction xs arbitrary: i)
  case Nil
  then show ?case by (simp add: find_subsequence_Nil)
next
  case (Cons x xs)
  have "i + length needle \<le> length (x # xs)" by (rule find_subsequence_bound [OF Cons.prems])
  then have t: "take (length needle) (x # xs @ ys) = take (length needle) (x # xs)"
    using take_append [of "length needle" "x # xs" ys] by simp
  show ?case
  proof (cases "take (length needle) (x # xs) = needle")
    case True
    with Cons.prems t show ?thesis by (simp add: find_subsequence_Cons split: if_splits)
  next
    case False
    with Cons.prems obtain j where j: "find_subsequence xs needle = Some j" "i = Suc j"
      by (auto simp: find_subsequence_Cons)
    with False Cons.IH [OF j(1) Cons.prems(2)] t show ?thesis
      by (simp add: find_subsequence_Cons [OF Cons.prems(2)])
  qed
qed

subsection \<open>Verdicts are final\<close>

lemma try_parse_http_stable:
  assumes "try_parse_http p = Some v" "v \<noteq> HttpIncomplete" "length (p @ q) \<le> MAX_REQUEST_BYTES"
  shows "try_parse_http (p @ q) = Some v"
proof -
  obtain he where he: "find_subsequence p [13, 10, 13, 10] = Some he"
    using assms by (auto simp: try_parse_http_def split: option.splits)
  have he': "find_subsequence (p @ q) [13, 10, 13, 10] = Some he"
    by (rule find_subsequence_append [OF he]) simp
  have "he + 4 \<le> length p" using find_subsequence_bound [OF he] by simp
  with assms he he' show ?thesis
    by (auto simp: try_parse_http_def Let_def slice_def split: option.splits if_splits)
qed

lemma try_parse_http_too_large:
  "try_parse_http p = Some HttpTooLarge \<Longrightarrow> try_parse_http (p @ q) = Some HttpTooLarge"
  by (cases "length (p @ q) \<le> MAX_REQUEST_BYTES")
    (use try_parse_http_stable in blast, simp add: try_parse_http_def)

subsection \<open>Overlong bodies\<close>

lemma body_end_wraps:
  fixes cl :: u64
  assumes "he + 4 \<le> MAX_REQUEST_BYTES"
  defines "st \<equiv> of_nat (he + 4) :: u64"
  shows "unat st = he + 4"
    and "2 ^ 64 \<le> he + 4 + unat cl \<longleftrightarrow> st + cl < st"
    and "st + cl < st \<Longrightarrow> unat (st + cl) < he + 4"
proof -
  show st: "unat st = he + 4"
    using assms(1) by (simp add: st_def unsigned_of_nat take_bit_nat_eq_self MAX_REQUEST_BYTES_def del: of_nat_add)
  show "2 ^ 64 \<le> he + 4 + unat cl \<longleftrightarrow> st + cl < st"
  proof (cases "he + 4 + unat cl < 2 ^ 64")
    case True
    then have "unat (st + cl) = he + 4 + unat cl" using st by (simp add: unat_plus_nowrap)
    with True st show ?thesis by (simp add: word_less_nat_alt)
  next
    case False
    have c: "unat cl < 18446744073709551616" by (rule unat_lt64)
    have "unat (st + cl) = (he + 4 + unat cl) mod 18446744073709551616"
      using st by (simp add: unat_word_ariths)
    also have "\<dots> = (he + 4 + unat cl - 18446744073709551616) mod 18446744073709551616"
      by (rule le_mod_geq) (use False in simp)
    also have "\<dots> = he + 4 + unat cl - 18446744073709551616"
      by (rule mod_less) (use assms(1) c MAX_REQUEST_BYTES_def in linarith)
    finally have "unat (st + cl) = he + 4 + unat cl - 18446744073709551616" .
    then have "unat (st + cl) < unat st" using st c False by linarith
    then show ?thesis using False by (simp add: word_less_nat_alt)
  qed
  show "st + cl < st \<Longrightarrow> unat (st + cl) < he + 4" using st by (simp add: word_less_nat_alt)
qed

lemma try_parse_http_None_iff:
  "try_parse_http buf = None \<longleftrightarrow> length buf \<le> MAX_REQUEST_BYTES \<and>
      (\<exists>he m p fs. find_subsequence buf [13, 10, 13, 10] = Some he \<and>
        parse_http_head (take he buf) = Some (m, p, fs) \<and> 2 ^ 64 \<le> he + 4 + unat (hf_content_length fs))"
proof (cases "length buf \<le> MAX_REQUEST_BYTES \<and> (\<exists>he m p fs. find_subsequence buf [13, 10, 13, 10] = Some he \<and>
    parse_http_head (take he buf) = Some (m, p, fs))")
  case False
  then show ?thesis by (auto simp: try_parse_http_def Let_def split: option.splits)
next
  case True
  then obtain he m p fs where h: "length buf \<le> MAX_REQUEST_BYTES"
    "find_subsequence buf [13, 10, 13, 10] = Some he" "parse_http_head (take he buf) = Some (m, p, fs)" by blast
  have le': "he + 4 \<le> length buf" using find_subsequence_bound [OF h(2)] by simp
  with h(1) have le: "he + 4 \<le> MAX_REQUEST_BYTES" by simp
  let ?st = "of_nat (he + 4) :: u64" and ?cl = "hf_content_length fs"
  have "?st + ?cl < ?st \<Longrightarrow> \<not> length buf < unat (?st + ?cl) \<and> \<not> MAX_REQUEST_BYTES < unat (?st + ?cl)"
    using body_end_wraps(3) [OF le, of ?cl] le' le by linarith
  then have "try_parse_http buf = None \<longleftrightarrow> ?st + ?cl < ?st"
    using h unfolding try_parse_http_def Let_def by (auto simp del: of_nat_add split: if_splits)
  with h body_end_wraps(2) [OF le, of ?cl] show ?thesis by auto
qed

definition panicking_head :: bytes where
  "panicking_head = ascii ''GET / HTTP/1.1'' @ CRLF @ ascii ''Content-Length: 18446744073709551615''"

lemma panicking_head_parsed:
  "length (panicking_head @ CRLF @ CRLF) = 56" "find_subsequence (panicking_head @ CRLF @ CRLF) [13, 10, 13, 10] = Some 52"
  "take 52 (panicking_head @ CRLF @ CRLF) = panicking_head"
  "parse_http_head panicking_head =
    Some (ascii ''GET'', ascii ''/'', \<lparr>hf_content_length = - 1, hf_token_header = None, hf_ttl_header = None\<rparr>)"
  by code_simp+

text \<open>
  C37. When the parser panics: exactly when a complete head of a buffer within the limit names a
  content length that carries the end of the body past \<open>usize::MAX\<close>. The sum wraps, passes both
  bounds checks, and the slice from the start of the body to an end before it panics. A single
  request line with the largest \<open>Content-Length\<close> does so.
\<close>

theorem try_parse_http_panics:
  "(\<forall>buf. try_parse_http buf = None \<longleftrightarrow> length buf \<le> MAX_REQUEST_BYTES \<and>
      (\<exists>he m p fs. find_subsequence buf [13, 10, 13, 10] = Some he \<and>
        parse_http_head (take he buf) = Some (m, p, fs) \<and> 2 ^ 64 \<le> he + 4 + unat (hf_content_length fs))) \<and>
   try_parse_http (panicking_head @ CRLF @ CRLF) = None"
  using panicking_head_parsed
  by (simp add: try_parse_http_None_iff MAX_REQUEST_BYTES_def unat_max_word)

subsection \<open>Well-formed requests are understood\<close>

text \<open>A request as a client writes it: lines of visible characters and single spaces.\<close>

definition visible :: "u8 \<Rightarrow> bool" where "visible b \<longleftrightarrow> 0x21 \<le> b \<and> b \<le> 0x7E"

fun crlf_join :: "bytes list \<Rightarrow> bytes" where
  "crlf_join [] = []"
| "crlf_join [l] = l"
| "crlf_join (l # ls) = l @ CRLF @ crlf_join ls"

definition request_lines :: "bytes \<Rightarrow> bytes \<Rightarrow> bytes option \<Rightarrow> u32 option \<Rightarrow> nat \<Rightarrow> bytes list" where
  "request_lines m p tok ttl n =
     [m @ [32] @ p @ ascii '' HTTP/1.1''] @
     (case tok of None \<Rightarrow> [] | Some t \<Rightarrow> [ascii ''X-aws-ec2-metadata-token: '' @ t]) @
     (case ttl of None \<Rightarrow> [] | Some s \<Rightarrow> [ascii ''X-aws-ec2-metadata-token-ttl-seconds: '' @ decimal (unat s)]) @
     [ascii ''Content-Length: '' @ decimal n]"

definition render_request :: "http_request \<Rightarrow> bytes" where
  "render_request r =
     crlf_join (request_lines (rq_method r) (rq_path r) (rq_token_header r) (rq_ttl_header r) (length (rq_body r))) @
     CRLF @ CRLF @ rq_body r"

lemma find_subsequence_skip:
  "13 \<notin> set l \<Longrightarrow> find_subsequence (l @ t) [13, 10, 13, 10] =
    map_option (\<lambda>i. length l + i) (find_subsequence t [13, 10, 13, 10])"
  by (cases "find_subsequence t [13, 10, 13, 10]"; induction l) (auto simp: find_subsequence_Cons)

lemma crlf_join_not_CR:
  "ls \<noteq> [] \<Longrightarrow> \<forall>l \<in> set ls. l \<noteq> [] \<and> 13 \<notin> set l \<Longrightarrow> \<exists>y t. crlf_join ls = y # t \<and> y \<noteq> 13"
  by (cases ls rule: crlf_join.cases) (auto simp: neq_Nil_conv)

lemma find_crlf_join:
  assumes "ls \<noteq> []" "\<forall>l \<in> set ls. l \<noteq> [] \<and> 13 \<notin> set l"
  shows "find_subsequence (crlf_join ls @ CRLF @ CRLF @ body) [13, 10, 13, 10] = Some (length (crlf_join ls))"
  using assms
proof (induction ls rule: crlf_join.induct)
  case 1
  then show ?case by simp
next
  case (2 l)
  then show ?case by (simp add: find_subsequence_skip CRLF_def find_subsequence_Cons)
next
  case (3 l l' ls)
  have "l' \<noteq> [] \<and> 13 \<notin> set l'" "13 \<notin> set l" using 3 by auto
  moreover obtain y t where "crlf_join (l' # ls) = y # t" "y \<noteq> 13"
    using crlf_join_not_CR [of "l' # ls"] 3 by auto
  ultimately show ?case
    using 3 by (simp add: find_subsequence_skip CRLF_def find_subsequence_Cons)
qed

lemma utf8_ascii: "\<forall>b \<in> set bs. b < 0x80 \<Longrightarrow> utf8_decode bs = Some (map ucast bs)"
  by (induction bs) auto

lemma utf8_encode_ascii: "\<forall>b \<in> set bs. b < 0x80 \<Longrightarrow> utf8_encode (map ucast bs) = bs"
proof (induction bs)
  case (Cons b bs)
  have "(ucast b :: u32) < 0x80" using Cons.prems by (simp add: word_less_nat_alt)
  moreover have "ucast (ucast b :: u32) = b" by (rule bit_word_eqI) (simp add: bit_ucast_iff)
  ultimately show ?case using Cons by (simp add: utf8_encode_def utf8_encode_char_def)
qed (simp add: utf8_encode_def)

lemma split_crlf_skip:
  "13 \<notin> set a \<Longrightarrow> split_crlf (a @ 13 # 10 # r) = a # split_crlf r"
proof (induction a)
  case (Cons x xs)
  then show ?case by (cases "xs @ 13 # 10 # r") (auto simp: Let_def)
qed simp

lemma split_crlf_last: "13 \<notin> set a \<Longrightarrow> split_crlf a = [a]"
  by (induction a rule: split_crlf.induct) (auto simp: Let_def)

lemma ucast_CR: "(ucast (b :: u8) = (13 :: u32)) \<longleftrightarrow> b = 13"
  by (auto simp: word_unat_eq_iff)

lemma split_crlf_join:
  assumes "ls \<noteq> []" "\<forall>l \<in> set ls. 13 \<notin> set l"
  shows "split_crlf (map ucast (crlf_join ls)) = map (map ucast) ls"
  using assms
proof (induction ls rule: crlf_join.induct)
  case (2 l)
  then show ?case by (auto intro!: split_crlf_last simp: ucast_CR dest: sym)
next
  case (3 l l' ls)
  have "13 \<notin> set (map ucast l :: str)" using 3 by (auto simp: ucast_CR dest: sym)
  then show ?case using 3 split_crlf_skip [of "map ucast l"] by (simp add: CRLF_def)
qed simp

lemma parse_digits_append:
  "parse_digits acc (xs @ ys) = Option.bind (parse_digits acc xs) (\<lambda>a. parse_digits a ys)"
  by (induction acc xs rule: parse_digits.induct) (auto split: option.splits)

lemma decimal_range: "b \<in> set (decimal n) \<Longrightarrow> 48 \<le> b \<and> b \<le> 57"
proof (induction n rule: decimal.induct)
  case (1 n)
  have d: "48 \<le> (of_nat (48 + k) :: u8) \<and> (of_nat (48 + k) :: u8) \<le> 57" if "k < 10" for k
    using that by (simp add: word_le_nat_alt unsigned_of_nat take_bit_nat_eq_self del: of_nat_add)
  show ?case
    using 1 d [of n] d [of "n mod 10"]
    by (cases "n < 10") (auto simp: decimal.simps [of n] simp del: of_nat_add)
qed

lemma decimal_not_Nil [simp]: "decimal n \<noteq> []"
  by (subst decimal.simps) simp

lemma ucast_digit:
  assumes "k < 10"
  shows "48 \<le> (ucast (of_nat (48 + k) :: u8) :: u32)" "(ucast (of_nat (48 + k) :: u8) :: u32) \<le> 57"
    and "(ucast ((ucast (of_nat (48 + k) :: u8) :: u32) - 48) :: 'a::len word) = of_nat k"
proof -
  have u: "unat (ucast (of_nat (48 + k) :: u8) :: u32) = 48 + k"
    using assms by (simp add: unsigned_of_nat take_bit_nat_eq_self del: of_nat_add)
  show l: "48 \<le> (ucast (of_nat (48 + k) :: u8) :: u32)" "(ucast (of_nat (48 + k) :: u8) :: u32) \<le> 57"
    using assms u by (simp_all only: word_le_nat_alt) simp_all
  have "unat ((ucast (of_nat (48 + k) :: u8) :: u32) - 48) = k"
    using unat_sub [OF l(1)] u by simp
  then show "(ucast ((ucast (of_nat (48 + k) :: u8) :: u32) - 48) :: 'a::len word) = of_nat k"
    by (metis of_nat_unat)
qed

lemma parse_digits_decimal:
  "n < 2 ^ LENGTH('a) \<Longrightarrow> (10 :: nat) < 2 ^ LENGTH('a) \<Longrightarrow>
    parse_digits 0 (map ucast (decimal n)) = Some (of_nat n :: 'a::len word)"
proof (induction n rule: decimal.induct)
  case (1 n)
  have one: "parse_digits acc [ucast (of_nat (48 + k) :: u8)] = Some (acc * 10 + of_nat k)"
    if "k < 10" "unat acc * 10 + k < 2 ^ LENGTH('a)" for k and acc :: "'a word"
  proof -
    have "unat (10 :: 'a word) = 10" "unat (of_nat k :: 'a word) = k"
      using 1(3) that by (simp_all add: unsigned_numeral unsigned_of_nat take_bit_nat_eq_self)
    with that show ?thesis
      by (simp add: ucast_digit [OF that(1)] checked_mul_def checked_add_def unat_word_ariths del: of_nat_add)
  qed
  show ?case
  proof (cases "n < 10")
    case True
    then show ?thesis using one [of n 0] 1(2) by (simp add: decimal.simps [of n] del: of_nat_add)
  next
    case False
    have "n div 10 < 2 ^ LENGTH('a)" using 1(2) by (meson div_le_dividend le_less_trans)
    then have "unat (of_nat (n div 10) :: 'a word) = n div 10"
      by (simp add: unsigned_of_nat take_bit_nat_eq_self)
    moreover have "n div 10 * 10 + n mod 10 = n" by simp
    moreover have "of_nat (n div 10) * 10 + of_nat (n mod 10) = (of_nat n :: 'a word)"
      by (metis div_mult_mod_eq of_nat_add of_nat_mult of_nat_numeral)
    ultimately show ?thesis
      using False 1 one [of "n mod 10" "of_nat (n div 10)"] \<open>n div 10 < 2 ^ LENGTH('a)\<close>
      by (simp add: decimal.simps [of n] parse_digits_append del: of_nat_add)
  qed
qed

lemma parse_uint_decimal:
  assumes "n < 2 ^ LENGTH('a)" "(10 :: nat) < 2 ^ LENGTH('a)"
  shows "parse_uint (map ucast (decimal n)) = Some (of_nat n :: 'a::len word)"
proof -
  obtain b bs where d: "decimal n = b # bs" using decimal_not_Nil by (cases "decimal n") auto
  have "48 \<le> b" using decimal_range [of b n] d by simp
  then have "(ucast b :: u32) \<noteq> 43" by (auto simp: word_le_nat_alt word_unat_eq_iff)
  with parse_digits_decimal [OF assms] d show ?thesis by (simp add: parse_uint_def)
qed

lemma visible_not_special:
  "visible b \<Longrightarrow> b \<noteq> 13 \<and> b < 0x80 \<and> \<not> is_whitespace (ucast b)"
  by (auto simp: visible_def is_whitespace_def word_le_nat_alt word_less_nat_alt word_unat_eq_iff)

lemma str_trim_visible:
  assumes "\<forall>b \<in> set v. visible b"
  shows "str_trim (32 # map ucast v) = map ucast v"
proof -
  have w: "is_whitespace 32" by (simp add: is_whitespace_def)
  have nw: "dropWhile is_whitespace xs = xs" if "\<forall>c \<in> set xs. \<not> is_whitespace c" for xs
    using that by (cases xs) auto
  have "\<forall>c \<in> set (map ucast v). \<not> is_whitespace c" using assms visible_not_special by auto
  then show ?thesis using w by (simp add: str_trim_def nw)
qed

lemma decimal_visible: "b \<in> set (decimal n) \<Longrightarrow> visible b"
  using decimal_range [of b n] by (auto simp: visible_def word_le_nat_alt)

lemma split_header_colon:
  assumes "58 \<notin> set name"
  shows "split_header (name @ 58 # v) = Some (name, v)"
proof -
  have "takeWhile (\<lambda>c. c \<noteq> 58) (name @ 58 # v) = name" "dropWhile (\<lambda>c. c \<noteq> 58) (name @ 58 # v) = 58 # v"
    using assms by (auto simp: takeWhile_append dropWhile_append)
  then show ?thesis by (simp add: split_header_def)
qed

lemma header_names:
  "map ucast (ascii ''X-aws-ec2-metadata-token: '') = ascii_str ''X-aws-ec2-metadata-token'' @ [58, 32]"
  "map ucast (ascii ''X-aws-ec2-metadata-token-ttl-seconds: '') = ascii_str ''X-aws-ec2-metadata-token-ttl-seconds'' @ [58, 32]"
  "map ucast (ascii ''Content-Length: '') = ascii_str ''Content-Length'' @ [58, 32]"
  "58 \<notin> set (ascii_str ''X-aws-ec2-metadata-token'')"
  "58 \<notin> set (ascii_str ''X-aws-ec2-metadata-token-ttl-seconds'')"
  "58 \<notin> set (ascii_str ''Content-Length'')"
  "\<not> eq_ignore_ascii_case (ascii_str ''X-aws-ec2-metadata-token'') (ascii_str ''content-length'')"
  "eq_ignore_ascii_case (ascii_str ''X-aws-ec2-metadata-token'') (ascii_str ''x-aws-ec2-metadata-token'')"
  "\<not> eq_ignore_ascii_case (ascii_str ''X-aws-ec2-metadata-token-ttl-seconds'') (ascii_str ''content-length'')"
  "\<not> eq_ignore_ascii_case (ascii_str ''X-aws-ec2-metadata-token-ttl-seconds'') (ascii_str ''x-aws-ec2-metadata-token'')"
  "eq_ignore_ascii_case (ascii_str ''X-aws-ec2-metadata-token-ttl-seconds'') (ascii_str ''x-aws-ec2-metadata-token-ttl-seconds'')"
  "eq_ignore_ascii_case (ascii_str ''Content-Length'') (ascii_str ''content-length'')"
  by code_simp+

lemma http_header_lines:
  "\<forall>b \<in> set t. visible b \<Longrightarrow> http_header_line fs (map ucast (ascii ''X-aws-ec2-metadata-token: '' @ t)) =
    fs\<lparr>hf_token_header := Some t\<rparr>"
  "http_header_line fs (map ucast (ascii ''X-aws-ec2-metadata-token-ttl-seconds: '' @ decimal (unat s))) =
    fs\<lparr>hf_ttl_header := Some s\<rparr>"
  "n < 2 ^ 64 \<Longrightarrow> http_header_line fs (map ucast (ascii ''Content-Length: '' @ decimal n)) =
    fs\<lparr>hf_content_length := of_nat n\<rparr>"
proof -
  have t: "http_header_line fs (map ucast (ascii ''X-aws-ec2-metadata-token: '' @ t)) =
    fs\<lparr>hf_token_header := Some t\<rparr>" if "\<forall>b \<in> set t. visible b"
    using that visible_not_special utf8_encode_ascii [of t]
    by (auto simp: http_header_line_def header_names split_header_colon str_trim_visible)
  show "\<forall>b \<in> set t. visible b \<Longrightarrow> http_header_line fs (map ucast (ascii ''X-aws-ec2-metadata-token: '' @ t)) =
    fs\<lparr>hf_token_header := Some t\<rparr>" by (rule t)
  have "unat s < 2 ^ LENGTH(32)" by (rule unsigned_less)
  then have "parse_uint (map ucast (decimal (unat s))) = Some s"
    using parse_uint_decimal [of "unat s", where 'a = 32] by simp
  then show "http_header_line fs (map ucast (ascii ''X-aws-ec2-metadata-token-ttl-seconds: '' @ decimal (unat s))) =
    fs\<lparr>hf_ttl_header := Some s\<rparr>"
    using decimal_visible
    by (auto simp: http_header_line_def header_names split_header_colon str_trim_visible)
  show "http_header_line fs (map ucast (ascii ''Content-Length: '' @ decimal n)) =
    fs\<lparr>hf_content_length := of_nat n\<rparr>" if "n < 2 ^ 64"
    using decimal_visible that parse_uint_decimal [of n, where 'a = 64]
    by (auto simp: http_header_line_def header_names split_header_colon str_trim_visible)
qed

lemma next_word_visible:
  assumes "\<forall>b \<in> set v. visible b" "v \<noteq> []"
  shows "next_word (map ucast v @ 32 # r) = Some (map ucast v, 32 # r)"
    and "next_word (32 # map ucast v @ 32 # r) = Some (map ucast v, 32 # r)"
proof -
  have ws: "is_whitespace 32" by (simp add: is_whitespace_def)
  have nw: "\<forall>c \<in> set (map ucast v). \<not> is_whitespace c" using assms(1) visible_not_special by auto
  obtain x xs where v: "map ucast v = x # xs" "\<not> is_whitespace x"
    using assms(2) nw by (cases v) auto
  have "takeWhile (\<lambda>c. \<not> is_whitespace c) (map ucast v @ 32 # r) = map ucast v"
    "dropWhile (\<lambda>c. \<not> is_whitespace c) (map ucast v @ 32 # r) = 32 # r"
    using nw ws by (auto simp: takeWhile_append dropWhile_append)
  then show "next_word (map ucast v @ 32 # r) = Some (map ucast v, 32 # r)"
    "next_word (32 # map ucast v @ 32 # r) = Some (map ucast v, 32 # r)"
    using v ws by (simp_all add: next_word_def Let_def)
qed

definition request_ok :: "http_request \<Rightarrow> bool" where
  "request_ok r \<longleftrightarrow> rq_method r \<noteq> [] \<and> list_all visible (rq_method r) \<and> rq_path r \<noteq> [] \<and>
     list_all visible (rq_path r) \<and> (case rq_token_header r of None \<Rightarrow> True | Some t \<Rightarrow> list_all visible t)"

lemma ascii_literals:
  "ascii '' HTTP/1.1'' = 32 # ascii ''HTTP/1.1''"
  "\<forall>b \<in> set (ascii '' HTTP/1.1''). b \<noteq> 13 \<and> b < 0x80"
  "\<forall>b \<in> set (ascii ''X-aws-ec2-metadata-token: ''). b \<noteq> 13 \<and> b < 0x80"
  "\<forall>b \<in> set (ascii ''X-aws-ec2-metadata-token-ttl-seconds: ''). b \<noteq> 13 \<and> b < 0x80"
  "\<forall>b \<in> set (ascii ''Content-Length: ''). b \<noteq> 13 \<and> b < 0x80"
  "ascii ''X-aws-ec2-metadata-token: '' \<noteq> []"
  by code_simp+

abbreviation plain :: "bytes \<Rightarrow> bool" where "plain l \<equiv> \<forall>b \<in> set l. b \<noteq> 13 \<and> b < 0x80"

lemma plain_append: "plain (xs @ ys) \<longleftrightarrow> plain xs \<and> plain ys"
  by auto

lemma request_lines_plain:
  assumes "request_ok r" "l \<in> set (request_lines (rq_method r) (rq_path r) (rq_token_header r) (rq_ttl_header r) n)"
  shows "l \<noteq> [] \<and> plain l"
proof -
  have v: "plain xs" if "list_all visible xs" for xs
    using that visible_not_special by (auto simp: list_all_iff)
  have d: "plain (decimal k)" for k
    using visible_not_special decimal_visible by blast
  have p1: "plain (rq_method r @ [32] @ rq_path r @ ascii '' HTTP/1.1'')"
    unfolding plain_append using assms(1) v [of "rq_method r"] v [of "rq_path r"] ascii_literals(2)
    by (simp add: request_ok_def)
  have p2: "plain (ascii ''X-aws-ec2-metadata-token: '' @ t)" if "rq_token_header r = Some t" for t
    unfolding plain_append using assms(1) v [of t] that ascii_literals(3) by (simp add: request_ok_def)
  have p3: "plain (ascii ''X-aws-ec2-metadata-token-ttl-seconds: '' @ decimal k)" for k
    unfolding plain_append using d ascii_literals(4) by blast
  have p4: "plain (ascii ''Content-Length: '' @ decimal n)"
    unfolding plain_append using d ascii_literals(5) by blast
  have "l = rq_method r @ [32] @ rq_path r @ ascii '' HTTP/1.1'' \<or>
    (\<exists>t. rq_token_header r = Some t \<and> l = ascii ''X-aws-ec2-metadata-token: '' @ t) \<or>
    (\<exists>k. l = ascii ''X-aws-ec2-metadata-token-ttl-seconds: '' @ decimal k) \<or>
    l = ascii ''Content-Length: '' @ decimal n"
    using assms(2) by (auto simp: request_lines_def split: option.splits)
  then show ?thesis
  proof (elim disjE exE conjE)
    fix t assume "rq_token_header r = Some t" "l = ascii ''X-aws-ec2-metadata-token: '' @ t"
    then show ?thesis using p2 [of t] ascii_literals(6) by simp
  qed (use p1 p3 p4 in simp_all)
qed

lemma crlf_join_plain:
  "\<forall>l \<in> set ls. \<forall>b \<in> set l. b < 0x80 \<Longrightarrow> \<forall>b \<in> set (crlf_join ls). b < 0x80"
  by (induction ls rule: crlf_join.induct) (auto simp: CRLF_def)

lemma parse_request_head:
  assumes "request_ok r" "n < 2 ^ 64"
  shows "parse_http_head (crlf_join (request_lines (rq_method r) (rq_path r) (rq_token_header r) (rq_ttl_header r) n)) =
    Some (rq_method r, rq_path r, \<lparr>hf_content_length = of_nat n, hf_token_header = rq_token_header r,
      hf_ttl_header = rq_ttl_header r\<rparr>)"
proof -
  let ?ls = "request_lines (rq_method r) (rq_path r) (rq_token_header r) (rq_ttl_header r) n"
  have v: "\<forall>b \<in> set (rq_method r). visible b" "\<forall>b \<in> set (rq_path r). visible b"
    "rq_method r \<noteq> []" "rq_path r \<noteq> []"
    "\<And>t. rq_token_header r = Some t \<Longrightarrow> \<forall>b \<in> set t. visible b"
    using assms(1) by (auto simp: request_ok_def list_all_iff)
  have dec: "utf8_decode (crlf_join ?ls) = Some (map ucast (crlf_join ?ls))"
    by (rule utf8_ascii, rule crlf_join_plain) (use request_lines_plain [OF assms(1)] in blast)
  have spl: "split_crlf (map ucast (crlf_join ?ls)) = map (map ucast) ?ls"
    by (rule split_crlf_join) (simp add: request_lines_def, use request_lines_plain [OF assms(1)] in blast)
  have enc: "utf8_encode (map ucast (rq_method r)) = rq_method r" "utf8_encode (map ucast (rq_path r)) = rq_path r"
    using v visible_not_special by (auto intro!: utf8_encode_ascii)
  have fs: "http_fields_of (map (map ucast) (tl ?ls)) =
    \<lparr>hf_content_length = of_nat n, hf_token_header = rq_token_header r, hf_ttl_header = rq_ttl_header r\<rparr>"
    using v(5) assms(2)
    by (cases "rq_token_header r"; cases "rq_ttl_header r")
      (simp_all add: http_fields_of_def request_lines_def http_header_lines del: map_append)
  have hd: "hd ?ls = rq_method r @ 32 # rq_path r @ 32 # ascii ''HTTP/1.1''" "?ls = hd ?ls # tl ?ls"
    by (simp_all add: request_lines_def ascii_literals(1))
  show ?thesis
    unfolding parse_http_head_def dec option.case spl
    by (subst hd(2)) (simp add: hd(1) next_word_visible v fs enc)
qed

lemma render_request_parsed:
  assumes "request_ok r" "length (render_request r) \<le> MAX_REQUEST_BYTES"
  shows "try_parse_http (render_request r) = Some (HttpComplete r)"
proof -
  let ?h = "crlf_join (request_lines (rq_method r) (rq_path r) (rq_token_header r) (rq_ttl_header r) (length (rq_body r)))"
  have len: "length (render_request r) = length ?h + 4 + length (rq_body r)"
    by (simp add: render_request_def CRLF_def)
  have f: "find_subsequence (render_request r) [13, 10, 13, 10] = Some (length ?h)"
    unfolding render_request_def
    by (rule find_crlf_join) (simp add: request_lines_def, use request_lines_plain [OF assms(1)] in blast)
  have le: "length ?h + 4 \<le> MAX_REQUEST_BYTES" using assms(2) len by simp
  have small: "length (rq_body r) < 2 ^ 64" using assms(2) len by (simp add: MAX_REQUEST_BYTES_def)
  have u: "unat (of_nat (length ?h + 4) + of_nat (length (rq_body r)) :: u64) = length (render_request r)"
    using body_end_wraps(1) [OF le] assms(2) len
    by (simp add: unat_word_ariths unsigned_of_nat take_bit_nat_eq_self MAX_REQUEST_BYTES_def del: of_nat_add)
  have "slice (length ?h + 4) (length (rq_body r)) (render_request r) = rq_body r"
    by (simp add: render_request_def slice_def CRLF_def)
  moreover have "take (length ?h) (render_request r) = ?h" by (simp add: render_request_def)
  ultimately show ?thesis
    using assms(2) f u len body_end_wraps(1) [OF le] parse_request_head [OF assms(1) small]
    by (simp add: try_parse_http_def Let_def word_less_nat_alt del: of_nat_add)
qed

definition token_request :: http_request where
  "token_request = \<lparr>rq_method = ascii ''PUT'', rq_path = ascii ''/latest/api/token'', rq_token_header = None,
    rq_ttl_header = Some 60, rq_body = [1, 2]\<rparr>"

lemma token_request_ok: "request_ok token_request" "length (render_request token_request) = 97"
  by code_simp+

text \<open>
  Well-formed requests are understood: a request written with one space between method, path
  and version, its token and lifetime headers, its \<open>Content-Length\<close>, a blank line and its body
  is parsed back to exactly that request, for every body that fits the limit.
\<close>

theorem http_request_roundtrip:
  assumes "request_ok r" "length (render_request r) \<le> MAX_REQUEST_BYTES"
  shows "try_parse_http (render_request r) = Some (HttpComplete r)"
  by (rule render_request_parsed [OF assms])

theorem http_request_roundtrip_witness:
  "try_parse_http (render_request token_request) = Some (HttpComplete token_request)"
  by (rule http_request_roundtrip) (simp_all add: token_request_ok MAX_REQUEST_BYTES_def)

end
