(* ===== verification/Mmds_Tcp.thy ===== *)
theory Mmds_Tcp
  imports Mmds_Wire Mmds_Http
begin

text \<open>
  The TCP server of the metadata endpoint, the second part of \<open>src/crates/mmds/src/tcp.rs\<close>:
  connections keyed by client address and port, the handshake, in-order data, the response and
  the close.

  The HTTP handler is a closure over shared state; here it is a function that threads that
  state. \<open>None\<close> is the panic of \<open>try_parse_http\<close>.
\<close>

datatype tcp_state = SynReceived | Established | LastAck

record conn_key =
  ck_src_ip :: ipv4_addr
  ck_src_port :: u16

record conn =
  cn_state :: tcp_state
  cn_snd_nxt :: u32
  cn_rcv_nxt :: u32
  cn_rcv_buf :: bytes

definition conn_new :: "u32 \<Rightarrow> u32 \<Rightarrow> conn" where
  "conn_new client_seq server_iss =
     \<lparr>cn_state = SynReceived, cn_snd_nxt = server_iss + 1, cn_rcv_nxt = client_seq + 1, cn_rcv_buf = []\<rparr>"

record outbound_frame =
  of_dst_mac :: mac
  of_eth_payload :: bytes

record tcp_server =
  ts_server_port :: u16
  ts_server_ip :: ipv4_addr
  ts_server_mac :: mac
  ts_guest_mac :: "mac option"
  ts_conns :: "conn_key \<rightharpoonup> conn"
  ts_next_iss :: u32
  ts_ip_id :: u16
  ts_out_queue :: "outbound_frame list"

type_synonym 'h http_handler = "'h \<Rightarrow> http_request \<Rightarrow> 'h \<times> http_response"

definition tcp_server_new :: "ipv4_addr \<Rightarrow> u16 \<Rightarrow> mac \<Rightarrow> tcp_server" where
  "tcp_server_new server_ip server_port server_mac =
     \<lparr>ts_server_port = server_port, ts_server_ip = server_ip, ts_server_mac = server_mac,
      ts_guest_mac = None, ts_conns = Map.empty, ts_next_iss = 0x40000000, ts_ip_id = 1,
      ts_out_queue = []\<rparr>"

definition ts_set_ip :: "tcp_server \<Rightarrow> ipv4_addr \<Rightarrow> tcp_server" where
  "ts_set_ip self ip = self\<lparr>ts_server_ip := ip\<rparr>"

definition ts_set_guest_mac :: "tcp_server \<Rightarrow> mac \<Rightarrow> tcp_server" where
  "ts_set_guest_mac self m = self\<lparr>ts_guest_mac := Some m\<rparr>"

definition build_outbound ::
  "tcp_server \<Rightarrow> tcp_header \<Rightarrow> ipv4_addr \<Rightarrow> bytes \<Rightarrow> tcp_server \<times> outbound_frame" where
  "build_outbound inner tcp dst_ip payload =
     (let server_ip = ts_server_ip inner;
          inner' = inner\<lparr>ts_ip_id := ts_ip_id inner + 1\<rparr>;
          tcp_bytes = tcp_to_bytes_with_payload tcp server_ip dst_ip payload;
          ip = ipv4_build server_ip dst_ip ProtoTcp (try_from_nat_or_max (length tcp_bytes)) (ts_ip_id inner');
          dst_mac = (case ts_guest_mac inner' of Some m \<Rightarrow> m | None \<Rightarrow> replicate 6 0xFF)
      in (inner', \<lparr>of_dst_mac = dst_mac, of_eth_payload = ipv4_to_bytes ip @ tcp_bytes\<rparr>))"

text \<open>\<open>build_outbound\<close> followed by the push onto \<open>out_queue\<close>, as every caller does.\<close>

definition push_outbound :: "tcp_server \<Rightarrow> tcp_header \<Rightarrow> ipv4_addr \<Rightarrow> bytes \<Rightarrow> tcp_server" where
  "push_outbound inner tcp dst_ip payload =
     (case build_outbound inner tcp dst_ip payload of
        (inner', frame) \<Rightarrow> inner'\<lparr>ts_out_queue := ts_out_queue inner' @ [frame]\<rparr>)"

definition send_response :: "tcp_server \<Rightarrow> conn_key \<Rightarrow> http_response \<Rightarrow> tcp_server" where
  "send_response inner key response =
     (let wire = http_to_wire response
      in case ts_conns inner key of
           None \<Rightarrow> inner
         | Some c \<Rightarrow>
             let snd_seq = cn_snd_nxt c; payload_len = of_nat (length wire);
                 c' = c\<lparr>cn_snd_nxt := snd_seq + payload_len + 1, cn_state := LastAck\<rparr>;
                 inner' = inner\<lparr>ts_conns := (ts_conns inner)(key \<mapsto> c')\<rparr>;
                 resp_seg = tcp_build (ts_server_port inner) (ck_src_port key) snd_seq (cn_rcv_nxt c)
                              (TCP_ACK OR TCP_PSH OR TCP_FIN) 0xFFFF
             in push_outbound inner' resp_seg (ck_src_ip key) wire)"

definition malformed_response :: http_response where
  "malformed_response = \<lparr>rs_status = 400, rs_body =
     [123, 34] @ ascii ''fault_message'' @ [34, 58, 34] @ ascii ''malformed request'' @ [34, 125]\<rparr>"

definition too_large_response :: http_response where
  "too_large_response = \<lparr>rs_status = 413, rs_body =
     [123, 34] @ ascii ''fault_message'' @ [34, 58, 34] @ ascii ''request too large'' @ [34, 125]\<rparr>"

definition on_data ::
  "'h http_handler \<Rightarrow> 'h \<Rightarrow> tcp_server \<Rightarrow> conn_key \<Rightarrow> bytes \<Rightarrow> ('h \<times> tcp_server) option" where
  "on_data handler h inner key payload =
     (case ts_conns inner key of
        None \<Rightarrow> Some (h, inner)
      | Some c \<Rightarrow>
          let c' = c\<lparr>cn_rcv_nxt := cn_rcv_nxt c + of_nat (length payload),
                     cn_rcv_buf := cn_rcv_buf c @ payload\<rparr>;
              inner' = inner\<lparr>ts_conns := (ts_conns inner)(key \<mapsto> c')\<rparr>;
              ack = tcp_build (ts_server_port inner) (ck_src_port key) (cn_snd_nxt c') (cn_rcv_nxt c') TCP_ACK 0xFFFF;
              inner'' = push_outbound inner' ack (ck_src_ip key) []
          in case try_parse_http (cn_rcv_buf c') of
               None \<Rightarrow> None
             | Some HttpIncomplete \<Rightarrow> Some (h, inner'')
             | Some HttpMalformed \<Rightarrow> Some (h, send_response inner'' key malformed_response)
             | Some HttpTooLarge \<Rightarrow> Some (h, send_response inner'' key too_large_response)
             | Some (HttpComplete req) \<Rightarrow>
                 (case handler h req of (h', response) \<Rightarrow> Some (h', send_response inner'' key response)))"

definition on_fin :: "tcp_server \<Rightarrow> conn_key \<Rightarrow> tcp_server" where
  "on_fin inner key =
     (case ts_conns inner key of
        None \<Rightarrow> inner
      | Some c \<Rightarrow>
          let rcv_nxt = cn_rcv_nxt c + 1; snd_nxt = cn_snd_nxt c;
              c' = c\<lparr>cn_rcv_nxt := rcv_nxt, cn_snd_nxt := snd_nxt + 1, cn_state := LastAck\<rparr>;
              inner' = inner\<lparr>ts_conns := (ts_conns inner)(key \<mapsto> c')\<rparr>;
              fin_ack = tcp_build (ts_server_port inner) (ck_src_port key) snd_nxt rcv_nxt (TCP_FIN OR TCP_ACK) 0xFFFF
          in push_outbound inner' fin_ack (ck_src_ip key) [])"

definition handle_syn :: "tcp_server \<Rightarrow> conn_key \<Rightarrow> tcp_header \<Rightarrow> tcp_server" where
  "handle_syn inner key tcp =
     (let server_iss = ts_next_iss inner;
          inner' = inner\<lparr>ts_next_iss := ts_next_iss inner + 0x10000\<rparr>;
          c = conn_new (tcp_seq tcp) server_iss;
          syn_ack = tcp_build (ts_server_port inner') (tcp_src_port tcp) server_iss (cn_rcv_nxt c)
                      (TCP_SYN OR TCP_ACK) 0xFFFF;
          inner'' = push_outbound inner' syn_ack (ck_src_ip key) []
      in inner''\<lparr>ts_conns := (ts_conns inner'')(key \<mapsto> c)\<rparr>)"

definition tcp_dispatch ::
  "'h http_handler \<Rightarrow> 'h \<Rightarrow> tcp_server \<Rightarrow> conn_key \<Rightarrow> tcp_header \<Rightarrow> bytes \<Rightarrow> ('h \<times> tcp_server) option" where
  "tcp_dispatch handler h inner key tcp payload =
     (if tcp_is_rst tcp then Some (h, inner\<lparr>ts_conns := (ts_conns inner)(key := None)\<rparr>)
      else if tcp_is_syn tcp \<and> \<not> tcp_is_ack tcp then Some (h, handle_syn inner key tcp)
      else case ts_conns inner key of
        None \<Rightarrow>
          (let rst = tcp_build (ts_server_port inner) (tcp_src_port tcp) (tcp_ack tcp)
                       (tcp_seq tcp + of_nat (length payload)) (TCP_RST OR TCP_ACK) 0
           in Some (h, push_outbound inner rst (ck_src_ip key) []))
      | Some c \<Rightarrow>
          if tcp_seq tcp \<noteq> cn_rcv_nxt c \<and> payload \<noteq> [] then Some (h, inner)
          else case cn_state c of
            SynReceived \<Rightarrow>
              if tcp_is_ack tcp \<and> tcp_ack tcp = cn_snd_nxt c
              then let inner' = inner\<lparr>ts_conns := (ts_conns inner)(key \<mapsto> c\<lparr>cn_state := Established\<rparr>)\<rparr>
                   in if payload \<noteq> [] then on_data handler h inner' key payload else Some (h, inner')
              else Some (h, inner)
          | Established \<Rightarrow>
              (case if payload \<noteq> [] then on_data handler h inner key payload else Some (h, inner) of
                 None \<Rightarrow> None
               | Some (h', inner') \<Rightarrow> Some (h', if tcp_is_fin tcp then on_fin inner' key else inner'))
          | LastAck \<Rightarrow>
              if tcp_is_ack tcp \<and> tcp_ack tcp = cn_snd_nxt c
              then Some (h, inner\<lparr>ts_conns := (ts_conns inner)(key := None)\<rparr>)
              else Some (h, inner))"

definition handle_ip_frame ::
  "'h http_handler \<Rightarrow> 'h \<Rightarrow> tcp_server \<Rightarrow> mac \<Rightarrow> bytes \<Rightarrow> (('h \<times> tcp_server) \<times> bool) option" where
  "handle_ip_frame handler h self eth_src_mac payload =
     (case ipv4_parse payload of
        Inl _ \<Rightarrow> Some ((h, self), False)
      | Inr ip \<Rightarrow>
          if ip_protocol ip \<noteq> ip_protocol_wire ProtoTcp then Some ((h, self), False)
          else if ip_dst ip \<noteq> ts_server_ip self then Some ((h, self), False)
          else let tcp_start = IPV4_HDR_LEN; tcp_end = unat (ip_total_len ip)
               in if tcp_end > length payload \<or> tcp_start \<ge> tcp_end then Some ((h, self), False)
                  else if length payload < tcp_start + 13 then Some ((h, self), False)
                  else let data_offset = drop_bit 4 (payload ! (tcp_start + 12));
                           tcp_hdr_end = tcp_start + 4 * unat data_offset
                       in if tcp_hdr_end > tcp_end then Some ((h, self), False)
                          else let tcp_payload = slice tcp_hdr_end (tcp_end - tcp_hdr_end) payload
                               in case tcp_parse (slice tcp_start (tcp_hdr_end - tcp_start) payload)
                                         tcp_payload (ip_src ip) (ip_dst ip) of
                                    Inl _ \<Rightarrow> Some ((h, self), False)
                                  | Inr tcp \<Rightarrow>
                                      if tcp_dst_port tcp \<noteq> ts_server_port self then Some ((h, self), False)
                                      else let self' = self\<lparr>ts_guest_mac := Some eth_src_mac\<rparr>;
                                               key = \<lparr>ck_src_ip = ip_src ip, ck_src_port = tcp_src_port tcp\<rparr>
                                           in map_option (\<lambda>s. (s, True))
                                                (tcp_dispatch handler h self' key tcp tcp_payload))"

definition drain_outbound :: "tcp_server \<Rightarrow> tcp_server \<times> outbound_frame list" where
  "drain_outbound self = (self\<lparr>ts_out_queue := []\<rparr>, ts_out_queue self)"

end
