(* ===== verification/Mmds_Session.thy ===== *)
theory Mmds_Session
  imports Mmds_Tcp
begin

text \<open>
  What a client of the metadata endpoint observes of \<open>src/crates/mmds/src/tcp.rs\<close>: the
  segments the server emits are well formed, the request the handler sees is the one the client
  sent whatever the network did to its segments, it is served once, and delivering it in order
  does get it served.
\<close>

subsection \<open>What the server emits\<close>

lemma push_outbound_frame [simp]:
  "ts_conns (push_outbound s t d p) = ts_conns s"
  "ts_server_port (push_outbound s t d p) = ts_server_port s"
  "ts_server_ip (push_outbound s t d p) = ts_server_ip s"
  "ts_next_iss (push_outbound s t d p) = ts_next_iss s"
  "ts_guest_mac (push_outbound s t d p) = ts_guest_mac s"
  "ts_out_queue (push_outbound s t d p) = ts_out_queue s @ [snd (build_outbound s t d p)]"
  by (simp_all add: push_outbound_def build_outbound_def Let_def)

text \<open>A receiver: the IPv4 header, the segment its length field delimits, the TCP header, the
  payload.\<close>

definition receive_segment :: "bytes \<Rightarrow> (ipv4_addr \<times> ipv4_addr \<times> tcp_header \<times> bytes) option" where
  "receive_segment bs =
     (case ipv4_parse bs of
        Inl _ \<Rightarrow> None
      | Inr ip \<Rightarrow>
          let seg = slice 20 (unat (ip_total_len ip) - 20) bs;
              hdr_len = 4 * unat (drop_bit 4 (seg ! 12))
          in case tcp_parse (take hdr_len seg) (drop hdr_len seg) (ip_src ip) (ip_dst ip) of
               Inl _ \<Rightarrow> None
             | Inr tcp \<Rightarrow> Some (ip_src ip, ip_dst ip, tcp, drop hdr_len seg))"

lemma nth_12_tcp_to_bytes:
  "tcp_data_offset h = 5 \<Longrightarrow> drop_bit 4 (tcp_to_bytes_with_payload h src dst payload ! 12) = 5"
proof -
  have v: "drop_bit 4 (push_bit 4 (5 :: u8)) = 5" by code_simp
  show "tcp_data_offset h = 5 \<Longrightarrow> ?thesis"
    by (simp add: tcp_to_bytes_eq tcp_bytes_with_def to_be_bytes_2 to_be_bytes_4 v)
qed

lemma receive_outbound:
  assumes "length (ts_server_ip s) = 4" "length dst = 4" "length payload \<le> 65495" "flags AND 0x3F = flags"
  shows "receive_segment (of_eth_payload (snd (build_outbound s (tcp_build sp dp seq ack flags win) dst payload))) =
    Some (ts_server_ip s, dst, tcp_build sp dp seq ack flags win, payload)"
proof -
  let ?t = "tcp_build sp dp seq ack flags win"
  let ?out = "tcp_to_bytes_with_payload ?t (ts_server_ip s) dst payload"
  let ?ip = "ipv4_build (ts_server_ip s) dst ProtoTcp (try_from_nat_or_max (length ?out)) (ts_ip_id s + 1)"
  have e: "of_eth_payload (snd (build_outbound s ?t dst payload)) = ipv4_to_bytes ?ip @ ?out"
    by (simp add: build_outbound_def Let_def)
  have len: "length ?out = 20 + length payload" by (rule length_tcp_to_bytes)
  have n: "unat (try_from_nat_or_max (length ?out) :: u16) = 20 + length payload"
    using assms(3) by (simp add: len try_from_nat_or_max_def try_from_nat_def unsigned_of_nat take_bit_nat_eq_self del: of_nat_add)
  have tot: "unat (ip_total_len ?ip) = 40 + length payload"
    using assms(3) n by (simp add: ipv4_build_def IPV4_HDR_LEN_def unat_saturating_add)
  have "length (ipv4_to_bytes ?ip) = 20"
    by (rule length_ipv4_to_bytes) (simp_all add: assms ipv4_build_def)
  then have seg: "slice 20 (unat (ip_total_len ?ip) - 20) (ipv4_to_bytes ?ip @ ?out) = ?out"
    unfolding tot by (simp add: slice_def len)
  have off: "drop_bit 4 (?out ! 12) = 5" by (rule nth_12_tcp_to_bytes) (simp add: tcp_build_def)
  have src: "ip_src ?ip = ts_server_ip s" "ip_dst ?ip = dst" by (simp_all add: ipv4_build_def)
  show ?thesis
    unfolding e receive_segment_def ipv4_build_roundtrip [OF assms(1,2)]
    by (simp add: Let_def seg off src drop_tcp_to_bytes tcp_build_roundtrip [OF assms(4)])
qed

subsection \<open>Runs\<close>

type_synonym segment_event = "conn_key \<times> tcp_header \<times> bytes"

fun tcp_run :: "'h http_handler \<Rightarrow> 'h \<times> tcp_server \<Rightarrow> segment_event list \<Rightarrow> ('h \<times> tcp_server) option" where
  "tcp_run handler hs [] = Some hs"
| "tcp_run handler hs ((key, tcp, payload) # evs) =
     (case tcp_dispatch handler (fst hs) (snd hs) key tcp payload of
        None \<Rightarrow> None
      | Some hs' \<Rightarrow> tcp_run handler hs' evs)"

text \<open>A segment of the byte stream \<open>S\<close> of a client with initial sequence number \<open>isn\<close>.\<close>

definition of_stream :: "u32 \<Rightarrow> bytes \<Rightarrow> tcp_header \<Rightarrow> bytes \<Rightarrow> bool" where
  "of_stream isn S tcp payload \<longleftrightarrow>
     \<not> tcp_is_rst tcp \<and> \<not> (tcp_is_syn tcp \<and> \<not> tcp_is_ack tcp) \<and>
     (payload = [] \<or> (\<exists>off. tcp_seq tcp = isn + 1 + of_nat off \<and> off + length payload \<le> length S \<and>
        payload = slice off (length payload) S))"

lemma on_data_conns_other:
  "on_data handler h s key p = Some (h', s') \<Longrightarrow> k \<noteq> key \<Longrightarrow> ts_conns s' k = ts_conns s k"
  by (auto simp: on_data_def send_response_def Let_def split: option.splits http_parse_outcome.splits prod.splits)

lemma on_fin_conns_other: "k \<noteq> key \<Longrightarrow> ts_conns (on_fin s key) k = ts_conns s k"
  by (auto simp: on_fin_def Let_def split: option.splits)

lemma dispatch_conns_other:
  "tcp_dispatch handler h s key tcp p = Some (h', s') \<Longrightarrow> k \<noteq> key \<Longrightarrow> ts_conns s' k = ts_conns s k"
  by (auto simp: tcp_dispatch_def handle_syn_def Let_def on_fin_conns_other
      split: if_splits option.splits tcp_state.splits dest: on_data_conns_other)

subsection \<open>One connection\<close>

text \<open>
  The state of a connection that has received the first \<open>n\<close> bytes of \<open>S\<close>; until the server
  answers, those bytes are not a verdict yet.
\<close>

definition conn_ok :: "u32 \<Rightarrow> bytes \<Rightarrow> conn \<Rightarrow> bool" where
  "conn_ok isn S c \<longleftrightarrow>
     (\<exists>n \<le> length S. cn_rcv_buf c = take n S \<and>
        (cn_state c \<noteq> LastAck \<longrightarrow> cn_rcv_nxt c = isn + 1 + of_nat n \<and>
           try_parse_http (take n S) = Some HttpIncomplete))"

lemma try_parse_http_Nil: "try_parse_http [] = Some HttpIncomplete"
  by (simp add: try_parse_http_def find_subsequence_Nil)

lemma conn_ok_new: "conn_ok isn S (conn_new isn iss)"
  by (auto simp: conn_ok_def conn_new_def try_parse_http_Nil intro!: exI [of _ 0])

text \<open>An accepted segment extends the prefix.\<close>

lemma accepted_segment:
  assumes S: "length S < 2 ^ 32" and n: "n \<le> length S" "off + length payload \<le> length S"
    and seq: "isn + 1 + of_nat off = (isn + 1 + of_nat n :: u32)"
    and pay: "payload = slice off (length payload) S"
  shows "take n S @ payload = take (n + length payload) S" "n + length payload \<le> length S"
proof -
  have "(of_nat off :: u32) = of_nat n" using seq by simp
  moreover have "unat (of_nat m :: u32) = m" if "m \<le> length S" for m
    using that S by (simp add: unsigned_of_nat take_bit_nat_eq_self)
  ultimately have off: "off = n" using n by (metis add_leD1)
  show "take n S @ payload = take (n + length payload) S"
    using pay by (simp add: off slice_def take_add)
  show "n + length payload \<le> length S" using n(2) off by simp
qed

lemma on_data_conn:
  assumes "ts_conns s k = Some c" "on_data handler h s k p = Some (h', s')"
  obtains (waiting) c' where "ts_conns s' k = Some c'" "cn_state c' = cn_state c" "h' = h"
      "cn_rcv_buf c' = cn_rcv_buf c @ p" "cn_rcv_nxt c' = cn_rcv_nxt c + of_nat (length p)"
      "try_parse_http (cn_rcv_buf c @ p) = Some HttpIncomplete"
  | (refused) c' where "ts_conns s' k = Some c'" "cn_state c' = LastAck" "h' = h"
      "cn_rcv_buf c' = cn_rcv_buf c @ p"
      "try_parse_http (cn_rcv_buf c @ p) \<in> {Some HttpMalformed, Some HttpTooLarge}"
  | (served) c' r where "ts_conns s' k = Some c'" "cn_state c' = LastAck" "h' = fst (handler h r)"
      "cn_rcv_buf c' = cn_rcv_buf c @ p"
      "try_parse_http (cn_rcv_buf c @ p) = Some (HttpComplete r)"
proof (cases "try_parse_http (cn_rcv_buf c @ p)")
  case None
  with assms show thesis by (simp add: on_data_def Let_def)
next
  case (Some v)
  show thesis
  proof (cases v)
    case HttpIncomplete
    with Some assms have "h' = h" and t: "ts_conns s' k =
        Some (c\<lparr>cn_rcv_nxt := cn_rcv_nxt c + of_nat (length p), cn_rcv_buf := cn_rcv_buf c @ p\<rparr>)"
      by (auto simp: on_data_def Let_def)
    with HttpIncomplete Some show thesis by (intro waiting [OF t]) simp_all
  next
    case (HttpComplete r)
    obtain h1 resp where "handler h r = (h1, resp)" by (cases "handler h r")
    with HttpComplete Some assms have "h' = fst (handler h r)" and t: "ts_conns s' k =
        Some (c\<lparr>cn_rcv_nxt := cn_rcv_nxt c + of_nat (length p), cn_rcv_buf := cn_rcv_buf c @ p,
          cn_snd_nxt := cn_snd_nxt c + of_nat (length (http_to_wire resp)) + 1, cn_state := LastAck\<rparr>)"
      by (auto simp: on_data_def send_response_def Let_def)
    with HttpComplete Some show thesis by (intro served [OF t]) simp_all
  next
    case HttpMalformed
    with Some assms have "h' = h" and t: "ts_conns s' k =
        Some (c\<lparr>cn_rcv_nxt := cn_rcv_nxt c + of_nat (length p), cn_rcv_buf := cn_rcv_buf c @ p,
          cn_snd_nxt := cn_snd_nxt c + of_nat (length (http_to_wire malformed_response)) + 1, cn_state := LastAck\<rparr>)"
      by (auto simp: on_data_def send_response_def Let_def)
    with HttpMalformed Some show thesis by (intro refused [OF t]) simp_all
  next
    case HttpTooLarge
    with Some assms have "h' = h" and t: "ts_conns s' k =
        Some (c\<lparr>cn_rcv_nxt := cn_rcv_nxt c + of_nat (length p), cn_rcv_buf := cn_rcv_buf c @ p,
          cn_snd_nxt := cn_snd_nxt c + of_nat (length (http_to_wire too_large_response)) + 1, cn_state := LastAck\<rparr>)"
      by (auto simp: on_data_def send_response_def Let_def)
    with HttpTooLarge Some show thesis by (intro refused [OF t]) simp_all
  qed
qed

lemma on_fin_conn:
  "ts_conns s k = Some c \<Longrightarrow>
    \<exists>c'. ts_conns (on_fin s k) k = Some c' \<and> cn_state c' = LastAck \<and> cn_rcv_buf c' = cn_rcv_buf c"
  by (simp add: on_fin_def Let_def)

text \<open>The handler ran, on a prefix of the stream that is a complete request.\<close>

definition ran_handler :: "'h http_handler \<Rightarrow> bytes \<Rightarrow> 'h \<Rightarrow> 'h \<Rightarrow> bool" where
  "ran_handler handler S h h' \<longleftrightarrow>
     (\<exists>r n. try_parse_http (take n S) = Some (HttpComplete r) \<and> h' = fst (handler h r))"

lemma on_data_conn_ok:
  assumes c: "ts_conns s k = Some c" "conn_ok isn S c" "cn_state c \<noteq> LastAck" and S: "length S < 2 ^ 32"
    and seg: "of_stream isn S tcp p" "p \<noteq> []" "tcp_seq tcp = cn_rcv_nxt c"
    and d: "on_data handler h s k p = Some (h', s')"
  shows "\<exists>c'. ts_conns s' k = Some c' \<and> conn_ok isn S c' \<and>
    (h' = h \<and> cn_state c' = cn_state c \<or> cn_state c' = LastAck \<and> (h' = h \<or> ran_handler handler S h h'))"
proof -
  obtain n where n: "n \<le> length S" "cn_rcv_buf c = take n S" "cn_rcv_nxt c = isn + 1 + of_nat n"
    using c(2,3) by (auto simp: conn_ok_def)
  obtain off where off: "isn + 1 + of_nat off = (isn + 1 + of_nat n :: u32)" "off + length p \<le> length S"
    "p = slice off (length p) S"
    using seg n(3) by (auto simp: of_stream_def)
  note ext = accepted_segment [OF S n(1) off(2) off(1) off(3)]
  have buf: "cn_rcv_buf c @ p = take (n + length p) S" using n(2) ext(1) by simp
  from c(1) d show ?thesis
  proof (cases rule: on_data_conn)
    case (waiting c')
    have "conn_ok isn S c'"
      unfolding conn_ok_def using waiting n ext(2) buf
      by (intro exI [of _ "n + length p"]) (simp add: algebra_simps)
    with waiting show ?thesis by blast
  next
    case (refused c')
    have "conn_ok isn S c'"
      unfolding conn_ok_def using refused ext(2) buf by (intro exI [of _ "n + length p"]) simp
    with refused show ?thesis by blast
  next
    case (served c' r)
    have "conn_ok isn S c'"
      unfolding conn_ok_def using served ext(2) buf by (intro exI [of _ "n + length p"]) simp
    moreover have "ran_handler handler S h h'"
      using served(3,5) unfolding buf ran_handler_def by blast
    ultimately show ?thesis using served by blast
  qed
qed

lemma conn_ok_closed: "conn_ok isn S c \<Longrightarrow> cn_rcv_buf c' = cn_rcv_buf c \<Longrightarrow> cn_state c' = LastAck \<Longrightarrow> conn_ok isn S c'"
  by (auto simp: conn_ok_def)

lemma conn_ok_established:
  "conn_ok isn S c \<Longrightarrow> cn_state c \<noteq> LastAck \<Longrightarrow> conn_ok isn S (c\<lparr>cn_state := Established\<rparr>)"
  by (auto simp: conn_ok_def)

text \<open>One segment of the stream: the connection stays in the invariant or is closed, and the
  handler runs at most once, when the connection leaves the receiving states.\<close>

definition conn_step_ok :: "'h http_handler \<Rightarrow> u32 \<Rightarrow> bytes \<Rightarrow> 'h \<Rightarrow> 'h \<Rightarrow> conn option \<Rightarrow> bool" where
  "conn_step_ok handler isn S h h' co \<longleftrightarrow>
     (case co of
        None \<Rightarrow> h' = h
      | Some c' \<Rightarrow> conn_ok isn S c' \<and> (h' = h \<or> cn_state c' = LastAck \<and> ran_handler handler S h h'))"

lemma dispatch_conn_ok:
  assumes c: "ts_conns s k = Some c" "conn_ok isn S c" and S: "length S < 2 ^ 32"
    and seg: "of_stream isn S tcp p" and d: "tcp_dispatch handler h s k tcp p = Some (h', s')"
  shows "conn_step_ok handler isn S h h' (ts_conns s' k) \<and>
    (cn_state c = LastAck \<longrightarrow> h' = h \<and> (\<forall>c'. ts_conns s' k = Some c' \<longrightarrow> cn_state c' = LastAck))"
proof -
  have nf: "\<not> tcp_is_rst tcp" "\<not> (tcp_is_syn tcp \<and> \<not> tcp_is_ack tcp)" using seg by (auto simp: of_stream_def)
  show ?thesis
  proof (cases "tcp_seq tcp \<noteq> cn_rcv_nxt c \<and> p \<noteq> []")
    case True
    with c d nf show ?thesis by (auto simp: tcp_dispatch_def conn_step_ok_def)
  next
    case False
    then have seq: "p \<noteq> [] \<Longrightarrow> tcp_seq tcp = cn_rcv_nxt c" by blast
    show ?thesis
    proof (cases "cn_state c")
      case LastAck
      with c d nf False show ?thesis
        by (auto simp: tcp_dispatch_def conn_step_ok_def split: if_splits)
    next
      case SynReceived
      let ?c = "c\<lparr>cn_state := Established\<rparr>" and ?s = "s\<lparr>ts_conns := (ts_conns s)(k \<mapsto> c\<lparr>cn_state := Established\<rparr>)\<rparr>"
      have ok: "conn_ok isn S ?c" using c(2) SynReceived by (simp add: conn_ok_established)
      show ?thesis
      proof (cases "tcp_is_ack tcp \<and> tcp_ack tcp = cn_snd_nxt c \<and> p \<noteq> []")
        case True
        with c d nf False SynReceived have "on_data handler h ?s k p = Some (h', s')"
          by (simp add: tcp_dispatch_def Let_def)
        with on_data_conn_ok [of ?s k ?c isn S tcp p handler h h' s'] ok S seg seq True show ?thesis
          by (auto simp: conn_step_ok_def SynReceived)
      next
        case F: False
        with c d nf False SynReceived ok show ?thesis
          by (auto simp: tcp_dispatch_def Let_def conn_step_ok_def split: if_splits)
      qed
    next
      case Established
      obtain s1 where s1: "(if p \<noteq> [] then on_data handler h s k p else Some (h, s)) = Some (h', s1)"
        "s' = (if tcp_is_fin tcp then on_fin s1 k else s1)"
        using c d nf False Established by (auto simp: tcp_dispatch_def split: option.splits)
      have "conn_step_ok handler isn S h h' (ts_conns s1 k) \<and> ts_conns s1 k \<noteq> None"
      proof (cases "p = []")
        case True
        with s1(1) c show ?thesis by (simp add: conn_step_ok_def)
      next
        case F: False
        with on_data_conn_ok [OF c _ S seg F seq [OF F], of handler h h' s1] s1(1) Established show ?thesis
          by (auto simp: conn_step_ok_def)
      qed
      then obtain c1 where c1: "ts_conns s1 k = Some c1" "conn_ok isn S c1"
        "h' = h \<or> cn_state c1 = LastAck \<and> ran_handler handler S h h'"
        by (auto simp: conn_step_ok_def)
      obtain c2 where c2: "ts_conns (on_fin s1 k) k = Some c2" "cn_state c2 = LastAck" "cn_rcv_buf c2 = cn_rcv_buf c1"
        using on_fin_conn [OF c1(1)] by blast
      show ?thesis
        using c1 c2 s1(2) conn_ok_closed [OF c1(2) c2(3,2)] Established by (auto simp: conn_step_ok_def)
    qed
  qed
qed

subsection \<open>Served once\<close>

text \<open>A handler that records the requests it sees.\<close>

definition recording :: "(http_request \<Rightarrow> http_response) \<Rightarrow> http_request list http_handler" where
  "recording resp = (\<lambda>log r. (log @ [r], resp r))"

definition session_ok :: "u32 \<Rightarrow> bytes \<Rightarrow> http_request list \<Rightarrow> conn option \<Rightarrow> bool" where
  "session_ok isn S log co \<longleftrightarrow>
     (log = [] \<or> (\<exists>r n. log = [r] \<and> try_parse_http (take n S) = Some (HttpComplete r))) \<and>
     (case co of None \<Rightarrow> True | Some c \<Rightarrow> conn_ok isn S c \<and> (cn_state c \<noteq> LastAck \<longrightarrow> log = []))"

lemma session_ok_dispatch:
  assumes "session_ok isn S log (ts_conns s k)" "length S < 2 ^ 32" "of_stream isn S tcp p"
    and d: "tcp_dispatch (recording resp) log s k tcp p = Some (log', s')"
  shows "session_ok isn S log' (ts_conns s' k)"
proof (cases "ts_conns s k")
  case None
  with assms show ?thesis
    by (auto simp: tcp_dispatch_def of_stream_def session_ok_def Let_def split: if_splits)
next
  case (Some c)
  with assms(1) have c: "conn_ok isn S c" "cn_state c \<noteq> LastAck \<Longrightarrow> log = []"
    "log = [] \<or> (\<exists>r n. log = [r] \<and> try_parse_http (take n S) = Some (HttpComplete r))"
    by (auto simp: session_ok_def)
  have st: "conn_step_ok (recording resp) isn S log log' (ts_conns s' k)"
    "cn_state c = LastAck \<Longrightarrow> log' = log \<and> (\<forall>c'. ts_conns s' k = Some c' \<longrightarrow> cn_state c' = LastAck)"
    using dispatch_conn_ok [OF Some c(1) assms(2,3) d] by auto
  show ?thesis
  proof (cases "cn_state c = LastAck")
    case True
    with st c show ?thesis
      by (auto simp: session_ok_def conn_step_ok_def split: option.splits)
  next
    case False
    with st(1) c(2) show ?thesis
      by (auto simp: session_ok_def conn_step_ok_def ran_handler_def recording_def split: option.splits)
  qed
qed

lemma session_ok_run:
  assumes "session_ok isn S log (ts_conns s k)" "length S < 2 ^ 32"
    and "\<forall>(key, tcp, p) \<in> set evs. key = k \<and> of_stream isn S tcp p"
    and "tcp_run (recording resp) (log, s) evs = Some (log', s')"
  shows "session_ok isn S log' (ts_conns s' k)"
  using assms
proof (induction evs arbitrary: log s)
  case (Cons ev evs)
  obtain tcp p where ev: "ev = (k, tcp, p)" "of_stream isn S tcp p" using Cons.prems(3) by (cases ev) auto
  obtain log1 s1 where d: "tcp_dispatch (recording resp) log s k tcp p = Some (log1, s1)"
    "tcp_run (recording resp) (log1, s1) evs = Some (log', s')"
    using Cons.prems(4) by (auto simp: ev split: option.splits)
  have "session_ok isn S log1 (ts_conns s1 k)"
    by (rule session_ok_dispatch [OF Cons.prems(1,2) ev(2) d(1)])
  with Cons.IH [OF _ Cons.prems(2) _ d(2)] Cons.prems(3) show ?case by simp
qed simp

lemma try_parse_http_prefix:
  "try_parse_http (take n S) = Some (HttpComplete r) \<Longrightarrow> length S \<le> MAX_REQUEST_BYTES \<Longrightarrow>
    try_parse_http S = Some (HttpComplete r)"
  using try_parse_http_stable [of "take n S" "HttpComplete r" "drop n S"] by simp

subsection \<open>Served\<close>

lemma try_parse_http_None_stable:
  assumes "try_parse_http p = None" "length (p @ q) \<le> MAX_REQUEST_BYTES"
  shows "try_parse_http (p @ q) = None"
proof -
  obtain he m pa fs where h: "find_subsequence p [13, 10, 13, 10] = Some he"
    "parse_http_head (take he p) = Some (m, pa, fs)" "2 ^ 64 \<le> he + 4 + unat (hf_content_length fs)"
    using assms(1) unfolding try_parse_http_None_iff by blast
  have "find_subsequence (p @ q) [13, 10, 13, 10] = Some he" "take he (p @ q) = take he p"
    using find_subsequence_append [OF h(1)] find_subsequence_bound [OF h(1)] by simp_all
  with h assms(2) show ?thesis unfolding try_parse_http_None_iff by auto
qed

lemma prefix_verdict:
  assumes "try_parse_http (p @ q) = Some (HttpComplete r)"
  shows "try_parse_http p = Some HttpIncomplete \<or> try_parse_http p = Some (HttpComplete r)"
proof -
  have "length (p @ q) \<le> MAX_REQUEST_BYTES"
    using assms by (auto simp: try_parse_http_def split: if_splits)
  then show ?thesis
    using assms try_parse_http_stable [of p _ q] try_parse_http_None_stable [of p q]
    by (cases "try_parse_http p") auto
qed

lemma client_flags [simp]:
  "tcp_is_rst (tcp_build sp dp seq ack TCP_ACK win) = False"
  "tcp_is_syn (tcp_build sp dp seq ack TCP_ACK win) = False"
  "tcp_is_fin (tcp_build sp dp seq ack TCP_ACK win) = False"
  "tcp_is_ack (tcp_build sp dp seq ack TCP_ACK win) = True"
  "tcp_is_rst (tcp_build sp dp seq ack TCP_SYN win) = False"
  "tcp_is_syn (tcp_build sp dp seq ack TCP_SYN win) = True"
  "tcp_is_ack (tcp_build sp dp seq ack TCP_SYN win) = False"
  by (simp_all add: tcp_is_defs tcp_build_def tcp_flag_defs)

lemma tcp_build_fields [simp]:
  "tcp_seq (tcp_build sp dp seq ack fl win) = seq" "tcp_ack (tcp_build sp dp seq ack fl win) = ack"
  "tcp_src_port (tcp_build sp dp seq ack fl win) = sp"
  by (simp_all add: tcp_build_def)

text \<open>A client with port \<open>sp\<close> sends the pieces \<open>ps\<close> in order.\<close>

fun data_events :: "conn_key \<Rightarrow> u16 \<Rightarrow> u32 \<Rightarrow> u32 \<Rightarrow> bytes list \<Rightarrow> segment_event list" where
  "data_events k dp seq ack [] = []"
| "data_events k dp seq ack (p # ps) =
     (k, tcp_build (ck_src_port k) dp seq ack TCP_ACK 0xFFFF, p) #
     data_events k dp (seq + of_nat (length p)) ack ps"

definition client_session :: "conn_key \<Rightarrow> u16 \<Rightarrow> u32 \<Rightarrow> u32 \<Rightarrow> bytes list \<Rightarrow> segment_event list" where
  "client_session k dp isn iss ps =
     (k, tcp_build (ck_src_port k) dp isn 0 TCP_SYN 0xFFFF, []) #
     (k, tcp_build (ck_src_port k) dp (isn + 1) (iss + 1) TCP_ACK 0xFFFF, []) #
     data_events k dp (isn + 1) (iss + 1) ps"

lemma finished_run:
  assumes "\<And>c. ts_conns s k = Some c \<Longrightarrow> cn_state c = LastAck"
  shows "\<exists>s' q. tcp_run handler (h, s) (data_events k dp seq ack ps) = Some (h, s') \<and>
    ts_out_queue s' = ts_out_queue s @ q"
  using assms
proof (induction ps arbitrary: s seq)
  case (Cons p ps)
  let ?t = "tcp_build (ck_src_port k) dp seq ack TCP_ACK 0xFFFF"
  obtain s1 q1 where s1: "tcp_dispatch handler h s k ?t p = Some (h, s1)"
    "ts_out_queue s1 = ts_out_queue s @ q1" "\<And>c. ts_conns s1 k = Some c \<Longrightarrow> cn_state c = LastAck"
  proof (cases "ts_conns s k")
    case None
    then show thesis by (intro that) (auto simp: tcp_dispatch_def Let_def)
  next
    case (Some c)
    with Cons.prems have "cn_state c = LastAck" by simp
    with Some have "tcp_dispatch handler h s k ?t p = Some (h, s) \<or>
        tcp_dispatch handler h s k ?t p = Some (h, s\<lparr>ts_conns := (ts_conns s)(k := None)\<rparr>)"
      by (simp add: tcp_dispatch_def)
    then show thesis
    proof
      assume "tcp_dispatch handler h s k ?t p = Some (h, s)"
      then show thesis using that [of s "[]"] Cons.prems by simp
    next
      assume "tcp_dispatch handler h s k ?t p = Some (h, s\<lparr>ts_conns := (ts_conns s)(k := None)\<rparr>)"
      then show thesis using that [of "s\<lparr>ts_conns := (ts_conns s)(k := None)\<rparr>" "[]"] by simp
    qed
  qed
  with Cons.IH [of s1] obtain s' q where
    "tcp_run handler (h, s1) (data_events k dp (seq + of_nat (length p)) ack ps) = Some (h, s')"
    "ts_out_queue s' = ts_out_queue s1 @ q" by blast
  with s1 show ?case by simp
qed simp

text \<open>The response of a connection is queued: some frame carries it with the FIN.\<close>

definition response_queued :: "tcp_server \<Rightarrow> conn_key \<Rightarrow> http_response \<Rightarrow> bool" where
  "response_queued s k resp \<longleftrightarrow>
     (\<exists>f \<in> set (ts_out_queue s). \<exists>t. receive_segment (of_eth_payload f) =
        Some (ts_server_ip s, ck_src_ip k, t, http_to_wire resp) \<and> tcp_is_fin t)"

lemma server_flags:
  "(TCP_ACK OR TCP_PSH OR TCP_FIN) AND 0x3F = TCP_ACK OR TCP_PSH OR TCP_FIN"
  "tcp_is_fin (tcp_build sp dp seq ack (TCP_ACK OR TCP_PSH OR TCP_FIN) win)"
  by (simp_all add: tcp_flag_defs tcp_is_defs tcp_build_def)

lemma send_response_queued:
  assumes "ts_conns s k = Some c" "length (ts_server_ip s) = 4" "length (ck_src_ip k) = 4"
    and "length (http_to_wire resp) \<le> 65495"
  shows "response_queued (send_response s k resp) k resp"
    and "\<exists>c'. ts_conns (send_response s k resp) k = Some c' \<and> cn_state c' = LastAck"
  using assms receive_outbound [OF _ assms(3,4) server_flags(1)]
  by (auto simp: response_queued_def send_response_def Let_def server_flags(2))

lemma dispatch_server_ip:
  "tcp_dispatch handler h s k t p = Some (h', s') \<Longrightarrow> ts_server_ip s' = ts_server_ip s"
  by (auto simp: tcp_dispatch_def on_data_def on_fin_def handle_syn_def send_response_def Let_def
      split: if_splits option.splits tcp_state.splits http_parse_outcome.splits prod.splits)

lemma run_server_ip:
  "tcp_run handler hs evs = Some hs' \<Longrightarrow> ts_server_ip (snd hs') = ts_server_ip (snd hs)"
proof (induction handler hs evs rule: tcp_run.induct)
  case (2 handler hs key tcp payload evs)
  then show ?case
    using dispatch_server_ip [of handler "fst hs" "snd hs" key tcp payload] by (auto split: option.splits)
qed simp

lemma deliver_in_order:
  assumes "ts_conns s k = Some c" "cn_state c = Established" "cn_rcv_nxt c = seq"
    and "try_parse_http (cn_rcv_buf c) = Some HttpIncomplete"
    and "try_parse_http (cn_rcv_buf c @ concat ps) = Some (HttpComplete r)" "[] \<notin> set ps"
    and ip: "length (ts_server_ip s) = 4" "length (ck_src_ip k) = 4" "length (http_to_wire (resp r)) \<le> 65495"
  shows "\<exists>s'. tcp_run (recording resp) ([], s) (data_events k dp seq ack ps) = Some ([r], s') \<and>
    response_queued s' k (resp r)"
  using assms(1-7)
proof (induction ps arbitrary: s c seq)
  case Nil
  then show ?case by simp
next
  case (Cons p ps)
  let ?t = "tcp_build (ck_src_port k) dp seq ack TCP_ACK 0xFFFF"
  let ?c = "c\<lparr>cn_rcv_nxt := cn_rcv_nxt c + of_nat (length p), cn_rcv_buf := cn_rcv_buf c @ p\<rparr>"
  let ?s = "push_outbound (s\<lparr>ts_conns := (ts_conns s)(k \<mapsto> ?c)\<rparr>)
    (tcp_build (ts_server_port s) (ck_src_port k) (cn_snd_nxt c) (cn_rcv_nxt c + of_nat (length p)) TCP_ACK 0xFFFF)
    (ck_src_ip k) []"
  have p: "p \<noteq> []" using Cons.prems(6) by auto
  have d: "tcp_dispatch (recording resp) [] s k ?t p = on_data (recording resp) [] s k p"
    using Cons.prems(1-3) p by (auto simp: tcp_dispatch_def split: option.splits)
  have v: "try_parse_http (cn_rcv_buf c @ p) = Some HttpIncomplete \<or> try_parse_http (cn_rcv_buf c @ p) = Some (HttpComplete r)"
    using prefix_verdict [of "cn_rcv_buf c @ p" "concat ps"] Cons.prems(5) by simp
  then show ?case
  proof
    assume i: "try_parse_http (cn_rcv_buf c @ p) = Some HttpIncomplete"
    have "on_data (recording resp) [] s k p = Some ([], ?s)"
      using Cons.prems(1) i by (simp add: on_data_def Let_def)
    moreover have "\<exists>s'. tcp_run (recording resp) ([], ?s) (data_events k dp (seq + of_nat (length p)) ack ps) = Some ([r], s') \<and>
        response_queued s' k (resp r)"
      by (rule Cons.IH [of ?s ?c]) (use Cons.prems i in simp_all)
    ultimately show ?thesis using d by simp
  next
    assume "try_parse_http (cn_rcv_buf c @ p) = Some (HttpComplete r)"
    then have o: "on_data (recording resp) [] s k p = Some ([r], send_response ?s k (resp r))"
      using Cons.prems(1) by (simp add: on_data_def Let_def recording_def)
    let ?s1 = "send_response ?s k (resp r)"
    have q: "response_queued ?s1 k (resp r)" "\<exists>c'. ts_conns ?s1 k = Some c' \<and> cn_state c' = LastAck"
      by (rule send_response_queued [of ?s k ?c]; use Cons.prems(7) ip(2,3) in simp)+
    obtain s' q' where r: "tcp_run (recording resp) ([r], ?s1) (data_events k dp (seq + of_nat (length p)) ack ps) = Some ([r], s')"
      "ts_out_queue s' = ts_out_queue ?s1 @ q'"
      using finished_run [of ?s1 k "recording resp" "[r]" dp "seq + of_nat (length p)" ack ps] q(2) by auto
    have "ts_server_ip s' = ts_server_ip ?s1" using run_server_ip [OF r(1)] by simp
    with q(1) r(2) have "response_queued s' k (resp r)" by (auto simp: response_queued_def)
    with r(1) o d show ?thesis by simp
  qed
qed

lemma session_established:
  "tcp_run handler (h, s) (client_session k dp isn (ts_next_iss s) ps) =
    tcp_run handler (h, (handle_syn s k (tcp_build (ck_src_port k) dp isn 0 TCP_SYN 0xFFFF))\<lparr>ts_conns :=
      (ts_conns s)(k \<mapsto> (conn_new isn (ts_next_iss s))\<lparr>cn_state := Established\<rparr>)\<rparr>)
      (data_events k dp (isn + 1) (ts_next_iss s + 1) ps)"
  by (simp add: client_session_def tcp_dispatch_def handle_syn_def Let_def conn_new_def)

lemma session_served:
  assumes "try_parse_http (concat ps) = Some (HttpComplete r)" "[] \<notin> set ps"
    and "length (ts_server_ip s) = 4" "length (ck_src_ip k) = 4" "length (http_to_wire (resp r)) \<le> 65495"
  shows "\<exists>s'. tcp_run (recording resp) ([], s) (client_session k dp isn (ts_next_iss s) ps) = Some ([r], s') \<and>
    response_queued s' k (resp r)"
  unfolding session_established
  by (rule deliver_in_order [of _ k "(conn_new isn (ts_next_iss s))\<lparr>cn_state := Established\<rparr>"])
    (use assms in \<open>simp_all add: conn_new_def try_parse_http_Nil handle_syn_def Let_def\<close>)

definition demo_key :: conn_key where
  "demo_key = \<lparr>ck_src_ip = [169, 254, 1, 2], ck_src_port = 4660\<rparr>"

definition demo_server :: tcp_server where
  "demo_server = tcp_server_new [169, 254, 169, 254] 80 [6, 1, 0x23, 0x45, 0x67, 1]"

definition demo_pieces :: "bytes list" where
  "demo_pieces = [take 40 (render_request token_request), drop 40 (render_request token_request)]"

definition ok_response :: "http_request \<Rightarrow> http_response" where
  "ok_response r = \<lparr>rs_status = 200, rs_body = rq_body r\<rparr>"

lemma demo_session:
  "try_parse_http (concat demo_pieces) = Some (HttpComplete token_request)" "[] \<notin> set demo_pieces"
  "length (ts_server_ip demo_server) = 4" "length (ck_src_ip demo_key) = 4"
  "length (http_to_wire (ok_response token_request)) \<le> 65495"
proof -
  show "try_parse_http (concat demo_pieces) = Some (HttpComplete token_request)"
    using render_request_parsed [of token_request] token_request_ok by (simp add: demo_pieces_def MAX_REQUEST_BYTES_def)
  show "[] \<notin> set demo_pieces" using token_request_ok(2) by (auto simp: demo_pieces_def)
  show "length (ts_server_ip demo_server) = 4" "length (ck_src_ip demo_key) = 4"
    by (simp_all add: demo_server_def demo_key_def tcp_server_new_def)
  have "length (http_to_wire (ok_response token_request)) < 200" by code_simp
  then show "length (http_to_wire (ok_response token_request)) \<le> 65495" by simp
qed

text \<open>
  C5. A request is served: from any state of the server, a client that completes the handshake and
  sends a complete request in order, cut into segments in any way, gets the handler called exactly
  once with that request, and the response is queued in a well-formed segment with the FIN.
\<close>

theorem request_served:
  assumes "try_parse_http (concat ps) = Some (HttpComplete r)" "[] \<notin> set ps"
    and "length (ts_server_ip s) = 4" "length (ck_src_ip k) = 4" "length (http_to_wire (resp r)) \<le> 65495"
  shows "\<exists>s'. tcp_run (recording resp) ([], s) (client_session k dp isn (ts_next_iss s) ps) = Some ([r], s') \<and>
    response_queued s' k (resp r)"
  by (rule session_served [where resp = resp, OF assms])

theorem request_served_witness:
  "\<exists>s'. tcp_run (recording ok_response) ([], demo_server)
      (client_session demo_key 80 7 (ts_next_iss demo_server) demo_pieces) = Some ([token_request], s') \<and>
    response_queued s' demo_key (ok_response token_request)"
  by (rule request_served [where resp = ok_response, OF demo_session])

text \<open>
  C11. A request is served at most once and as it was sent: a client opens a connection and sends
  segments of one byte stream, which the network may lose, duplicate, reorder and cut anywhere,
  with any acknowledgements and FINs among them. Then the handler is called at most once, and
  only with the request that the whole stream parses to.
\<close>

theorem request_served_at_most_once:
  assumes "tcp_is_syn syn" "\<not> tcp_is_ack syn" "\<not> tcp_is_rst syn" "length S \<le> MAX_REQUEST_BYTES"
    and "\<forall>(key, tcp, p) \<in> set evs. key = k \<and> of_stream (tcp_seq syn) S tcp p"
    and "tcp_run (recording resp) ([], s) ((k, syn, []) # evs) = Some (log, s')"
  shows "log = [] \<or> (\<exists>r. log = [r] \<and> try_parse_http S = Some (HttpComplete r))"
proof -
  have "tcp_dispatch (recording resp) [] s k syn [] = Some ([], handle_syn s k syn)"
    using assms(1-3) by (simp add: tcp_dispatch_def)
  then have r: "tcp_run (recording resp) ([], handle_syn s k syn) evs = Some (log, s')"
    using assms(6) by simp
  have "session_ok (tcp_seq syn) S [] (ts_conns (handle_syn s k syn) k)"
    by (simp add: handle_syn_def Let_def session_ok_def conn_ok_new)
  moreover have "length S < 2 ^ 32" using assms(4) by (simp add: MAX_REQUEST_BYTES_def)
  ultimately have "session_ok (tcp_seq syn) S log (ts_conns s' k)"
    using session_ok_run [OF _ _ assms(5) r] by blast
  then show ?thesis unfolding session_ok_def using try_parse_http_prefix [OF _ assms(4)] by blast
qed

theorem request_served_at_most_once_witness:
  "\<exists>log s'. tcp_run (recording ok_response) ([], demo_server)
      (client_session demo_key 80 7 (ts_next_iss demo_server) demo_pieces) = Some (log, s') \<and> log \<noteq> [] \<and>
    (\<exists>r. log = [r] \<and> try_parse_http (render_request token_request) = Some (HttpComplete r))"
proof -
  let ?k = "demo_key" and ?iss = "ts_next_iss demo_server"
  let ?syn = "tcp_build (ck_src_port ?k) 80 7 0 TCP_SYN 0xFFFF"
  let ?S = "render_request token_request"
  obtain s' where r: "tcp_run (recording ok_response) ([], demo_server) (client_session ?k 80 7 ?iss demo_pieces) =
      Some ([token_request], s')"
    using session_served [where resp = ok_response, OF demo_session] by blast
  have len: "length ?S = 97" by (rule token_request_ok)
  have "\<forall>(key, tcp, p) \<in> set (tl (client_session ?k 80 7 ?iss demo_pieces)). key = ?k \<and> of_stream (tcp_seq ?syn) ?S tcp p"
    using len by (auto simp: client_session_def demo_pieces_def of_stream_def slice_def intro: exI [of _ 0] exI [of _ 40])
  moreover have "client_session ?k 80 7 ?iss demo_pieces = (?k, ?syn, []) # tl (client_session ?k 80 7 ?iss demo_pieces)"
    by (simp add: client_session_def)
  moreover have "length ?S \<le> MAX_REQUEST_BYTES" by (simp add: len MAX_REQUEST_BYTES_def)
  ultimately have "[token_request] = [] \<or> (\<exists>r. [token_request] = [r] \<and> try_parse_http ?S = Some (HttpComplete r))"
    using request_served_at_most_once [of ?syn ?S "tl (client_session ?k 80 7 ?iss demo_pieces)" ?k ok_response
        demo_server "[token_request]" s'] r by simp
  with r show ?thesis by blast
qed

subsection \<open>A request and the FIN in one segment\<close>

lemma fin_flags:
  "(TCP_FIN OR TCP_ACK) AND 0x3F = TCP_FIN OR TCP_ACK"
  "tcp_is_fin (tcp_build sp dp seq ack (TCP_FIN OR TCP_ACK) win)"
  "tcp_is_rst (tcp_build sp dp seq ack (TCP_FIN OR TCP_ACK) win) = False"
  "tcp_is_syn (tcp_build sp dp seq ack (TCP_FIN OR TCP_ACK) win) = False"
  by (simp_all add: tcp_flag_defs tcp_is_defs tcp_build_def)

text \<open>
  C38. A client that closes with its request is answered with two FINs and never forgotten: when
  the segment that completes a request also carries the FIN, the response goes out with a FIN, a
  second FIN follows, and the connection waits for an acknowledgement one beyond the end of the
  stream, so that the client's acknowledgement of the response and of the first FIN leaves the
  server as it is, the connection included.
\<close>

theorem request_with_fin_leaks:
  assumes c: "ts_conns s k = Some c" "cn_state c = Established" "cn_rcv_buf c = []"
    and p: "try_parse_http p = Some (HttpComplete r)" "p \<noteq> []"
    and ip: "length (ts_server_ip s) = 4" "length (ck_src_ip k) = 4" "length (http_to_wire (snd (handler h r))) \<le> 65495"
  defines "n \<equiv> cn_snd_nxt c + of_nat (length (http_to_wire (snd (handler h r))))"
  shows "\<exists>s' c' f1 f2 t1 t2.
    tcp_dispatch handler h s k (tcp_build (ck_src_port k) dp (cn_rcv_nxt c) ack (TCP_FIN OR TCP_ACK) win) p =
      Some (fst (handler h r), s') \<and>
    (\<exists>q. ts_out_queue s' = q @ [f1, f2]) \<and>
    receive_segment (of_eth_payload f1) = Some (ts_server_ip s, ck_src_ip k, t1, http_to_wire (snd (handler h r))) \<and>
    receive_segment (of_eth_payload f2) = Some (ts_server_ip s, ck_src_ip k, t2, []) \<and>
    tcp_is_fin t1 \<and> tcp_is_fin t2 \<and> tcp_seq t1 = cn_snd_nxt c \<and> tcp_seq t2 = n + 1 \<and>
    ts_conns s' k = Some c' \<and> cn_snd_nxt c' = n + 2 \<and>
    tcp_dispatch handler h' s' k (tcp_build (ck_src_port k) dp (cn_rcv_nxt c') (n + 1) TCP_ACK win) [] = Some (h', s')"
proof -
  obtain h1 resp where hr: "handler h r = (h1, resp)" by (cases "handler h r")
  let ?t = "tcp_build (ck_src_port k) dp (cn_rcv_nxt c) ack (TCP_FIN OR TCP_ACK) win"
  let ?c1 = "c\<lparr>cn_rcv_nxt := cn_rcv_nxt c + of_nat (length p), cn_rcv_buf := p\<rparr>"
  let ?c2 = "?c1\<lparr>cn_snd_nxt := n + 1, cn_state := LastAck\<rparr>"
  let ?c3 = "?c2\<lparr>cn_rcv_nxt := cn_rcv_nxt ?c1 + 1, cn_snd_nxt := n + 1 + 1, cn_state := LastAck\<rparr>"
  let ?s1 = "push_outbound (s\<lparr>ts_conns := (ts_conns s)(k \<mapsto> ?c1)\<rparr>)
    (tcp_build (ts_server_port s) (ck_src_port k) (cn_snd_nxt c) (cn_rcv_nxt ?c1) TCP_ACK 0xFFFF) (ck_src_ip k) []"
  let ?r = "tcp_build (ts_server_port s) (ck_src_port k) (cn_snd_nxt c) (cn_rcv_nxt ?c1) (TCP_ACK OR TCP_PSH OR TCP_FIN) 0xFFFF"
  let ?s2a = "?s1\<lparr>ts_conns := (ts_conns ?s1)(k \<mapsto> ?c2)\<rparr>"
  let ?s2 = "push_outbound ?s2a ?r (ck_src_ip k) (http_to_wire resp)"
  let ?f = "tcp_build (ts_server_port s) (ck_src_port k) (n + 1) (cn_rcv_nxt ?c1 + 1) (TCP_FIN OR TCP_ACK) 0xFFFF"
  let ?s3a = "?s2\<lparr>ts_conns := (ts_conns ?s2)(k \<mapsto> ?c3)\<rparr>"
  let ?s3 = "push_outbound ?s3a ?f (ck_src_ip k) []"
  have d: "tcp_dispatch handler h s k ?t p = Some (h1, ?s3)"
    using c p hr by (simp add: tcp_dispatch_def fin_flags on_data_def on_fin_def send_response_def Let_def n_def add.assoc)
  have q: "ts_out_queue ?s3 = ts_out_queue ?s1 @ [snd (build_outbound ?s2a ?r (ck_src_ip k) (http_to_wire resp)),
      snd (build_outbound ?s3a ?f (ck_src_ip k) [])]" by simp
  have f1: "receive_segment (of_eth_payload (snd (build_outbound ?s2a ?r (ck_src_ip k) (http_to_wire resp)))) =
      Some (ts_server_ip s, ck_src_ip k, ?r, http_to_wire resp)"
    using receive_outbound [OF _ ip(2) _ server_flags(1), of ?s2a "http_to_wire resp"] ip hr by simp
  have f2: "receive_segment (of_eth_payload (snd (build_outbound ?s3a ?f (ck_src_ip k) []))) =
      Some (ts_server_ip s, ck_src_ip k, ?f, [])"
    using receive_outbound [OF _ ip(2) _ fin_flags(1), of ?s3a "[]"] ip by simp
  have k3: "ts_conns ?s3 k = Some ?c3" by simp
  have e: "tcp_dispatch handler h' ?s3 k (tcp_build (ck_src_port k) dp (cn_rcv_nxt ?c3) (n + 1) TCP_ACK win) [] = Some (h', ?s3)"
    unfolding tcp_dispatch_def k3 by simp
  show ?thesis
    unfolding d hr fst_conv snd_conv
    by (intro exI [of _ ?s3] exI [of _ ?c3] exI [of _ "snd (build_outbound ?s2a ?r (ck_src_ip k) (http_to_wire resp))"]
        exI [of _ "snd (build_outbound ?s3a ?f (ck_src_ip k) [])"] exI [of _ ?r] exI [of _ ?f] conjI refl f1 f2
        exI [of _ "ts_out_queue ?s1"] q k3 e)
      (simp_all add: server_flags(2) fin_flags(2))
qed

definition demo_conn :: conn where
  "demo_conn = \<lparr>cn_state = Established, cn_snd_nxt = 100, cn_rcv_nxt = 8, cn_rcv_buf = []\<rparr>"

theorem request_with_fin_leaks_witness:
  "\<exists>s' c'. tcp_dispatch (recording ok_response) [] (demo_server\<lparr>ts_conns := [demo_key \<mapsto> demo_conn]\<rparr>) demo_key
      (tcp_build 4660 80 8 100 (TCP_FIN OR TCP_ACK) 0xFFFF) (render_request token_request) = Some ([token_request], s') \<and>
    ts_conns s' demo_key = Some c' \<and>
    cn_snd_nxt c' = 100 + of_nat (length (http_to_wire (ok_response token_request))) + 2"
proof -
  have p: "try_parse_http (render_request token_request) = Some (HttpComplete token_request)"
    using demo_session(1) by (simp add: demo_pieces_def)
  have "render_request token_request \<noteq> []" using token_request_ok(2) by auto
  with request_with_fin_leaks [where s = "demo_server\<lparr>ts_conns := [demo_key \<mapsto> demo_conn]\<rparr>" and k = demo_key
      and c = demo_conn and p = "render_request token_request" and r = token_request
      and handler = "recording ok_response" and h = "[]" and dp = 80 and ack = 100 and win = "0xFFFF" and h' = "[]"]
    p demo_session(3-5)
  show ?thesis by (auto simp: demo_conn_def recording_def demo_key_def)
qed

end
