(* ===== verification/Mmds_Store.thy ===== *)
theory Mmds_Store
  imports Squib_Prelude "HOL-Library.AList"
begin

text \<open>
  The metadata behind the endpoint: the JSON tree with its size cap and merge patch
  (\<open>src/crates/mmds/src/data_store.rs\<close>) and the store of session tokens
  (\<open>src/crates/mmds/src/token.rs\<close>).

  \<open>serde_json::Value\<close> is a datatype with an object as its entries; parsing, printing and JSON
  pointers are the library's and come as parameters (\<open>json_codec\<close>), as do the operating
  system's entropy, the clock (in nanoseconds) and the \<open>base64\<close> encoder. The lemmas compare
  the merge patch with RFC 7396 and show that purging expired tokens is not observable.
\<close>

subsection \<open>The JSON tree\<close>

datatype json =
  JNull
| JBool bool
| JNumber string
| JString bytes
| JArray "json list"
| JObject "(bytes \<times> json) list"

record json_codec =
  jc_from_str :: "bytes \<Rightarrow> string + json"
  jc_to_string :: "json \<Rightarrow> bytes"
  jc_to_vec :: "json \<Rightarrow> string + bytes"
  jc_pointer :: "json \<Rightarrow> bytes \<Rightarrow> json option"

datatype mmds_version = V1 | V2

datatype mmds_error =
  SizeLimitExceeded nat nat
| PathNotFound bytes
| InvalidPointer string
| InvalidJson string

record mmds =
  mm_version :: mmds_version
  mm_data :: json
  mm_size_cap :: nat

definition mmds_new :: "nat \<Rightarrow> mmds" where
  "mmds_new size_cap = \<lparr>mm_version = V1, mm_data = JObject [], mm_size_cap = size_cap\<rparr>"

definition mmds_set_version :: "mmds \<Rightarrow> mmds_version \<Rightarrow> mmds" where
  "mmds_set_version self version = self\<lparr>mm_version := version\<rparr>"

text \<open>\<open>merge_patch\<close>: the entries of an object patch are merged one by one into an object;
  anything else replaces the target.\<close>

fun merge_patch :: "json \<Rightarrow> json \<Rightarrow> json"
  and merge_entries :: "(bytes \<times> json) list \<Rightarrow> (bytes \<times> json) list \<Rightarrow> (bytes \<times> json) list" where
  "merge_patch (JObject t) (JObject p) = JObject (merge_entries t p)"
| "merge_patch target patch = patch"
| "merge_entries t [] = t"
| "merge_entries t ((k, pv) # p) =
     merge_entries
       (if pv = JNull then AList.delete k t
        else let entry = (case map_of t k of Some e \<Rightarrow> e | None \<Rightarrow> JNull)
             in AList.update k (merge_patch entry pv) t) p"

definition put_json :: "json_codec \<Rightarrow> mmds \<Rightarrow> bytes \<Rightarrow> mmds \<times> (mmds_error + unit)" where
  "put_json J self body =
     (if length body > mm_size_cap self
      then (self, Inl (SizeLimitExceeded (mm_size_cap self) (length body)))
      else case jc_from_str J body of
        Inl e \<Rightarrow> (self, Inl (InvalidJson e))
      | Inr value \<Rightarrow> (self\<lparr>mm_data := value\<rparr>, Inr ()))"

definition patch_json :: "json_codec \<Rightarrow> mmds \<Rightarrow> bytes \<Rightarrow> mmds \<times> (mmds_error + unit)" where
  "patch_json J self body =
     (case jc_from_str J body of
        Inl e \<Rightarrow> (self, Inl (InvalidJson e))
      | Inr patch \<Rightarrow>
          let merged = merge_patch (mm_data self) patch; serialized = jc_to_string J merged
          in if length serialized > mm_size_cap self
             then (self, Inl (SizeLimitExceeded (mm_size_cap self) (length serialized)))
             else (self\<lparr>mm_data := merged\<rparr>, Inr ()))"

definition get_at_pointer :: "json_codec \<Rightarrow> mmds \<Rightarrow> bytes \<Rightarrow> mmds_error + json" where
  "get_at_pointer J self pointer =
     (if pointer = [] \<or> pointer = [47] then Inr (mm_data self)
      else case jc_pointer J (mm_data self) pointer of
        Some v \<Rightarrow> Inr v
      | None \<Rightarrow> Inl (PathNotFound pointer))"

subsection \<open>The token store\<close>

definition MIN_TTL_SECONDS :: u32 where "MIN_TTL_SECONDS = 1"
definition MAX_TTL_SECONDS :: u32 where "MAX_TTL_SECONDS = 21600"
definition TOKEN_LEN_BYTES :: nat where "TOKEN_LEN_BYTES = 32"

datatype token_store_error = TtlOutOfRange u32 u32 u32 | EntropyError string

type_synonym token_store = "(bytes \<times> nat) list"

fun ct_diff :: "u8 \<Rightarrow> bytes \<Rightarrow> bytes \<Rightarrow> u8" where
  "ct_diff diff (a # as) (b # bs) = ct_diff (diff OR (a XOR b)) as bs"
| "ct_diff diff _ _ = diff"

definition constant_time_eq :: "bytes \<Rightarrow> bytes \<Rightarrow> bool" where
  "constant_time_eq a b = (if length a \<noteq> length b then False else ct_diff 0 a b = 0)"

text \<open>\<open>entropy\<close> is what \<open>read_csprng\<close> returns for the 32-byte buffer, \<open>encode\<close> the base64url
  encoder, \<open>now\<close> the clock.\<close>

definition token_issue ::
  "(bytes \<Rightarrow> bytes) \<Rightarrow> (string + bytes) \<Rightarrow> nat \<Rightarrow> token_store \<Rightarrow> u32
    \<Rightarrow> token_store \<times> (token_store_error + bytes)" where
  "token_issue encode entropy now self ttl_seconds =
     (if \<not> (MIN_TTL_SECONDS \<le> ttl_seconds \<and> ttl_seconds \<le> MAX_TTL_SECONDS)
      then (self, Inl (TtlOutOfRange ttl_seconds MIN_TTL_SECONDS MAX_TTL_SECONDS))
      else case entropy of
        Inl e \<Rightarrow> (self, Inl (EntropyError e))
      | Inr bs \<Rightarrow>
          let token = encode bs; expires_at = now + unat ttl_seconds * 1000000000
          in (AList.update token expires_at self, Inr token))"

text \<open>The scan of \<open>validate\<close>: the expired tokens, and the last live one that matches.\<close>

fun token_scan :: "nat \<Rightarrow> bytes \<Rightarrow> (bytes \<times> nat) list \<Rightarrow> bytes option \<Rightarrow> bytes list \<Rightarrow> bytes option \<times> bytes list" where
  "token_scan now candidate [] hit purge = (hit, purge)"
| "token_scan now candidate ((tok, ex) # ts) hit purge =
     (if ex \<le> now then token_scan now candidate ts hit (purge @ [tok])
      else if constant_time_eq tok candidate then token_scan now candidate ts (Some tok) purge
      else token_scan now candidate ts hit purge)"

definition token_validate :: "nat \<Rightarrow> token_store \<Rightarrow> bytes \<Rightarrow> token_store \<times> bool" where
  "token_validate now self candidate =
     (case token_scan now candidate self None [] of
        (hit, purge) \<Rightarrow> (foldl (\<lambda>ts t. AList.delete t ts) self purge, hit \<noteq> None))"

subsection \<open>Constant-time comparison is equality\<close>

lemma xor_eq_0: "a XOR b = 0 \<longleftrightarrow> a = b" for a b :: "'a::len word"
  by (auto simp: bit_eq_iff bit_xor_iff)

lemma ct_diff_zero: "length a = length b \<Longrightarrow> ct_diff d a b = 0 \<longleftrightarrow> d = 0 \<and> a = b"
  by (induction d a b rule: ct_diff.induct) (auto simp: or_eq_0_iff xor_eq_0)

lemma constant_time_eq_iff: "constant_time_eq a b \<longleftrightarrow> a = b"
  by (auto simp: constant_time_eq_def ct_diff_zero)

subsection \<open>Purging is not observable\<close>

lemma token_scan_spec:
  "token_scan now c ts hit purge =
    (if (\<exists>e. (c, e) \<in> set ts \<and> now < e) then Some c else hit,
     purge @ map fst (filter (\<lambda>(t, e). e \<le> now) ts))"
  by (induction now c ts hit purge rule: token_scan.induct) (auto simp: constant_time_eq_iff)

lemma map_of_foldl_delete:
  "map_of (foldl (\<lambda>ts t. AList.delete t ts) ts ps) k = (if k \<in> set ps then None else map_of ts k)"
  by (induction ps arbitrary: ts) (auto simp: delete_conv')

lemma distinct_foldl_delete:
  "distinct (map fst ts) \<Longrightarrow> distinct (map fst (foldl (\<lambda>ts t. AList.delete t ts) ts ps))"
  by (induction ps arbitrary: ts) (auto simp: distinct_delete)

lemma token_validate_spec:
  assumes "distinct (map fst ts)"
  shows "snd (token_validate now ts c) \<longleftrightarrow> (\<exists>e. map_of ts c = Some e \<and> now < e)"
    and "map_of (fst (token_validate now ts c)) k =
      (case map_of ts k of None \<Rightarrow> None | Some e \<Rightarrow> if e \<le> now then None else Some e)"
    and "distinct (map fst (fst (token_validate now ts c)))"
proof -
  show "snd (token_validate now ts c) \<longleftrightarrow> (\<exists>e. map_of ts c = Some e \<and> now < e)"
    using assms by (auto simp: token_validate_def token_scan_spec)
  have "k \<in> set (map fst (filter (\<lambda>(t, e). e \<le> now) ts)) \<longleftrightarrow> (\<exists>e. map_of ts k = Some e \<and> e \<le> now)" for k
    using assms by (force simp: image_iff)
  then show "map_of (fst (token_validate now ts c)) k =
      (case map_of ts k of None \<Rightarrow> None | Some e \<Rightarrow> if e \<le> now then None else Some e)"
    by (auto simp: token_validate_def token_scan_spec map_of_foldl_delete split: option.splits)
  show "distinct (map fst (fst (token_validate now ts c)))"
    using assms by (simp add: token_validate_def token_scan_spec distinct_foldl_delete)
qed

subsection \<open>The merge patch against RFC 7396\<close>

text \<open>The algorithm of RFC 7396, section 2.\<close>

fun rfc7396 :: "json \<Rightarrow> json \<Rightarrow> json"
  and rfc_entries :: "(bytes \<times> json) list \<Rightarrow> (bytes \<times> json) list \<Rightarrow> (bytes \<times> json) list" where
  "rfc7396 target (JObject p) = JObject (rfc_entries (case target of JObject t \<Rightarrow> t | _ \<Rightarrow> []) p)"
| "rfc7396 target patch = patch"
| "rfc_entries t [] = t"
| "rfc_entries t ((k, pv) # p) =
     rfc_entries
       (if pv = JNull then AList.delete k t
        else AList.update k (rfc7396 (case map_of t k of Some e \<Rightarrow> e | None \<Rightarrow> JNull) pv) t) p"

text \<open>Objects have distinct keys, as maps do.\<close>

fun json_wf :: "json \<Rightarrow> bool" where
  "json_wf (JObject p) \<longleftrightarrow> distinct (map fst p) \<and> list_all (\<lambda>x. json_wf (snd x)) p"
| "json_wf (JArray xs) \<longleftrightarrow> list_all json_wf xs"
| "json_wf _ \<longleftrightarrow> True"

fun null_free :: "json \<Rightarrow> bool" where
  "null_free (JObject p) \<longleftrightarrow> list_all (\<lambda>x. snd x \<noteq> JNull \<and> null_free (snd x)) p"
| "null_free _ \<longleftrightarrow> True"

text \<open>Every \<open>null\<close> member of the patch meets an object of the target.\<close>

fun nulls_meet :: "json \<Rightarrow> json \<Rightarrow> bool" where
  "nulls_meet (JObject t) (JObject p) \<longleftrightarrow>
     list_all (\<lambda>x. snd x = JNull \<or>
       nulls_meet (case map_of t (fst x) of Some e \<Rightarrow> e | None \<Rightarrow> JNull) (snd x)) p"
| "nulls_meet _ (JObject p) \<longleftrightarrow> null_free (JObject p)"
| "nulls_meet _ _ \<longleftrightarrow> True"

definition entry_of :: "(bytes \<times> json) list \<Rightarrow> bytes \<Rightarrow> json" where
  "entry_of t k = (case map_of t k of Some e \<Rightarrow> e | None \<Rightarrow> JNull)"

lemma entry_of_other [simp]:
  "k \<noteq> k' \<Longrightarrow> entry_of (AList.update k v t) k' = entry_of t k'"
  "k \<noteq> k' \<Longrightarrow> entry_of (AList.delete k t) k' = entry_of t k'"
  by (simp_all add: entry_of_def update_conv' delete_conv')

text \<open>One fold describes both algorithms.\<close>

fun fold_entries :: "(json \<Rightarrow> json \<Rightarrow> json) \<Rightarrow> (bytes \<times> json) list \<Rightarrow> (bytes \<times> json) list \<Rightarrow> (bytes \<times> json) list" where
  "fold_entries f t [] = t"
| "fold_entries f t ((k, pv) # p) =
     fold_entries f (if pv = JNull then AList.delete k t else AList.update k (f (entry_of t k) pv) t) p"

lemma merge_entries_fold: "merge_entries t p = fold_entries merge_patch t p"
  by (induction p arbitrary: t) (auto simp: entry_of_def Let_def)

lemma rfc_entries_fold: "rfc_entries t p = fold_entries rfc7396 t p"
  by (induction p arbitrary: t) (auto simp: entry_of_def)

lemma map_of_fold_entries_notin:
  "k \<notin> fst ` set p \<Longrightarrow> map_of (fold_entries f t p) k = map_of t k"
  by (induction f t p rule: fold_entries.induct) (auto simp: update_conv' delete_conv')

lemma map_of_fold_entries:
  "distinct (map fst p) \<Longrightarrow> (k, pv) \<in> set p \<Longrightarrow>
    map_of (fold_entries f t p) k = (if pv = JNull then None else Some (f (entry_of t k) pv))"
proof (induction f t p rule: fold_entries.induct)
  case (2 f t k' pv' p)
  show ?case
  proof (cases "k' = k")
    case True
    with 2(2,3) have "pv' = pv" "k \<notin> fst ` set p" by (auto simp: rev_image_eqI)
    with True show ?thesis by (simp add: map_of_fold_entries_notin update_conv' delete_conv')
  next
    case False
    with 2(3) have "(k, pv) \<in> set p" by simp
    with 2 False show ?thesis by simp
  qed
qed simp

lemma fold_entries_cong:
  assumes "distinct (map fst p)"
  shows "fold_entries f t p = fold_entries g t p \<longleftrightarrow>
    (\<forall>(k, pv) \<in> set p. pv = JNull \<or> f (entry_of t k) pv = g (entry_of t k) pv)"
proof
  assume eq: "fold_entries f t p = fold_entries g t p"
  show "\<forall>(k, pv) \<in> set p. pv = JNull \<or> f (entry_of t k) pv = g (entry_of t k) pv"
  proof clarify
    fix k pv assume m: "(k, pv) \<in> set p" and n: "f (entry_of t k) pv \<noteq> g (entry_of t k) pv"
    show "pv = JNull"
      using map_of_fold_entries [OF assms m, of f t] map_of_fold_entries [OF assms m, of g t] eq n
      by (auto split: if_splits)
  qed
next
  assume "\<forall>(k, pv) \<in> set p. pv = JNull \<or> f (entry_of t k) pv = g (entry_of t k) pv"
  with assms show "fold_entries f t p = fold_entries g t p"
  proof (induction p arbitrary: t)
    case (Cons x p)
    obtain k pv where x: "x = (k, pv)" by (cases x)
    have "k' \<noteq> k" if "(k', pv') \<in> set p" for k' pv'
      using Cons.prems(1) x that by (auto simp: rev_image_eqI)
    then have "\<forall>(k', pv') \<in> set p. pv' = JNull \<or> f (entry_of t' k') pv' = g (entry_of t' k') pv'"
      if "t' = AList.delete k t \<or> t' = AList.update k v t" for t' v
      using Cons.prems(2) x that by fastforce
    then have "fold_entries f t' p = fold_entries g t' p"
      if "t' = AList.delete k t \<or> t' = AList.update k v t" for t' v
      using Cons.IH [of t'] Cons.prems(1) that by simp
    then have "fold_entries f (AList.delete k t) p = fold_entries g (AList.delete k t) p"
      "\<And>v. fold_entries f (AList.update k v t) p = fold_entries g (AList.update k v t) p" by blast+
    with Cons.prems(2) show ?case by (auto simp: x)
  qed simp
qed

lemma fold_entries_fresh:
  "distinct (map fst p) \<Longrightarrow> fst ` set t \<inter> fst ` set p = {} \<Longrightarrow>
    fold_entries f t p = t @ map (\<lambda>x. (fst x, f JNull (snd x))) (filter (\<lambda>x. snd x \<noteq> JNull) p)"
proof (induction f t p rule: fold_entries.induct)
  case (2 f t k pv p)
  have k: "k \<notin> fst ` set t" using 2(3) by auto
  then have "AList.delete k t = t" "map_of t k = None"
    by (auto simp: AList.delete_eq filter_id_conv map_of_eq_None_iff intro: rev_image_eqI)
  moreover have "AList.update k v t = t @ [(k, v)]" for v
    using k by (induction t) auto
  ultimately show ?case using 2 by (auto simp: entry_of_def)
qed simp

lemma rfc7396_non_object:
  "(\<And>t. target \<noteq> JObject t) \<Longrightarrow> rfc7396 target patch = rfc7396 JNull patch"
  by (cases patch; cases target) auto

lemma map_filter_id_iff:
  "map f (filter P xs) = xs \<longleftrightarrow> (\<forall>x \<in> set xs. P x \<and> f x = x)"
proof
  assume eq: "map f (filter P xs) = xs"
  then have "length (filter P xs) = length xs" by (metis length_map)
  then have "filter P xs = xs" by (metis filter_id_conv length_filter_less less_irrefl)
  with eq show "\<forall>x \<in> set xs. P x \<and> f x = x" by (metis filter_id_conv map_eq_conv map_ident)
qed (auto simp: filter_id_conv map_idI)

lemma rfc7396_identity:
  "json_wf patch \<Longrightarrow> rfc7396 JNull patch = patch \<longleftrightarrow> null_free patch"
proof (induction patch rule: json_wf.induct)
  case (1 p)
  then show ?case
    by (auto simp: rfc_entries_fold fold_entries_fresh map_filter_id_iff list_all_iff prod_eq_iff)
qed auto

lemma merge_patch_rfc_iff:
  "json_wf patch \<Longrightarrow> merge_patch target patch = rfc7396 target patch \<longleftrightarrow> nulls_meet target patch"
proof (induction patch arbitrary: target rule: json_wf.induct)
  case (1 p)
  then have d: "distinct (map fst p)" by simp
  have ih: "merge_patch e (snd x) = rfc7396 e (snd x) \<longleftrightarrow> nulls_meet e (snd x)" if "x \<in> set p" for x e
    using 1 that by (simp add: list_all_iff)
  show ?case
  proof (cases target)
    case (JObject t)
    have "merge_patch target (JObject p) = rfc7396 target (JObject p) \<longleftrightarrow>
        fold_entries merge_patch t p = fold_entries rfc7396 t p"
      by (simp add: JObject merge_entries_fold rfc_entries_fold)
    also have "\<dots> \<longleftrightarrow> (\<forall>x \<in> set p. snd x = JNull \<or> nulls_meet (entry_of t (fst x)) (snd x))"
      unfolding fold_entries_cong [OF d] by (auto simp: split_beta ih [symmetric])
    finally show ?thesis by (simp add: JObject list_all_iff entry_of_def)
  qed (use rfc7396_identity [OF 1(2)] rfc7396_non_object [of target "JObject p"] in auto)
qed auto

text \<open>
  C30. The merge patch against RFC 7396, for patches whose objects have distinct keys: the two
  agree exactly when every \<open>null\<close> member of the patch meets an object of the target. Where a
  patch object lands on a missing member or on a scalar, the code stores the patch as it is, its
  \<open>null\<close> members included, where the RFC removes them; the witness is the patch
  \<open>{"a": {"b": null}}\<close> on an empty tree.
\<close>

theorem merge_patch_rfc7396:
  assumes "json_wf patch"
  shows "merge_patch target patch = rfc7396 target patch \<longleftrightarrow> nulls_meet target patch"
  by (rule merge_patch_rfc_iff [OF assms])

theorem merge_patch_rfc7396_witness:
  "merge_patch (JObject []) (JObject [([97], JObject [([98], JNull)])]) = JObject [([97], JObject [([98], JNull)])] \<and>
   merge_patch (JObject []) (JObject [([97], JObject [([98], JNull)])]) \<noteq>
     rfc7396 (JObject []) (JObject [([97], JObject [([98], JNull)])])"
  using merge_patch_rfc7396 [of "JObject [([97], JObject [([98], JNull)])]" "JObject []"] by simp

subsection \<open>Lifetime of a token\<close>

datatype token_op = IssueOp "string + bytes" nat u32 | ValidateOp nat bytes

fun token_op_time :: "token_op \<Rightarrow> nat" where
  "token_op_time (IssueOp _ now _) = now"
| "token_op_time (ValidateOp now _) = now"

fun token_step :: "(bytes \<Rightarrow> bytes) \<Rightarrow> token_store \<Rightarrow> token_op \<Rightarrow> token_store" where
  "token_step encode ts (IssueOp entropy now ttl) = fst (token_issue encode entropy now ts ttl)"
| "token_step encode ts (ValidateOp now c) = fst (token_validate now ts c)"

text \<open>The abstract store forgets nothing: the expiry of the last issue of each token.\<close>

fun expiry_step :: "(bytes \<Rightarrow> bytes) \<Rightarrow> (bytes \<rightharpoonup> nat) \<Rightarrow> token_op \<Rightarrow> (bytes \<rightharpoonup> nat)" where
  "expiry_step encode m (IssueOp entropy now ttl) =
     (case entropy of
        Inr bs \<Rightarrow> if MIN_TTL_SECONDS \<le> ttl \<and> ttl \<le> MAX_TTL_SECONDS
                  then m(encode bs \<mapsto> now + unat ttl * 1000000000) else m
      | Inl _ \<Rightarrow> m)"
| "expiry_step encode m (ValidateOp now c) = m"

definition tokens_agree :: "nat \<Rightarrow> token_store \<Rightarrow> (bytes \<rightharpoonup> nat) \<Rightarrow> bool" where
  "tokens_agree now ts m \<longleftrightarrow> distinct (map fst ts) \<and>
     (\<forall>k. map_of ts k = m k \<or> map_of ts k = None \<and> (\<exists>e \<le> now. m k = Some e))"

lemma tokens_agree_step:
  assumes "tokens_agree now ts m" "now \<le> token_op_time op"
  shows "tokens_agree (token_op_time op) (token_step encode ts op) (expiry_step encode m op)"
proof -
  have d: "distinct (map fst ts)" using assms(1) by (simp add: tokens_agree_def)
  have m: "map_of ts k = m k \<or> map_of ts k = None \<and> (\<exists>e \<le> token_op_time op. m k = Some e)" for k
    using assms by (meson order_trans tokens_agree_def)
  show ?thesis
  proof (cases op)
    case (IssueOp entropy t ttl)
    have "map_of (token_step encode ts op) k = expiry_step encode m op k \<or>
        map_of (token_step encode ts op) k = None \<and> (\<exists>e \<le> token_op_time op. expiry_step encode m op k = Some e)" for k
      using m [of k] by (cases entropy) (auto simp: IssueOp token_issue_def Let_def update_conv')
    moreover have "distinct (map fst (token_step encode ts op))"
      using d by (cases entropy) (auto simp: IssueOp token_issue_def Let_def distinct_update)
    ultimately show ?thesis unfolding tokens_agree_def by blast
  next
    case (ValidateOp t c)
    have "map_of (token_step encode ts op) k = expiry_step encode m op k \<or>
        map_of (token_step encode ts op) k = None \<and> (\<exists>e \<le> token_op_time op. expiry_step encode m op k = Some e)" for k
      using m [of k] by (cases "m k") (auto simp: ValidateOp token_validate_spec(2) [OF d] split: if_splits)
    moreover have "distinct (map fst (token_step encode ts op))"
      by (simp add: ValidateOp token_validate_spec(3) [OF d])
    ultimately show ?thesis unfolding tokens_agree_def by blast
  qed
qed

lemma tokens_agree_run:
  "tokens_agree now ts m \<Longrightarrow> sorted (now # map token_op_time ops) \<Longrightarrow>
    tokens_agree (last (now # map token_op_time ops)) (foldl (token_step encode) ts ops) (foldl (expiry_step encode) m ops)"
proof (induction ops arbitrary: now ts m)
  case (Cons op ops)
  then have "tokens_agree (token_op_time op) (token_step encode ts op) (expiry_step encode m op)"
    by (intro tokens_agree_step) auto
  with Cons.IH [of "token_op_time op"] Cons.prems(2) show ?case by simp
qed simp

lemma tokens_agree_valid:
  assumes "tokens_agree t ts m" "t \<le> now"
  shows "snd (token_validate now ts c) \<longleftrightarrow> (\<exists>e. m c = Some e \<and> now < e)"
proof -
  have d: "distinct (map fst ts)" using assms(1) by (simp add: tokens_agree_def)
  have "map_of ts c = m c \<or> map_of ts c = None \<and> (\<exists>e \<le> t. m c = Some e)"
    using assms(1) unfolding tokens_agree_def by blast
  then show ?thesis unfolding token_validate_spec(1) [OF d] using assms(2) by (cases "m c") auto
qed

text \<open>
  Session tokens live exactly as long as they were issued for: after any history of issues
  and validations with a clock that does not run backwards, a candidate is accepted exactly when
  its last successful issue has not expired. The entries that validation purges on the way are
  never missed, and the comparison that takes the same time for all candidates is equality.
\<close>

theorem token_store_refines:
  assumes "sorted (map token_op_time ops @ [now])"
  shows "snd (token_validate now (foldl (token_step encode) [] ops) c) \<longleftrightarrow>
    (\<exists>e. foldl (expiry_step encode) Map.empty ops c = Some e \<and> now < e)"
proof (rule tokens_agree_valid)
  have "tokens_agree 0 [] Map.empty" by (simp add: tokens_agree_def)
  then show "tokens_agree (last (0 # map token_op_time ops)) (foldl (token_step encode) [] ops)
      (foldl (expiry_step encode) Map.empty ops)"
    by (rule tokens_agree_run) (use assms in \<open>simp add: sorted_append\<close>)
  show "last (0 # map token_op_time ops) \<le> now"
    using assms by (auto simp: sorted_append last_map)
qed

theorem token_store_refines_witness:
  "snd (token_validate 999999999 (foldl (token_step id) [] [IssueOp (Inr [7]) 0 1, ValidateOp 5 [7]]) [7]) \<and>
   \<not> snd (token_validate 1000000000 (foldl (token_step id) [] [IssueOp (Inr [7]) 0 1, ValidateOp 5 [7]]) [7])"
  using token_store_refines [of "[IssueOp (Inr [7]) 0 1, ValidateOp 5 [7]]" 999999999 id "[7]"]
    token_store_refines [of "[IssueOp (Inr [7]) 0 1, ValidateOp 5 [7]]" 1000000000 id "[7]"]
  by (simp add: MIN_TTL_SECONDS_def MAX_TTL_SECONDS_def)

end
