(* ===== verification/Mmds_Interceptor.thy ===== *)
theory Mmds_Interceptor
  imports Mmds_Session Mmds_Store
begin

text \<open>
  The interceptor between virtio-net and the metadata service,
  \<open>src/crates/mmds/src/interceptor.rs\<close>: the ARP responder, the hand-over of IPv4 frames to the
  TCP server, the HTTP routes on the data store and the token store.

  The clock and the entropy of one call of the handler are the arguments \<open>now\<close> and
  \<open>entropy\<close>; the JSON library and the base64 encoder come as in theory \<open>Mmds_Store\<close>.
\<close>

definition MMDS_SYNTHETIC_MAC :: mac where "MMDS_SYNTHETIC_MAC = [0x06, 0x01, 0x23, 0x45, 0x67, 0x01]"
definition MMDS_DEFAULT_IPV4 :: ipv4_addr where "MMDS_DEFAULT_IPV4 = [169, 254, 169, 254]"
definition IP_PROTO_TCP :: u8 where "IP_PROTO_TCP = 6"
definition HTTP_PORT :: u16 where "HTTP_PORT = 80"
definition MAX_HTTP_PATH_BYTES :: nat where "MAX_HTTP_PATH_BYTES = 1024"
definition MAX_TOKEN_HEADER_BYTES :: nat where "MAX_TOKEN_HEADER_BYTES = 256"

text \<open>What the handler closes over.\<close>

record mmds_stores =
  st_mmds :: mmds
  st_tokens :: token_store

record interceptor =
  ic_stores :: mmds_stores
  ic_mmds_ip :: ipv4_addr
  ic_mmds_mac :: mac
  ic_tcp :: tcp_server
  ic_pending_rx :: "bytes list"

definition interceptor_new :: "mmds \<Rightarrow> token_store \<Rightarrow> interceptor" where
  "interceptor_new m tokens =
     \<lparr>ic_stores = \<lparr>st_mmds = m, st_tokens = tokens\<rparr>, ic_mmds_ip = MMDS_DEFAULT_IPV4,
      ic_mmds_mac = MMDS_SYNTHETIC_MAC,
      ic_tcp = tcp_server_new MMDS_DEFAULT_IPV4 HTTP_PORT MMDS_SYNTHETIC_MAC, ic_pending_rx = []\<rparr>"

definition set_ipv4 :: "interceptor \<Rightarrow> ipv4_addr \<Rightarrow> interceptor" where
  "set_ipv4 self ip = self\<lparr>ic_mmds_ip := ip, ic_tcp := ts_set_ip (ic_tcp self) ip\<rparr>"

definition path_charset_ok :: "bytes \<Rightarrow> bool" where
  "path_charset_ok path \<longleftrightarrow> list_all (\<lambda>b. 0x20 \<le> b \<and> b < 0x7F \<and> b \<noteq> 92) path"

definition service_http_request ::
  "json_codec \<Rightarrow> (bytes \<Rightarrow> bytes) \<Rightarrow> (string + bytes) \<Rightarrow> nat \<Rightarrow> mmds_stores \<Rightarrow> http_request
    \<Rightarrow> mmds_stores \<times> http_response" where
  "service_http_request J encode entropy now st req =
     (if length (rq_path req) > MAX_HTTP_PATH_BYTES
      then (st, \<lparr>rs_status = 414, rs_body = ascii ''request path too long''\<rparr>)
      else if \<not> path_charset_ok (rq_path req)
      then (st, \<lparr>rs_status = 400, rs_body = ascii ''path contains disallowed control or NUL bytes''\<rparr>)
      else if length (rq_body req) > mm_size_cap (st_mmds st)
      then (st, \<lparr>rs_status = 413, rs_body = ascii ''request body exceeds MMDS size cap''\<rparr>)
      else if rq_method req = ascii ''PUT'' \<and> rq_path req = ascii ''/latest/api/token''
      then (case rq_ttl_header req of
              None \<Rightarrow> (st, \<lparr>rs_status = 400, rs_body = ascii ''missing X-aws-ec2-metadata-token-ttl-seconds''\<rparr>)
            | Some ttl \<Rightarrow>
                (case token_issue encode entropy now (st_tokens st) ttl of
                   (ts, Inr t) \<Rightarrow> (st\<lparr>st_tokens := ts\<rparr>, \<lparr>rs_status = 200, rs_body = t\<rparr>)
                 | (ts, Inl _) \<Rightarrow> (st\<lparr>st_tokens := ts\<rparr>, \<lparr>rs_status = 400, rs_body = ascii ''invalid TTL''\<rparr>)))
      else if rq_method req = ascii ''GET''
      then let checked = (if mm_version (st_mmds st) = V2
                          then (case rq_token_header req of
                                  None \<Rightarrow> (st_tokens st, False)
                                | Some tok \<Rightarrow> if length tok \<le> MAX_TOKEN_HEADER_BYTES
                                              then token_validate now (st_tokens st) tok
                                              else (st_tokens st, False))
                          else (st_tokens st, True));
               st' = st\<lparr>st_tokens := fst checked\<rparr>
           in if \<not> snd checked
              then (st', \<lparr>rs_status = 401, rs_body = ascii ''missing or invalid token''\<rparr>)
              else (case get_at_pointer J (st_mmds st') (rq_path req) of
                      Inr v \<Rightarrow>
                        (case jc_to_vec J v of
                           Inr body \<Rightarrow> (st', \<lparr>rs_status = 200, rs_body = body\<rparr>)
                         | Inl _ \<Rightarrow> (st', \<lparr>rs_status = 500, rs_body = [123, 34] @ ascii ''fault_message'' @
                                      [34, 58, 34] @ ascii ''internal serializer failure'' @ [34, 125]\<rparr>))
                    | Inl _ \<Rightarrow> (st', \<lparr>rs_status = 404, rs_body = ascii ''not found''\<rparr>))
      else (st, \<lparr>rs_status = 405, rs_body = ascii ''method not allowed''\<rparr>))"

definition wrap_in_ethernet :: "mac \<Rightarrow> outbound_frame \<Rightarrow> bytes" where
  "wrap_in_ethernet src_mac frame =
     ethernet_to_bytes \<lparr>eth_dst = of_dst_mac frame, eth_src = src_mac, eth_ethertype = ETHERTYPE_IPV4\<rparr> @
     of_eth_payload frame"

definition flush_tcp_outbound :: "interceptor \<Rightarrow> interceptor" where
  "flush_tcp_outbound self =
     (case drain_outbound (ic_tcp self) of
        (tcp, frames) \<Rightarrow>
          if frames = [] then self\<lparr>ic_tcp := tcp\<rparr>
          else self\<lparr>ic_tcp := tcp,
                    ic_pending_rx := ic_pending_rx self @ map (wrap_in_ethernet (ic_mmds_mac self)) frames\<rparr>)"

definition handle_arp :: "interceptor \<Rightarrow> ethernet_header \<Rightarrow> bytes \<Rightarrow> interceptor \<times> bool" where
  "handle_arp self eth body =
     (case arp_parse body of
        Inl _ \<Rightarrow> (self, False)
      | Inr arp \<Rightarrow>
          let ip = ic_mmds_ip self
          in if arp_op arp \<noteq> ARP_OP_REQUEST \<or> arp_target_ip arp \<noteq> ip then (self, False)
             else (self\<lparr>ic_pending_rx := ic_pending_rx self @
                     [build_arp_reply_frame (ic_mmds_mac self) ip (eth_src eth) (arp_sender_ip arp)]\<rparr>, True))"

definition handle_ipv4 ::
  "mmds_stores http_handler \<Rightarrow> interceptor \<Rightarrow> ethernet_header \<Rightarrow> bytes \<Rightarrow> (interceptor \<times> bool) option" where
  "handle_ipv4 handler self eth body =
     (if length body < 20 then Some (self, False)
      else let dst_ip = [body ! 16, body ! 17, body ! 18, body ! 19]; proto = body ! 9
           in if dst_ip \<noteq> ic_mmds_ip self then Some (self, False)
              else if proto = IP_PROTO_TCP
              then (case handle_ip_frame handler (ic_stores self) (ic_tcp self) (eth_src eth) body of
                      None \<Rightarrow> None
                    | Some ((st, tcp), consumed) \<Rightarrow>
                        Some (flush_tcp_outbound (self\<lparr>ic_stores := st, ic_tcp := tcp\<rparr>), consumed))
              else Some (self, False))"

definition intercept ::
  "json_codec \<Rightarrow> (bytes \<Rightarrow> bytes) \<Rightarrow> (string + bytes) \<Rightarrow> nat \<Rightarrow> interceptor \<Rightarrow> bytes \<Rightarrow> (interceptor \<times> bool) option" where
  "intercept J encode entropy now self frame =
     (case ethernet_parse frame of
        Inl _ \<Rightarrow> Some (self, False)
      | Inr eth \<Rightarrow>
          if eth_ethertype eth = ETHERTYPE_ARP then Some (handle_arp self eth (drop ETHER_HDR_LEN frame))
          else if eth_ethertype eth = ETHERTYPE_IPV4
          then handle_ipv4 (service_http_request J encode entropy now) self eth (drop ETHER_HDR_LEN frame)
          else Some (self, False))"

definition drain_rx :: "interceptor \<Rightarrow> interceptor \<times> bytes list" where
  "drain_rx self = (let self' = flush_tcp_outbound self in (self'\<lparr>ic_pending_rx := []\<rparr>, ic_pending_rx self'))"

subsection \<open>Reads need a live token\<close>

record http_call =
  hc_now :: nat
  hc_entropy :: "string + bytes"
  hc_req :: http_request

definition serve_call :: "json_codec \<Rightarrow> (bytes \<Rightarrow> bytes) \<Rightarrow> mmds_stores \<Rightarrow> http_call \<Rightarrow> mmds_stores" where
  "serve_call J encode st c = fst (service_http_request J encode (hc_entropy c) (hc_now c) st (hc_req c))"

text \<open>The call issued token \<open>tok\<close> with expiry \<open>e\<close>.\<close>

definition issued_by :: "(bytes \<Rightarrow> bytes) \<Rightarrow> http_call \<Rightarrow> bytes \<Rightarrow> nat \<Rightarrow> bool" where
  "issued_by encode c tok e \<longleftrightarrow>
     rq_method (hc_req c) = ascii ''PUT'' \<and> rq_path (hc_req c) = ascii ''/latest/api/token'' \<and>
     (\<exists>ttl bs. rq_ttl_header (hc_req c) = Some ttl \<and> 1 \<le> ttl \<and> ttl \<le> 21600 \<and> hc_entropy c = Inr bs \<and>
        tok = encode bs \<and> e = hc_now c + unat ttl * 1000000000)"

definition tokens_issued :: "(bytes \<Rightarrow> bytes) \<Rightarrow> http_call list \<Rightarrow> token_store \<Rightarrow> bool" where
  "tokens_issued encode calls ts \<longleftrightarrow> distinct (map fst ts) \<and>
     (\<forall>tok e. map_of ts tok = Some e \<longrightarrow> (\<exists>c \<in> set calls. issued_by encode c tok e))"

lemma tokens_issued_mono: "tokens_issued encode calls ts \<Longrightarrow> set calls \<subseteq> set calls' \<Longrightarrow> tokens_issued encode calls' ts"
  unfolding tokens_issued_def by blast

lemma tokens_issued_validate:
  assumes "tokens_issued encode calls ts"
  shows "tokens_issued encode calls (fst (token_validate now ts tok))"
proof -
  have d: "distinct (map fst ts)" using assms by (simp add: tokens_issued_def)
  show ?thesis
    using assms token_validate_spec(3) [OF d, of now tok]
    by (auto simp: tokens_issued_def token_validate_spec(2) [OF d] split: option.splits if_splits)
qed

lemma tokens_issued_issue:
  assumes "tokens_issued encode calls ts"
    and "rq_method (hc_req c) = ascii ''PUT''" "rq_path (hc_req c) = ascii ''/latest/api/token''"
    and "rq_ttl_header (hc_req c) = Some ttl"
  shows "tokens_issued encode (c # calls) (fst (token_issue encode (hc_entropy c) (hc_now c) ts ttl))"
proof (cases "\<exists>bs. hc_entropy c = Inr bs \<and> 1 \<le> ttl \<and> ttl \<le> 21600")
  case True
  then obtain bs where bs: "hc_entropy c = Inr bs" "1 \<le> ttl" "ttl \<le> 21600" by blast
  let ?e = "hc_now c + unat ttl * 1000000000"
  have "issued_by encode c (encode bs) ?e" using assms bs by (auto simp: issued_by_def)
  moreover have "fst (token_issue encode (hc_entropy c) (hc_now c) ts ttl) = AList.update (encode bs) ?e ts"
    using bs by (simp add: token_issue_def Let_def MIN_TTL_SECONDS_def MAX_TTL_SECONDS_def)
  ultimately show ?thesis
    using assms(1) unfolding tokens_issued_def by (auto simp: update_conv' distinct_update)
next
  case False
  then have "fst (token_issue encode (hc_entropy c) (hc_now c) ts ttl) = ts"
    by (auto simp: token_issue_def Let_def MIN_TTL_SECONDS_def MAX_TTL_SECONDS_def split: sum.splits)
  with assms(1) show ?thesis by (auto intro: tokens_issued_mono)
qed

lemma service_stores:
  fixes J encode c st
  defines "st' \<equiv> serve_call J encode st c"
  shows "st_mmds st' = st_mmds st"
    and "st_tokens st' = st_tokens st \<or>
      (\<exists>ttl. rq_method (hc_req c) = ascii ''PUT'' \<and> rq_path (hc_req c) = ascii ''/latest/api/token'' \<and>
        rq_ttl_header (hc_req c) = Some ttl \<and>
        st_tokens st' = fst (token_issue encode (hc_entropy c) (hc_now c) (st_tokens st) ttl)) \<or>
      (\<exists>tok. st_tokens st' = fst (token_validate (hc_now c) (st_tokens st) tok))"
  by (auto simp: st'_def serve_call_def service_http_request_def Let_def split: option.splits sum.splits prod.splits)

lemma tokens_issued_call:
  assumes "tokens_issued encode calls (st_tokens st)"
  shows "tokens_issued encode (c # calls) (st_tokens (serve_call J encode st c))"
proof -
  have sub: "set calls \<subseteq> set (c # calls)" by auto
  from service_stores(2) [of J encode st c] show ?thesis
  proof (elim disjE exE conjE)
    assume "st_tokens (serve_call J encode st c) = st_tokens st"
    then show ?thesis using tokens_issued_mono [OF assms sub] by simp
  next
    fix ttl
    assume "rq_method (hc_req c) = ascii ''PUT''" "rq_path (hc_req c) = ascii ''/latest/api/token''"
      "rq_ttl_header (hc_req c) = Some ttl"
    from tokens_issued_issue [OF assms this]
    show ?thesis if "st_tokens (serve_call J encode st c) = fst (token_issue encode (hc_entropy c) (hc_now c) (st_tokens st) ttl)"
      using that by simp
  next
    fix tok assume "st_tokens (serve_call J encode st c) = fst (token_validate (hc_now c) (st_tokens st) tok)"
    then show ?thesis using tokens_issued_mono [OF tokens_issued_validate [OF assms] sub] by simp
  qed
qed

lemma tokens_issued_run:
  "tokens_issued encode prev (st_tokens st) \<Longrightarrow>
    tokens_issued encode (rev calls @ prev) (st_tokens (foldl (serve_call J encode) st calls)) \<and>
    st_mmds (foldl (serve_call J encode) st calls) = st_mmds st"
proof (induction calls arbitrary: st prev)
  case (Cons c calls)
  from tokens_issued_call [OF Cons.prems, of c J] Cons.IH [of "c # prev" "serve_call J encode st c"]
  show ?case by (simp add: service_stores(1))
qed simp

lemma v2_get_ok:
  assumes "service_http_request J encode entropy now st req = (st', resp)"
    and "rq_method req = ascii ''GET''" "rs_status resp = 200" "mm_version (st_mmds st) = V2"
  shows "\<exists>tok. rq_token_header req = Some tok \<and> snd (token_validate now (st_tokens st) tok)"
proof -
  have "ascii ''GET'' \<noteq> ascii ''PUT''" by (simp add: ascii_def)
  with assms show ?thesis
    by (auto simp: service_http_request_def Let_def split: if_splits option.splits sum.splits)
qed

text \<open>
  C12. In version 2 no metadata is read without a live session token: after any history of requests
  to a fresh store, a GET that is answered with 200 carries a token that an earlier
  \<open>PUT /latest/api/token\<close> of the history was answered with, and the lifetime that request asked
  for (between one second and six hours) has not passed.
\<close>

theorem v2_read_needs_live_token:
  assumes "mm_version m = V2"
    and "st = foldl (serve_call J encode) \<lparr>st_mmds = m, st_tokens = []\<rparr> calls"
    and "service_http_request J encode entropy now st req = (st', resp)"
    and "rq_method req = ascii ''GET''" "rs_status resp = 200"
  shows "\<exists>c \<in> set calls. \<exists>tok e. issued_by encode c tok e \<and> rq_token_header req = Some tok \<and> now < e"
proof -
  have i: "tokens_issued encode [] []" by (simp add: tokens_issued_def)
  have st: "tokens_issued encode (rev calls) (st_tokens st)" "st_mmds st = m"
    using tokens_issued_run [of encode "[]" "\<lparr>st_mmds = m, st_tokens = []\<rparr>" calls J] i by (simp_all add: assms(2))
  obtain tok where tok: "rq_token_header req = Some tok" "snd (token_validate now (st_tokens st) tok)"
    using v2_get_ok [OF assms(3-5)] st(2) assms(1) by auto
  then obtain e where e: "map_of (st_tokens st) tok = Some e" "now < e"
    using token_validate_spec(1) [of "st_tokens st" now tok] st(1) by (auto simp: tokens_issued_def)
  then obtain c where "c \<in> set calls" "issued_by encode c tok e"
    using st(1) unfolding tokens_issued_def by fastforce
  with tok(1) e(2) show ?thesis by blast
qed

definition null_codec :: json_codec where
  "null_codec = \<lparr>jc_from_str = (\<lambda>_. Inr JNull), jc_to_string = (\<lambda>_. ascii ''null''),
     jc_to_vec = (\<lambda>_. Inr (ascii ''null'')), jc_pointer = (\<lambda>_ _. None)\<rparr>"

definition token_call :: http_call where
  "token_call = \<lparr>hc_now = 5, hc_entropy = Inr [7, 8], hc_req = token_request\<rparr>"

definition root_read :: http_request where
  "root_read = \<lparr>rq_method = ascii ''GET'', rq_path = ascii ''/'', rq_token_header = Some [7, 8], rq_ttl_header = None, rq_body = []\<rparr>"

theorem v2_read_needs_live_token_witness:
  "\<exists>c \<in> set [token_call]. \<exists>tok e. issued_by id c tok e \<and> rq_token_header root_read = Some tok \<and> 9 < e"
proof -
  let ?m = "(mmds_new 1024)\<lparr>mm_version := V2\<rparr>"
  let ?st = "foldl (serve_call null_codec id) \<lparr>st_mmds = ?m, st_tokens = []\<rparr> [token_call]"
  have st: "?st = \<lparr>st_mmds = ?m, st_tokens = [([7, 8], 60000000005)]\<rparr>"
    by (simp add: serve_call_def service_http_request_def token_call_def token_request_def mmds_new_def
        MAX_HTTP_PATH_BYTES_def path_charset_ok_def ascii_def token_issue_def MIN_TTL_SECONDS_def MAX_TTL_SECONDS_def Let_def)
  have "service_http_request null_codec id (Inr []) 9 ?st root_read =
      (?st, \<lparr>rs_status = 200, rs_body = ascii ''null''\<rparr>)"
    unfolding st
    by (simp add: service_http_request_def root_read_def mmds_new_def MAX_HTTP_PATH_BYTES_def path_charset_ok_def ascii_def
        MAX_TOKEN_HEADER_BYTES_def token_validate_def constant_time_eq_iff get_at_pointer_def null_codec_def Let_def)
  from v2_read_needs_live_token [OF _ refl this] show ?thesis by (simp add: root_read_def)
qed

subsection \<open>Which frames are consumed\<close>

lemma arp_request_answered:
  assumes "length (eth_src eth) = 6" "length (ic_mmds_mac ic) = 6" "length (ic_mmds_ip ic) = 4" "length (arp_sender_ip a) = 4"
    and "arp_parse body = Inr a" "arp_op a = ARP_OP_REQUEST" "arp_target_ip a = ic_mmds_ip ic"
  defines "reply \<equiv> build_arp_reply_frame (ic_mmds_mac ic) (ic_mmds_ip ic) (eth_src eth) (arp_sender_ip a)"
  shows "handle_arp ic eth body = (ic\<lparr>ic_pending_rx := ic_pending_rx ic @ [reply]\<rparr>, True)"
    and "ethernet_parse reply = Inr \<lparr>eth_dst = eth_src eth, eth_src = ic_mmds_mac ic, eth_ethertype = ETHERTYPE_ARP\<rparr>"
    and "arp_parse (drop 14 reply) = Inr \<lparr>arp_op = ARP_OP_REPLY, arp_sender_mac = ic_mmds_mac ic,
      arp_sender_ip = ic_mmds_ip ic, arp_target_mac = eth_src eth, arp_target_ip = arp_sender_ip a\<rparr>"
proof -
  show "handle_arp ic eth body = (ic\<lparr>ic_pending_rx := ic_pending_rx ic @ [reply]\<rparr>, True)"
    using assms by (simp add: handle_arp_def Let_def)
  show "ethernet_parse reply = Inr \<lparr>eth_dst = eth_src eth, eth_src = ic_mmds_mac ic, eth_ethertype = ETHERTYPE_ARP\<rparr>"
    unfolding reply_def build_arp_reply_frame_def by (rule ethernet_roundtrip) (simp_all add: assms)
  have "length (ethernet_to_bytes \<lparr>eth_dst = eth_src eth, eth_src = ic_mmds_mac ic, eth_ethertype = ETHERTYPE_ARP\<rparr>) = 14"
    by (rule length_ethernet_to_bytes) (simp_all add: assms)
  then show "arp_parse (drop 14 reply) = Inr \<lparr>arp_op = ARP_OP_REPLY, arp_sender_mac = ic_mmds_mac ic,
      arp_sender_ip = ic_mmds_ip ic, arp_target_mac = eth_src eth, arp_target_ip = arp_sender_ip a\<rparr>"
    using arp_roundtrip [of "\<lparr>arp_op = ARP_OP_REPLY, arp_sender_mac = ic_mmds_mac ic,
      arp_sender_ip = ic_mmds_ip ic, arp_target_mac = eth_src eth, arp_target_ip = arp_sender_ip a\<rparr>" "[]"] assms(1-4)
    by (simp add: reply_def build_arp_reply_frame_def)
qed

text \<open>The destination address and the protocol of the IPv4 packet in a frame.\<close>

definition frame_dst :: "bytes \<Rightarrow> ipv4_addr" where
  "frame_dst frame = slice 30 4 frame"

definition frame_proto :: "bytes \<Rightarrow> u8" where
  "frame_proto frame = frame ! 23"

text \<open>
  C39. Not all traffic to the service's address is taken: an IPv4 frame to that address that is not
  TCP (UDP and ICMP included), or whose header the parser refuses (options, fragments, a wrong
  checksum), is handed back, to be sent to the host network, and leaves the interceptor as it is.
\<close>

theorem mmds_bound_frames_passed_on:
  assumes "34 \<le> length frame" "from_be_bytes [frame ! 12, frame ! 13] = ETHERTYPE_IPV4"
    and "frame_dst frame = ic_mmds_ip ic" "frame_proto frame \<noteq> IP_PROTO_TCP \<or> isl (ipv4_parse (drop 14 frame))"
    and "ts_out_queue (ic_tcp ic) = []"
  shows "intercept J encode entropy now ic frame = Some (ic, False)"
proof -
  have "ETHERTYPE_IPV4 \<noteq> ETHERTYPE_ARP" by (simp add: ETHERTYPE_IPV4_def ETHERTYPE_ARP_def)
  moreover have "flush_tcp_outbound ic = ic"
    using assms(5) by (simp add: flush_tcp_outbound_def drain_outbound_def)
  ultimately show ?thesis
    using assms(1,2,4)
    by (auto simp: intercept_def ethernet_parse_def ETHER_HDR_LEN_def handle_ipv4_def Let_def frame_proto_def
        handle_ip_frame_def isl_def)
qed

definition udp_frame :: bytes where
  "udp_frame = replicate 12 2 @ [0x08, 0x00] @ [0x45, 0, 0, 20, 0, 0, 0x40, 0, 64, 17, 0, 0, 10, 0, 0, 1] @ MMDS_DEFAULT_IPV4"

theorem mmds_bound_frames_passed_on_witness:
  "frame_dst udp_frame = ic_mmds_ip (interceptor_new (mmds_new 1024) []) \<and>
   intercept null_codec id (Inr []) 0 (interceptor_new (mmds_new 1024) []) udp_frame =
     Some (interceptor_new (mmds_new 1024) [], False)"
proof -
  have "34 \<le> length udp_frame" "from_be_bytes [udp_frame ! 12, udp_frame ! 13] = ETHERTYPE_IPV4"
    "frame_dst udp_frame = MMDS_DEFAULT_IPV4" "frame_proto udp_frame \<noteq> IP_PROTO_TCP" by code_simp+
  then show ?thesis
    using mmds_bound_frames_passed_on [of udp_frame "interceptor_new (mmds_new 1024) []" null_codec id "Inr []" 0]
    by (simp add: interceptor_new_def tcp_server_new_def)
qed

end
