(* ===== verification/Net_Device.thy ===== *)
theory Net_Device
  imports Packet_Queues Mmds_Interceptor
begin

text \<open>
  The network frontend, \<open>src/crates/virtio/src/devices/net.rs\<close>: the frame pool, the seams to
  the host backend and to the frame interceptor (dictionaries \<open>net_backend_ops\<close> and
  \<open>frame_interceptor_ops\<close>, the latter implemented by the metadata service of
  \<open>Mmds_Interceptor\<close>), the transmit and receive drains and the configuration space.

  A frame is its bytes. An interceptor may panic (the metadata service can, on a crafted
  request): the frontend's pair of interceptor and backend is then \<open>None\<close> and stays so, and
  the drain has no result.
\<close>

definition F_MAC :: u64 where "F_MAC = push_bit 5 1"

definition F_STATUS :: u64 where "F_STATUS = push_bit 16 1"

definition F_MTU :: u64 where "F_MTU = push_bit 3 1"

definition NET_RX_QUEUE :: nat where "NET_RX_QUEUE = 0"

definition NET_TX_QUEUE :: nat where "NET_TX_QUEUE = 1"

definition NET_QUEUE_MAX_SIZE :: u16 where "NET_QUEUE_MAX_SIZE = 256"

definition VIRTIO_NET_HDR_LEN :: u32 where "VIRTIO_NET_HDR_LEN = 12"

subsection \<open>The frame pool\<close>

text \<open>A pooled buffer is its contents and its capacity.\<close>

record frame_buf =
  fb_bytes :: bytes
  fb_capacity :: nat

record frame_pool =
  fp_free :: "frame_buf list"
  fp_mtu :: nat
  fp_pool_capacity :: nat

definition frame_pool_new :: "nat \<Rightarrow> nat \<Rightarrow> frame_pool" where
  "frame_pool_new mtu pool_capacity = \<lparr>fp_free = [], fp_mtu = mtu, fp_pool_capacity = pool_capacity\<rparr>"

definition pool_acquire :: "frame_pool \<Rightarrow> frame_pool \<times> frame_buf" where
  "pool_acquire self =
     (if fp_free self = [] then (self, \<lparr>fb_bytes = [], fb_capacity = fp_mtu self\<rparr>)
      else (self\<lparr>fp_free := butlast (fp_free self)\<rparr>, (last (fp_free self))\<lparr>fb_bytes := []\<rparr>))"

definition pool_release :: "frame_pool \<Rightarrow> frame_buf \<Rightarrow> frame_pool" where
  "pool_release self buf =
     (if length (fp_free self) < fp_pool_capacity self then self\<lparr>fp_free := fp_free self @ [buf]\<rparr> else self)"

subsection \<open>Backends and interceptors\<close>

record 'b net_backend_ops =
  nb_send :: "'b \<Rightarrow> bytes \<Rightarrow> 'b"
  nb_recv :: "'b \<Rightarrow> 'b \<times> bytes list"

record 'i frame_interceptor_ops =
  fi_intercept_tx :: "'i \<Rightarrow> bytes \<Rightarrow> ('i \<times> bool) option"
  fi_drain_rx :: "'i \<Rightarrow> 'i \<times> bytes list"

definition loopback_backend :: "bytes list net_backend_ops" where
  "loopback_backend =
     \<lparr>nb_send = (\<lambda>pending frame. pending @ [frame]),
      nb_recv = (\<lambda>pending. ([], pending))\<rparr>"

definition noop_interceptor :: "unit frame_interceptor_ops" where
  "noop_interceptor =
     \<lparr>fi_intercept_tx = (\<lambda>i _. Some (i, False)),
      fi_drain_rx = (\<lambda>i. (i, []))\<rparr>"

definition mmds_frame_interceptor ::
  "json_codec \<Rightarrow> (bytes \<Rightarrow> bytes) \<Rightarrow> (string + bytes) \<Rightarrow> nat \<Rightarrow> interceptor frame_interceptor_ops" where
  "mmds_frame_interceptor J encode entropy now =
     \<lparr>fi_intercept_tx = intercept J encode entropy now, fi_drain_rx = drain_rx\<rparr>"

subsection \<open>The device\<close>

record net_config =
  nc_iface_id :: string
  nc_host_dev_name :: string
  nc_guest_mac :: "bytes option"
  nc_mtu :: "u16 option"

record ('i, 'b) net_device = virtio_core +
  nd_config :: net_config
  nd_seams :: "('i \<times> 'b) option"

definition net_device_new :: "net_config \<Rightarrow> 'b \<Rightarrow> 'i \<Rightarrow> ('i, 'b) net_device" where
  "net_device_new config backend interceptor =
     (let avail = 0;
          avail = (if nc_guest_mac config \<noteq> None then avail OR F_MAC else avail);
          avail = (if nc_mtu config \<noteq> None then avail OR F_MTU else avail)
      in \<lparr>vc_avail = avail, vc_acked = 0,
          vc_queues = [queue_new NET_QUEUE_MAX_SIZE, queue_new NET_QUEUE_MAX_SIZE],
          vc_attached = False, vc_activated = False,
          nd_config = config, nd_seams = Some (interceptor, backend)\<rparr>)"

text \<open>One payload past the interceptor, and the handling of one transmit chain.\<close>

definition net_transmit ::
  "'i frame_interceptor_ops \<Rightarrow> 'b net_backend_ops \<Rightarrow> bytes \<Rightarrow> 'i \<times> 'b \<Rightarrow> ('i \<times> 'b) option" where
  "net_transmit I B payload = (\<lambda>(i, b).
     case fi_intercept_tx I i payload of
        None \<Rightarrow> None
      | Some (i1, consumed) \<Rightarrow> Some (i1, if consumed then b else nb_send B b payload))"

definition net_tx_handler ::
  "'i frame_interceptor_ops \<Rightarrow> 'b net_backend_ops \<Rightarrow> 'm guest_memory_ops
    \<Rightarrow> (('i \<times> 'b) option, 'm) chain_handler" where
  "net_tx_handler I B M seams m chain =
     (case chain of
        Inl _ \<Rightarrow> ((seams, m), Give_Up)
      | Inr descs \<Rightarrow>
          let frame_bytes = read_buffers M m descs
          in if length frame_bytes > unat VIRTIO_NET_HDR_LEN
             then case Option.bind seams (net_transmit I B (drop (unat VIRTIO_NET_HDR_LEN) frame_bytes)) of
                    None \<Rightarrow> ((None, m), Skip)
                  | Some ib \<Rightarrow> ((Some ib, m), Reply 0)
             else ((seams, m), Skip))"

definition net_drain_tx ::
  "'i frame_interceptor_ops \<Rightarrow> 'b net_backend_ops \<Rightarrow> 'm guest_memory_ops \<Rightarrow> 'g gic_ops
    \<Rightarrow> ('i, 'b) net_device \<Rightarrow> ('m, 'g) virtio_world \<Rightarrow> (('i, 'b) net_device \<times> ('m, 'g) virtio_world) option" where
  "net_drain_tx I B M G self w =
     (case drain_queue M G (net_tx_handler I B M) nd_seams (\<lambda>s d. d\<lparr>nd_seams := s\<rparr>) NET_TX_QUEUE self w of
        None \<Rightarrow> None
      | Some (self', w') \<Rightarrow> if nd_seams self' = None then None else Some (self', w'))"

definition net_wire :: "bytes \<Rightarrow> bytes" where
  "net_wire frame = replicate (unat VIRTIO_NET_HDR_LEN) 0 @ frame"

definition net_drain_rx ::
  "'i frame_interceptor_ops \<Rightarrow> 'b net_backend_ops \<Rightarrow> 'm guest_memory_ops \<Rightarrow> 'g gic_ops
    \<Rightarrow> ('i, 'b) net_device \<Rightarrow> ('m, 'g) virtio_world \<Rightarrow> (('i, 'b) net_device \<times> ('m, 'g) virtio_world) option" where
  "net_drain_rx I B M G self w =
     (if \<not> vc_attached self then Some (self, w)
      else case nd_seams self of
        None \<Rightarrow> None
      | Some (i, b) \<Rightarrow>
          let (i1, injected) = fi_drain_rx I i;
              (b1, received) = nb_recv B b;
              frames = injected @ received;
              self1 = self\<lparr>nd_seams := Some (i1, b1)\<rparr>
          in if frames = [] then Some (self1, w)
             else if NET_RX_QUEUE \<ge> length (vc_queues self1) then None
             else case deliver_loop M net_wire (vc_queues self1 ! NET_RX_QUEUE) (w_mem w) False frames of
               (q, m, completed, _) \<Rightarrow>
                 Some (self1\<lparr>vc_queues := (vc_queues self1)[NET_RX_QUEUE := q]\<rparr>,
                       w\<lparr>w_mem := m,
                         w_irq := (if completed then fst (trigger_queue G (w_irq w)) else w_irq w)\<rparr>))"

definition net_config_space :: "net_config \<Rightarrow> bytes" where
  "net_config_space config =
     (let full = replicate 16 0;
          full = (case nc_guest_mac config of Some mac \<Rightarrow> overwrite 0 mac full | None \<Rightarrow> full)
      in case nc_mtu config of Some mtu \<Rightarrow> overwrite 12 (to_le_bytes 2 mtu) full | None \<Rightarrow> full)"

definition net_read_config :: "('i, 'b) net_device \<Rightarrow> u64 \<Rightarrow> bytes \<Rightarrow> bytes" where
  "net_read_config self offset data = config_window (net_config_space (nd_config self)) offset data"

definition net_process_queue ::
  "'i frame_interceptor_ops \<Rightarrow> 'b net_backend_ops \<Rightarrow> 'm guest_memory_ops \<Rightarrow> 'g gic_ops
    \<Rightarrow> ('i, 'b) net_device \<Rightarrow> ('m, 'g) virtio_world \<Rightarrow> u16
    \<Rightarrow> (('i, 'b) net_device \<times> ('m, 'g) virtio_world) option" where
  "net_process_queue I B M G self w queue_index =
     (if unat queue_index = NET_TX_QUEUE
      then case net_drain_tx I B M G self w of
             None \<Rightarrow> None
           | Some (self', w') \<Rightarrow> net_drain_rx I B M G self' w'
      else if unat queue_index = NET_RX_QUEUE then net_drain_rx I B M G self w
      else Some (self, w))"

definition net_device_ops ::
  "'i frame_interceptor_ops \<Rightarrow> 'b net_backend_ops \<Rightarrow> 'm guest_memory_ops \<Rightarrow> 'g gic_ops
    \<Rightarrow> (('i, 'b) net_device, 'm, 'g) virtio_device_ops" where
  "net_device_ops I B M G = core_device_ops NetDevice net_read_config (net_process_queue I B M G)"

subsection \<open>The device meets the contract of the trait\<close>

lemma seams_same [simp]: "core_same d (d\<lparr>nd_seams := s\<rparr>)"
  by (simp add: core_same_def)

lemma net_drain_tx_same: "net_drain_tx I B M G d w = Some (d', w') \<Longrightarrow> core_same d d'"
  by (auto simp: net_drain_tx_def split: if_splits option.splits elim!: drain_queue_same)

lemma net_drain_rx_same:
  assumes "net_drain_rx I B M G d w = Some (d', w')"
  shows "core_same d d'"
proof -
  have upd: "core_same d ((d\<lparr>nd_seams := s\<rparr>)\<lparr>vc_queues := (vc_queues d)[i := q]\<rparr>)"
    if "queue_config q = queue_config (vc_queues d ! i)" for s i q
  proof -
    have "map queue_config ((vc_queues d)[i := q]) = map queue_config (vc_queues d)"
      using that by (metis list_update_id map_update)
    then show ?thesis by (simp add: core_same_def)
  qed
  show ?thesis
    using assms
    by (auto simp: net_drain_rx_def Let_def split: if_splits option.splits prod.splits
        intro!: upd dest!: deliver_loop_config)
qed

lemma net_same: "net_process_queue I B M G d w i = Some (d', w') \<Longrightarrow> core_same d d'"
  by (auto simp: net_process_queue_def split: if_splits option.splits
      dest: net_drain_tx_same net_drain_rx_same intro: core_same_trans)

interpretation net: virtio_device "net_device_ops I B M G" for I B M G
  unfolding net_device_ops_def by (rule core_device_ops_virtio) (auto simp: net_read_config_def dest: net_same)

subsection \<open>The pool is bounded\<close>

lemma pool_bounded:
  "length (fp_free p) \<le> fp_pool_capacity p \<Longrightarrow>
    length (fp_free (fst (pool_acquire p))) \<le> fp_pool_capacity (fst (pool_acquire p)) \<and>
    length (fp_free (pool_release p b)) \<le> fp_pool_capacity (pool_release p b)"
  by (auto simp: pool_acquire_def pool_release_def)

subsection \<open>Transmission in order\<close>

text \<open>The payloads of a list of chains: what follows the virtio-net header, if anything does.\<close>

definition net_payloads :: "'m guest_memory_ops \<Rightarrow> 'm \<Rightarrow> descriptor list list \<Rightarrow> bytes list" where
  "net_payloads M m dss =
     map (drop 12) (filter (\<lambda>bs. 12 < length bs) (map (read_buffers M m) dss))"

fun transmit_all ::
  "'i frame_interceptor_ops \<Rightarrow> 'b net_backend_ops \<Rightarrow> 'i \<times> 'b \<Rightarrow> bytes list \<Rightarrow> ('i \<times> 'b) option" where
  "transmit_all I B ib [] = Some ib"
| "transmit_all I B ib (p # ps) =
     (case net_transmit I B p ib of None \<Rightarrow> None | Some ib1 \<Rightarrow> transmit_all I B ib1 ps)"

lemma net_transmit_bind: "transmit_all I B ib (p # ps) = Option.bind (net_transmit I B p ib) (\<lambda>ib1. transmit_all I B ib1 ps)"
  by (simp split: option.split)

lemma net_reading_server:
  assumes "guest_memory M"
  shows "reading_server M (net_tx_handler I B M)"
proof (rule reading_server.intro [OF assms], unfold_locales, goal_cases)
  case (1 s m r s' m' v)
  then show ?case by (auto simp: net_tx_handler_def Let_def split: sum.splits if_splits option.splits)
next
  case (2 m m' ds s s' v)
  have "read_buffers M m' ds = read_buffers M m ds" using 2(1) by (rule read_buffers_cong)
  with 2(2) show ?case by (auto simp: net_tx_handler_def Let_def split: if_splits option.splits)
next
  case (3 s m ds)
  then show ?case by (simp add: net_tx_handler_def Let_def split: option.split)
qed

lemma net_serve_chains:
  "transmit_all I B ib (net_payloads M m dss) = Some ib' \<Longrightarrow>
    serve_chains (net_tx_handler I B M) m (Some ib) dss = (Some ib', length (net_payloads M m dss))"
proof (induction dss arbitrary: ib)
  case (Cons ds dss)
  show ?case
  proof (cases "12 < length (read_buffers M m ds)")
    case True
    with Cons.prems obtain ib1 where "net_transmit I B (drop 12 (read_buffers M m ds)) ib = Some ib1"
      "transmit_all I B ib1 (net_payloads M m dss) = Some ib'"
      by (auto simp: net_payloads_def split: option.splits)
    with True Cons.IH [of ib1] show ?thesis
      by (simp add: net_tx_handler_def [of I B M "Some ib" m "Inr ds"] VIRTIO_NET_HDR_LEN_def net_payloads_def)
  next
    case False
    with Cons.prems Cons.IH [of ib] show ?thesis
      by (simp add: net_tx_handler_def [of I B M "Some ib" m "Inr ds"] VIRTIO_NET_HDR_LEN_def net_payloads_def)
  qed
qed (simp add: net_payloads_def)

lemma net_drain_tx_exact:
  assumes "guest_memory M" "vc_attached d" "vc_queues d = [rx, q]" "nd_seams d = Some ib"
    and ring: "is_valid q" "rings_fit q" "buffers_safe M (w_mem w) q" "chains_ok M (w_mem w) q"
      "used_ring_ok M (w_mem w) q" "sources_safe M (w_mem w) q" "avail_idx M (w_mem w) q = Inr idx"
    and sent: "transmit_all I B ib (net_payloads M (w_mem w) (pending_chains M (w_mem w) q)) = Some ib'"
  shows "\<exists>d' w' q'. net_drain_tx I B M G d w = Some (d', w') \<and> vc_queues d' = [rx, q'] \<and>
    nd_seams d' = Some ib' \<and> pending_heads M (w_mem w') q' = [] \<and>
    q_next_used_idx q' = q_next_used_idx q +
      of_nat (length (net_payloads M (w_mem w) (pending_chains M (w_mem w) q)))"
proof -
  obtain q' w' where "serve_queue M G (net_tx_handler I B M) q (Some ib) w = Some (q', Some ib', w')"
    "pending_heads M (w_mem w') q' = []"
    "q_next_used_idx q' = q_next_used_idx q +
      of_nat (length (net_payloads M (w_mem w) (pending_chains M (w_mem w) q)))"
    using reading_server.serve_queue_reads [OF net_reading_server [OF assms(1)] ring net_serve_chains [OF sent]]
    by blast
  then show ?thesis
    using assms(2-4) by (simp add: net_drain_tx_def drain_queue_def NET_TX_QUEUE_def)
qed

end
