(* ===== verification/Vsock_Device.thy ===== *)
theory Vsock_Device
  imports Packet_Queues
begin

text \<open>
  The vsock frontend, \<open>src/crates/virtio/src/devices/vsock.rs\<close>: the 44-byte packet header, the
  seam to the host-side multiplexer (dictionary \<open>vsock_muxer_ops\<close>), and the transmit and
  receive drains with the buffer of undelivered packets between them.
\<close>

subsection \<open>Packet headers\<close>

definition VSOCK_MIN_GUEST_CID :: u64 where "VSOCK_MIN_GUEST_CID = 3"

datatype vsock_op =
    OpInvalid | OpRequest | OpResponse | OpRst | OpShutdown | OpRw | OpCreditUpdate | OpCreditRequest

fun vsock_op_wire :: "vsock_op \<Rightarrow> u16" where
  "vsock_op_wire OpInvalid = 0"
| "vsock_op_wire OpRequest = 1"
| "vsock_op_wire OpResponse = 2"
| "vsock_op_wire OpRst = 3"
| "vsock_op_wire OpShutdown = 4"
| "vsock_op_wire OpRw = 5"
| "vsock_op_wire OpCreditUpdate = 6"
| "vsock_op_wire OpCreditRequest = 7"

definition vsock_op_from_wire :: "u16 \<Rightarrow> vsock_op" where
  "vsock_op_from_wire value =
     (if value = 1 then OpRequest
      else if value = 2 then OpResponse
      else if value = 3 then OpRst
      else if value = 4 then OpShutdown
      else if value = 5 then OpRw
      else if value = 6 then OpCreditUpdate
      else if value = 7 then OpCreditRequest
      else OpInvalid)"

record vsock_header =
  vh_src_cid :: u64
  vh_dst_cid :: u64
  vh_src_port :: u32
  vh_dst_port :: u32
  vh_len :: u32
  vh_type :: u16
  vh_op :: vsock_op
  vh_flags :: u32
  vh_buf_alloc :: u32
  vh_fwd_cnt :: u32

definition VSOCK_HDR_SIZE :: nat where "VSOCK_HDR_SIZE = 44"

datatype vsock_parse_error = HeaderTooShort

definition vsock_header_from_bytes :: "bytes \<Rightarrow> vsock_parse_error + vsock_header" where
  "vsock_header_from_bytes bs =
     (if length bs < VSOCK_HDR_SIZE then Inl HeaderTooShort
      else Inr \<lparr>vh_src_cid = from_le_bytes (slice 0 8 bs),
                vh_dst_cid = from_le_bytes (slice 8 8 bs),
                vh_src_port = from_le_bytes (slice 16 4 bs),
                vh_dst_port = from_le_bytes (slice 20 4 bs),
                vh_len = from_le_bytes (slice 24 4 bs),
                vh_type = from_le_bytes (slice 28 2 bs),
                vh_op = vsock_op_from_wire (from_le_bytes (slice 30 2 bs)),
                vh_flags = from_le_bytes (slice 32 4 bs),
                vh_buf_alloc = from_le_bytes (slice 36 4 bs),
                vh_fwd_cnt = from_le_bytes (slice 40 4 bs)\<rparr>)"

definition vsock_header_to_bytes :: "vsock_header \<Rightarrow> bytes" where
  "vsock_header_to_bytes h =
     to_le_bytes 8 (vh_src_cid h) @ to_le_bytes 8 (vh_dst_cid h) @
     to_le_bytes 4 (vh_src_port h) @ to_le_bytes 4 (vh_dst_port h) @ to_le_bytes 4 (vh_len h) @
     to_le_bytes 2 (vh_type h) @ to_le_bytes 2 (vsock_op_wire (vh_op h)) @
     to_le_bytes 4 (vh_flags h) @ to_le_bytes 4 (vh_buf_alloc h) @ to_le_bytes 4 (vh_fwd_cnt h)"

record vsock_packet =
  vp_hdr :: vsock_header
  vp_payload :: bytes

lemma length_vsock_header [simp]: "length (vsock_header_to_bytes h) = 44"
  by (simp add: vsock_header_to_bytes_def)

lemma vsock_op_roundtrip [simp]: "vsock_op_from_wire (vsock_op_wire op) = op"
  by (cases op) (simp_all add: vsock_op_from_wire_def)

lemma vsock_header_roundtrip_aux: "vsock_header_from_bytes (vsock_header_to_bytes h @ rest) = Inr h"
  by (simp add: vsock_header_from_bytes_def VSOCK_HDR_SIZE_def vsock_header_to_bytes_def slice_def)

subsection \<open>The multiplexer\<close>

record 'x vsock_muxer_ops =
  vm_handle_tx :: "'x \<Rightarrow> vsock_packet \<Rightarrow> 'x \<times> vsock_packet list"
  vm_drain_rx :: "'x \<Rightarrow> 'x \<times> vsock_packet list"

record in_memory_muxer =
  im_tx_log :: "vsock_packet list"
  im_rx_queue :: "vsock_packet list"
  im_auto_respond :: bool

definition in_memory_handle_tx :: "in_memory_muxer \<Rightarrow> vsock_packet \<Rightarrow> in_memory_muxer \<times> vsock_packet list" where
  "in_memory_handle_tx self pkt =
     (let h = vp_hdr pkt;
          replies =
            (if im_auto_respond self \<and> vh_op h = OpRequest
             then [\<lparr>vp_hdr = h\<lparr>vh_src_cid := vh_dst_cid h, vh_dst_cid := vh_src_cid h,
                                vh_src_port := vh_dst_port h, vh_dst_port := vh_src_port h,
                                vh_op := OpResponse, vh_len := 0\<rparr>,
                    vp_payload = []\<rparr>]
             else [])
      in (self\<lparr>im_tx_log := im_tx_log self @ [pkt]\<rparr>, replies))"

definition in_memory_muxer_ops :: "in_memory_muxer vsock_muxer_ops" where
  "in_memory_muxer_ops =
     \<lparr>vm_handle_tx = in_memory_handle_tx,
      vm_drain_rx = (\<lambda>self. (self\<lparr>im_rx_queue := []\<rparr>, im_rx_queue self))\<rparr>"

subsection \<open>The device\<close>

definition VSOCK_RX_QUEUE :: nat where "VSOCK_RX_QUEUE = 0"

definition VSOCK_TX_QUEUE :: nat where "VSOCK_TX_QUEUE = 1"

definition VSOCK_QUEUE_MAX_SIZE :: u16 where "VSOCK_QUEUE_MAX_SIZE = 256"

record vsock_config =
  vk_vsock_id :: string
  vk_guest_cid :: u64
  vk_uds_path :: string
  vk_tsi :: bool

record 'x vsock_device = virtio_core +
  vs_config :: vsock_config
  vs_muxer :: 'x
  vs_rx_buffer :: "vsock_packet list"

datatype vsock_new_error = InvalidGuestCid

definition vsock_device_new :: "vsock_config \<Rightarrow> 'x \<Rightarrow> vsock_new_error + 'x vsock_device" where
  "vsock_device_new config muxer =
     (if vk_guest_cid config < VSOCK_MIN_GUEST_CID then Inl InvalidGuestCid
      else Inr \<lparr>vc_avail = 0, vc_acked = 0,
                vc_queues = [queue_new VSOCK_QUEUE_MAX_SIZE, queue_new VSOCK_QUEUE_MAX_SIZE,
                             queue_new VSOCK_QUEUE_MAX_SIZE],
                vc_attached = False, vc_activated = False,
                vs_config = config, vs_muxer = muxer, vs_rx_buffer = []\<rparr>)"

definition vsock_tx_handler ::
  "'x vsock_muxer_ops \<Rightarrow> 'm guest_memory_ops \<Rightarrow> ('x \<times> vsock_packet list, 'm) chain_handler" where
  "vsock_tx_handler X M state m chain =
     (case state of
        (muxer, rx_buffer) \<Rightarrow>
        (case chain of
           Inl _ \<Rightarrow> ((state, m), Give_Up)
         | Inr descs \<Rightarrow>
             let buf = read_buffers M m descs
             in if length buf < VSOCK_HDR_SIZE then ((state, m), Reply_Anyway 0)
                else case vsock_header_from_bytes (take VSOCK_HDR_SIZE buf) of
                  Inl _ \<Rightarrow> ((state, m), Skip)
                | Inr hdr \<Rightarrow>
                    let payload_len = min (unat (vh_len hdr)) (length buf - VSOCK_HDR_SIZE);
                        pkt = \<lparr>vp_hdr = hdr, vp_payload = slice VSOCK_HDR_SIZE payload_len buf\<rparr>;
                        (muxer1, replies) = vm_handle_tx X muxer pkt
                    in (((muxer1, rx_buffer @ replies), m), Reply 0)))"

definition vsock_drain_tx ::
  "'x vsock_muxer_ops \<Rightarrow> 'm guest_memory_ops \<Rightarrow> 'g gic_ops \<Rightarrow> 'x vsock_device
    \<Rightarrow> ('m, 'g) virtio_world \<Rightarrow> ('x vsock_device \<times> ('m, 'g) virtio_world) option" where
  "vsock_drain_tx X M G =
     drain_queue M G (vsock_tx_handler X M) (\<lambda>d. (vs_muxer d, vs_rx_buffer d))
       (\<lambda>(x, b) d. d\<lparr>vs_muxer := x, vs_rx_buffer := b\<rparr>) VSOCK_TX_QUEUE"

definition vsock_wire :: "vsock_packet \<Rightarrow> bytes" where
  "vsock_wire pkt = vsock_header_to_bytes (vp_hdr pkt) @ vp_payload pkt"

definition vsock_drain_rx ::
  "'x vsock_muxer_ops \<Rightarrow> 'm guest_memory_ops \<Rightarrow> 'g gic_ops \<Rightarrow> 'x vsock_device
    \<Rightarrow> ('m, 'g) virtio_world \<Rightarrow> ('x vsock_device \<times> ('m, 'g) virtio_world) option" where
  "vsock_drain_rx X M G self w =
     (if \<not> vc_attached self then Some (self, w)
      else let (muxer1, fresh) = vm_drain_rx X (vs_muxer self);
               packets = vs_rx_buffer self @ fresh;
               self1 = self\<lparr>vs_muxer := muxer1, vs_rx_buffer := []\<rparr>
      in if packets = [] then Some (self1, w)
         else if VSOCK_RX_QUEUE \<ge> length (vc_queues self1) then None
         else case deliver_loop M vsock_wire (vc_queues self1 ! VSOCK_RX_QUEUE) (w_mem w) False packets of
           (q, m, completed, rebuffered) \<Rightarrow>
             Some (self1\<lparr>vc_queues := (vc_queues self1)[VSOCK_RX_QUEUE := q],
                         vs_rx_buffer := (case rebuffered of None \<Rightarrow> [] | Some pkt \<Rightarrow> [pkt])\<rparr>,
                   w\<lparr>w_mem := m,
                     w_irq := (if completed then fst (trigger_queue G (w_irq w)) else w_irq w)\<rparr>))"

definition vsock_read_config :: "'x vsock_device \<Rightarrow> u64 \<Rightarrow> bytes \<Rightarrow> bytes" where
  "vsock_read_config self offset data =
     config_window (to_le_bytes 8 (vk_guest_cid (vs_config self))) offset data"

definition vsock_process_queue ::
  "'x vsock_muxer_ops \<Rightarrow> 'm guest_memory_ops \<Rightarrow> 'g gic_ops \<Rightarrow> 'x vsock_device
    \<Rightarrow> ('m, 'g) virtio_world \<Rightarrow> u16 \<Rightarrow> ('x vsock_device \<times> ('m, 'g) virtio_world) option" where
  "vsock_process_queue X M G self w queue_index =
     (if unat queue_index = VSOCK_TX_QUEUE
      then case vsock_drain_tx X M G self w of
             None \<Rightarrow> None
           | Some (self', w') \<Rightarrow> vsock_drain_rx X M G self' w'
      else if unat queue_index = VSOCK_RX_QUEUE then vsock_drain_rx X M G self w
      else Some (self, w))"

definition vsock_device_ops ::
  "'x vsock_muxer_ops \<Rightarrow> 'm guest_memory_ops \<Rightarrow> 'g gic_ops
    \<Rightarrow> ('x vsock_device, 'm, 'g) virtio_device_ops" where
  "vsock_device_ops X M G = core_device_ops VsockDevice vsock_read_config (vsock_process_queue X M G)"

subsection \<open>The device meets the contract of the trait\<close>

lemma vsock_drain_tx_same: "vsock_drain_tx X M G d w = Some (d', w') \<Longrightarrow> core_same d d'"
  unfolding vsock_drain_tx_def by (erule drain_queue_same) (simp add: core_same_def split: prod.split)

lemma vsock_drain_rx_same:
  assumes "vsock_drain_rx X M G d w = Some (d', w')"
  shows "core_same d d'"
proof -
  have upd: "core_same d (d\<lparr>vs_muxer := x, vc_queues := (vc_queues d)[i := q], vs_rx_buffer := b\<rparr>)"
    if "queue_config q = queue_config (vc_queues d ! i)" for x b i q
  proof -
    have "map queue_config ((vc_queues d)[i := q]) = map queue_config (vc_queues d)"
      using that by (metis list_update_id map_update)
    then show ?thesis by (simp add: core_same_def)
  qed
  show ?thesis
    using assms
    by (auto simp: vsock_drain_rx_def Let_def core_same_def [of d "vs_rx_buffer_update _ (vs_muxer_update _ d)"]
        split: if_splits prod.splits intro!: upd dest!: deliver_loop_config)
qed

lemma vsock_same: "vsock_process_queue X M G d w i = Some (d', w') \<Longrightarrow> core_same d d'"
  by (auto simp: vsock_process_queue_def split: if_splits option.splits
      dest: vsock_drain_tx_same vsock_drain_rx_same intro: core_same_trans)

interpretation vsock: virtio_device "vsock_device_ops X M G" for X M G
  unfolding vsock_device_ops_def by (rule core_device_ops_virtio) (auto simp: vsock_read_config_def dest: vsock_same)

subsection \<open>Transmission in order\<close>

text \<open>The packet in a transmit buffer, and the run of the multiplexer over a list of packets.\<close>

definition vsock_parse :: "bytes \<Rightarrow> vsock_packet option" where
  "vsock_parse buf =
     (case vsock_header_from_bytes (take 44 buf) of
        Inl _ \<Rightarrow> None
      | Inr hdr \<Rightarrow> Some \<lparr>vp_hdr = hdr, vp_payload = take (unat (vh_len hdr)) (drop 44 buf)\<rparr>)"

fun handle_all :: "'x vsock_muxer_ops \<Rightarrow> 'x \<Rightarrow> vsock_packet list \<Rightarrow> 'x \<times> vsock_packet list" where
  "handle_all X x [] = (x, [])"
| "handle_all X x (p # ps) =
     (case vm_handle_tx X x p of
        (x1, replies) \<Rightarrow> (case handle_all X x1 ps of (x2, rest) \<Rightarrow> (x2, replies @ rest)))"

lemma vsock_parse_None: "vsock_parse buf = None \<longleftrightarrow> length buf < 44"
  by (auto simp: vsock_parse_def vsock_header_from_bytes_def VSOCK_HDR_SIZE_def)

lemma vsock_parse_wire:
  assumes "vh_len (vp_hdr p) = of_nat (length (vp_payload p))" "length (vp_payload p) < 2 ^ 32"
  shows "vsock_parse (vsock_wire p) = Some p"
proof -
  have "vsock_header_from_bytes (vsock_header_to_bytes (vp_hdr p)) = Inr (vp_hdr p)"
    using vsock_header_roundtrip_aux [of "vp_hdr p" "[]"] by simp
  then show ?thesis
    using assms by (simp add: vsock_parse_def vsock_wire_def unsigned_of_nat take_bit_nat_eq_self)
qed

lemma vsock_tx_handler_eq:
  "vsock_tx_handler X M (x, b) m (Inr ds) =
     (case vsock_parse (read_buffers M m ds) of
        None \<Rightarrow> (((x, b), m), Reply_Anyway 0)
      | Some p \<Rightarrow> (((fst (vm_handle_tx X x p), b @ snd (vm_handle_tx X x p)), m), Reply 0))"
proof (cases "length (read_buffers M m ds) < 44")
  case True
  then show ?thesis
    by (simp add: vsock_tx_handler_def vsock_parse_None [THEN iffD2] VSOCK_HDR_SIZE_def)
next
  case False
  then obtain h where h: "vsock_header_from_bytes (take 44 (read_buffers M m ds)) = Inr h"
    by (simp add: vsock_header_from_bytes_def VSOCK_HDR_SIZE_def)
  have "slice 44 (min (unat (vh_len h)) (length (read_buffers M m ds) - 44)) (read_buffers M m ds) =
      take (unat (vh_len h)) (drop 44 (read_buffers M m ds))"
    by (simp add: slice_def min_def)
  with False h show ?thesis
    by (simp add: vsock_tx_handler_def vsock_parse_def VSOCK_HDR_SIZE_def Let_def split: prod.split)
qed

lemma vsock_reading_server:
  assumes "guest_memory M"
  shows "reading_server M (vsock_tx_handler X M)"
proof (rule reading_server.intro [OF assms], unfold_locales, goal_cases)
  case (1 s m r s' m' v)
  then show ?case
    by (auto simp: vsock_tx_handler_def Let_def split: sum.splits if_splits prod.splits)
next
  case (2 m m' ds s s' v)
  have "read_buffers M m' ds = read_buffers M m ds" using 2(1) by (rule read_buffers_cong)
  with 2(2) show ?case by (cases s) (auto simp: vsock_tx_handler_eq split: option.splits)
next
  case (3 s m ds)
  then show ?case by (cases s) (simp add: vsock_tx_handler_eq split: option.split)
qed

lemma vsock_serve_chains:
  "serve_chains (vsock_tx_handler X M) m (x, b) dss =
    (case handle_all X x (List.map_filter (\<lambda>ds. vsock_parse (read_buffers M m ds)) dss) of
       (x', replies) \<Rightarrow> ((x', b @ replies), length dss))"
proof (induction dss arbitrary: x b)
  case (Cons ds dss)
  show ?case
    by (cases "vsock_parse (read_buffers M m ds)")
      (simp_all add: vsock_tx_handler_eq Cons.IH List.map_filter_def split: prod.split)
qed (simp add: List.map_filter_def)

subsection \<open>Reception\<close>

lemma vsock_rx_full:
  assumes "vc_attached d" "vc_queues d = q # qs" "is_valid q"
    and "avail_idx M (w_mem w) q = Inr (q_next_avail_idx q)"
    and "vm_drain_rx X (vs_muxer d) = (x', fresh)" "vs_rx_buffer d @ fresh = p # ps"
  shows "vsock_drain_rx X M G d w = Some (d\<lparr>vs_muxer := x', vs_rx_buffer := [p]\<rparr>, w)"
  using assms deliver_loop_full [OF assms(3,4), of vsock_wire False p ps]
  by (simp add: vsock_drain_rx_def Let_def VSOCK_RX_QUEUE_def del: deliver_loop.simps append_is_Nil_conv)

end
