(* ===== verification/Device_Streams.thy ===== *)
theory Device_Streams
  imports Block_Progress Stream_Devices Net_Device Vsock_Device
begin

text \<open>
  Properties of the streaming devices behind their queues: what a notification of the
  entropy, network and vsock devices does to guest memory, to the host side and to the
  rings, and the two places where chains or packets are lost.
\<close>

subsection \<open>Rings that are ready\<close>

text \<open>
  The driver's side of the agreement for a transmit queue: a configured queue whose rings and
  buffers do not overlap, with every published chain well formed.
\<close>

definition ring_ready :: "'m guest_memory_ops \<Rightarrow> 'm \<Rightarrow> queue \<Rightarrow> bool" where
  "ring_ready M m q \<longleftrightarrow>
     is_valid q \<and> rings_fit q \<and> buffers_safe M m q \<and> chains_ok M m q \<and> used_ring_ok M m q \<and>
     sources_safe M m q \<and> \<not> isl (avail_idx M m q)"

lemma ring_readyE:
  assumes "ring_ready M m q"
  obtains idx where "is_valid q" "rings_fit q" "buffers_safe M m q" "chains_ok M m q" "used_ring_ok M m q"
    "sources_safe M m q" "avail_idx M m q = Inr idx"
  using assms by (cases "avail_idx M m q") (auto simp: ring_ready_def)

lemma length_pending_chains: "length (pending_chains M m q) = length (pending_heads M m q)"
  by (simp add: pending_chains_def)

subsection \<open>A ring with one transmit chain\<close>

text \<open>The two-entry queue of \<open>Virt_Queue\<close>, with one published chain of one buffer holding \<open>p\<close>.\<close>

definition tx_bytes :: "bytes \<Rightarrow> bytes" where
  "tx_bytes p =
     [0x40,0x10,0,0,0,0,0,0, of_nat (length p),0,0,0, 0,0, 0,0] @ [0,0,0,0,0,0,0,0, 0,0,0,0, 0,0, 0,0]
      @ [0,0, 1,0, 0,0, 0,0] @ [0,0,0,0,0,0,0,0,0,0,0,0,0,0,0,0,0,0,0,0,0,0,0,0] @ p"

definition tx_memory :: "bytes \<Rightarrow> slice_memory" where
  "tx_memory p = slice_memory_from_bytes 0x1000 (tx_bytes p)"

definition tx_desc :: "bytes \<Rightarrow> descriptor" where
  "tx_desc p = \<lparr>d_addr = 0x1040, d_len = of_nat (length p), d_flags = 0, d_next = 0\<rparr>"

lemma tx_read:
  assumes "unat a + n \<le> 0x1040 + length p" "0x1000 \<le> unat a" "length p < 256"
  shows "gm_read slice_guest_memory (tx_memory p) a n = Inr (slice (unat a - 0x1000) n (tx_bytes p))"
  using assms by (simp add: slice_guest_memory_def slice_read_eq slice_accessible_def tx_memory_def tx_bytes_def slice_memory_from_bytes_def)

lemma byte_len: "n < 256 \<Longrightarrow> ucast (of_nat n :: u8) = (of_nat n :: u32)"
  by (simp add: word_unat_eq_iff unsigned_of_nat take_bit_nat_eq_self unsigned_ucast_eq)

lemmas tx_eval = read_descriptor_def avail_idx_def avail_ring_entry_def Let_def gm_read_defs tx_read
  tx_bytes_def slice_def tx_desc_def demo_queue_def byte_len

lemma tx_descs:
  assumes "length p < 256"
  shows "read_descriptor slice_guest_memory (tx_memory p) 0x1000 0 = Inr (tx_desc p)"
    "read_descriptor slice_guest_memory (tx_memory p) 0x1000 1 = Inr \<lparr>d_addr = 0, d_len = 0, d_flags = 0, d_next = 0\<rparr>"
    "avail_idx slice_guest_memory (tx_memory p) demo_queue = Inr 1"
    "avail_ring_entry slice_guest_memory (tx_memory p) demo_queue 0 = Inr 0"
  using assms by (simp_all add: tx_eval)

lemma tx_heads:
  assumes "length p < 256"
  shows "pending_heads slice_guest_memory (tx_memory p) demo_queue = [Inr 0]"
  using assms by (simp add: pending_heads_def tx_descs) (simp add: demo_queue_def tx_descs [unfolded demo_queue_def])

lemma tx_chain:
  assumes "length p < 256"
  shows "collect slice_guest_memory (tx_memory p) (chain_at demo_queue 0) = Inr [tx_desc p]"
proof -
  have "linked_chain slice_guest_memory (tx_memory p) 0x1000 2 0 [tx_desc p]"
    using tx_descs(1) [OF assms] by (intro chain_last) (simp_all add: tx_desc_def has_next_def VIRTQ_DESC_F_NEXT_def)
  then show ?thesis by (simp add: collect_iff demo_queue_def)
qed

lemma tx_pending:
  "length p < 256 \<Longrightarrow> pending_chains slice_guest_memory (tx_memory p) demo_queue = [[tx_desc p]]"
  by (simp add: pending_chains_def tx_heads tx_chain)

lemma tx_payload:
  assumes "length p < 256"
  shows "read_buffers slice_guest_memory (tx_memory p) [tx_desc p] = p"
proof -
  have "unat (of_nat (length p) :: u32) = length p" using assms by (simp add: unsigned_of_nat take_bit_nat_eq_self)
  then show ?thesis
    using assms by (simp add: tx_read is_write_only_def VIRTQ_DESC_F_WRITE_def) (simp add: tx_eval is_write_only_def)
qed

lemma tx_ready:
  assumes "length p < 256"
  shows "ring_ready slice_guest_memory (tx_memory p) demo_queue"
proof -
  have u: "unat (of_nat (length p) :: u32) = length p" using assms by (simp add: unsigned_of_nat take_bit_nat_eq_self)
  have upt: "[0..<unat (q_size demo_queue)] = [0, 1]" by (simp add: demo_queue_def upt_rec)
  have table: "read_descriptor slice_guest_memory (tx_memory p) (q_desc_table_addr demo_queue) 0 = Inr (tx_desc p)"
    "read_descriptor slice_guest_memory (tx_memory p) (q_desc_table_addr demo_queue) 1 =
      Inr \<lparr>d_addr = 0, d_len = 0, d_flags = 0, d_next = 0\<rparr>"
    using tx_descs [OF assms] by (simp_all add: demo_queue_def)
  have "buffers_safe slice_guest_memory (tx_memory p) demo_queue"
    unfolding buffers_safe_def upt by (simp add: table tx_desc_def is_write_only_def)
  moreover have "sources_safe slice_guest_memory (tx_memory p) demo_queue"
    unfolding sources_safe_def upt
    using assms u by (simp add: table) (simp add: tx_desc_def desc_disjoint_def disjoint_ranges_def demo_queue_def)
  moreover have "chains_ok slice_guest_memory (tx_memory p) demo_queue"
    using assms by (simp add: chains_ok_def tx_heads tx_chain) (simp add: demo_queue_def)
  moreover have "used_ring_ok slice_guest_memory (tx_memory p) demo_queue"
    unfolding used_ring_ok_def upt using assms by (simp add: used_elem_addr_def demo_queue_def tx_read)
  ultimately show ?thesis
    using flush_layout(1,2) tx_descs(3) [OF assms] by (simp add: ring_ready_def)
qed

subsection \<open>The entropy device\<close>

text \<open>
  C18. The entropy device hands the driver exactly the next bytes of the host's entropy source:
  after a chain of accessible, non-overlapping buffers is filled, reading its device-writable
  buffers in order gives what the source yields for their lengths in order, the used length
  is their total (saturated at 32 bits), and memory outside those buffers is as it was.
\<close>

theorem rng_fill_exact:
  assumes "entropy_source M fill" "bufs_disjoint (device_buffers ds)"
    and "list_all (\<lambda>d. \<not> isl (gm_read M m (d_addr d) (unat (d_len d)))) (device_buffers ds)"
    and "rng_handler fill M s m (Inr ds) = ((s', m'), v)"
  shows "gather M m' (device_buffers ds) = Inr (draws fill s (map (\<lambda>d. unat (d_len d)) (device_buffers ds))) \<and>
    (\<exists>n. v = Reply n \<and> unat n = min (total_len (device_buffers ds)) (2 ^ 32 - 1)) \<and>
    (list_all (\<lambda>d. desc_disjoint d a k) (device_buffers ds) \<longrightarrow> gm_read M m' a k = gm_read M m a k)"
proof -
  obtain n where l: "rng_fill_loop fill M s m ds 0 = ((s', m'), n)" "v = Reply n"
    using assms(4) by (auto simp: rng_handler_def split: prod.splits)
  show ?thesis
    using entropy_source.rng_fill_exact_loop [OF assms(1) l(1) assms(2,3)]
      entropy_source.rng_fill_frame [OF assms(1) l(1)] l(2) by auto
qed

theorem rng_fill_exact_witness:
  "\<exists>s' m' n. rng_handler os_entropy_fill slice_guest_memory (\<lambda>i. of_nat (i + 7)) flush_memory
      (Inr [flush_header, flush_status]) = ((s', m'), Reply n) \<and>
    gather slice_guest_memory m' [flush_status] = Inr [7] \<and> unat n = 1"
proof -
  obtain s' m' v where r: "rng_handler os_entropy_fill slice_guest_memory (\<lambda>i. of_nat (i + 7)) flush_memory
      (Inr [flush_header, flush_status]) = ((s', m'), v)" by (metis surj_pair)
  have acc: "\<not> isl (gm_read slice_guest_memory flush_memory (d_addr flush_status) (unat (d_len flush_status)))"
    by code_simp
  have len: "unat (d_len flush_status) = 1" by (simp add: flush_status_def)
  show ?thesis
    using rng_fill_exact [OF slice_os.entropy_source_axioms _ _ r, of 0 0] acc r len
    by (auto simp: flush_descriptors(5,6) os_entropy_fill_def)
qed

text \<open>
  C17. One notification of the entropy device serves everything that is pending: on a well laid
  out ring of well-formed chains \<open>process_queue(0)\<close> returns with no head pending, the used index
  advanced by the number of heads that were, and the interrupt pulsed if there was one.
\<close>

theorem rng_drain_completes:
  assumes "entropy_source M fill" "vc_attached d" "vc_queues d = [q]"
    and "is_valid q" "rings_fit q" "buffers_safe M (w_mem w) q" "chains_ok M (w_mem w) q"
    and "used_ring_ok M (w_mem w) q" "avail_idx M (w_mem w) q = Inr idx"
  shows "\<exists>d' w' q'. rng_process_queue fill M G d w 0 = Some (d', w') \<and> vc_queues d' = [q'] \<and>
    pending_heads M (w_mem w') q' = [] \<and>
    q_next_used_idx q' = q_next_used_idx q + of_nat (length (pending_heads M (w_mem w) q)) \<and>
    w_irq w' = (if pending_heads M (w_mem w) q = [] then w_irq w else fst (trigger_queue G (w_irq w)))"
proof -
  from entropy_source.rng_serve_completes [OF assms(1,4-9), where G = G and s = "rd_source d"]
  show ?thesis using assms(2,3) by (auto simp: rng_process_queue_def drain_queue_def)
qed

theorem rng_drain_completes_witness:
  "\<exists>d' w' q'. rng_process_queue os_entropy_fill slice_guest_memory recording_gic
      ((rng_with_source (\<lambda>i. of_nat i))\<lparr>vc_queues := [demo_queue], vc_attached := True\<rparr>)
      \<lparr>w_mem = flush_memory, w_irq = irq_line_new [] (IntId 48)\<rparr> 0 = Some (d', w') \<and>
    vc_queues d' = [q'] \<and> pending_heads slice_guest_memory (w_mem w') q' = [] \<and>
    q_next_used_idx q' = 1 \<and> il_gic (w_irq w') = [Pulse (IntId 48)]"
proof -
  let ?w = "\<lparr>w_mem = flush_memory, w_irq = irq_line_new [] (IntId 48)\<rparr>"
  let ?d = "(rng_with_source (\<lambda>i. of_nat i))\<lparr>vc_queues := [demo_queue], vc_attached := True\<rparr>"
  obtain d' w' q' where "rng_process_queue os_entropy_fill slice_guest_memory recording_gic ?d ?w 0 = Some (d', w')"
    "vc_queues d' = [q']" "pending_heads slice_guest_memory (w_mem w') q' = []"
    "q_next_used_idx q' = q_next_used_idx demo_queue + 1"
    "w_irq w' = fst (trigger_queue recording_gic (irq_line_new [] (IntId 48)))"
    using rng_drain_completes [OF slice_os.entropy_source_axioms, of ?d demo_queue ?w 1 recording_gic]
      flush_layout flush_chain flush_pending by auto
  then show ?thesis
    by (simp add: demo_queue_def trigger_queue_def irq_line_new_def recording_gic_def)
qed

subsection \<open>The network device\<close>

text \<open>
  C7. What the guest transmits goes out complete and in order: on a ready ring the transmit drain
  passes the payload of every pending chain (what follows the 12-byte header) once, in ring
  order, first to the interceptor and, unless that consumed it, to the host backend; it
  returns with no head pending.
\<close>

theorem net_tx_in_order:
  assumes "guest_memory M" "vc_attached d" "vc_queues d = [rx, q]" "nd_seams d = Some ib"
    and "ring_ready M (w_mem w) q"
    and "transmit_all I B ib (net_payloads M (w_mem w) (pending_chains M (w_mem w) q)) = Some ib'"
  shows "\<exists>d' w' q'. net_drain_tx I B M G d w = Some (d', w') \<and> vc_queues d' = [rx, q'] \<and>
    nd_seams d' = Some ib' \<and> pending_heads M (w_mem w') q' = []"
  using assms(5)
proof (rule ring_readyE)
  fix idx
  assume "is_valid q" "rings_fit q" "buffers_safe M (w_mem w) q" "chains_ok M (w_mem w) q"
    "used_ring_ok M (w_mem w) q" "sources_safe M (w_mem w) q" "avail_idx M (w_mem w) q = Inr idx"
  from net_drain_tx_exact [OF assms(1-4) this assms(6), of G] show ?thesis by blast
qed

definition demo_nic :: "(unit, bytes list) net_device" where
  "demo_nic =
     (net_device_new \<lparr>nc_iface_id = ''eth0'', nc_host_dev_name = ''tap0'', nc_guest_mac = None, nc_mtu = None\<rparr> [] ())
       \<lparr>vc_queues := [queue_new 256, demo_queue], vc_attached := True\<rparr>"

lemma demo_nic_simps:
  "vc_attached demo_nic" "vc_queues demo_nic = [queue_new 256, demo_queue]" "nd_seams demo_nic = Some ((), [])"
  by (simp_all add: demo_nic_def net_device_new_def Let_def)

theorem net_tx_in_order_witness:
  "\<exists>d' w' q'. net_drain_tx noop_interceptor loopback_backend slice_guest_memory recording_gic demo_nic
      \<lparr>w_mem = tx_memory (replicate 12 0 @ [0xAB, 0xCD]), w_irq = irq_line_new [] (IntId 48)\<rparr> = Some (d', w') \<and>
    vc_queues d' = [queue_new 256, q'] \<and> nd_seams d' = Some ((), [[0xAB, 0xCD]]) \<and>
    pending_heads slice_guest_memory (w_mem w') q' = []"
proof -
  let ?p = "replicate 12 0 @ [0xAB, 0xCD] :: bytes"
  have len: "length ?p < 256" by simp
  have "net_payloads slice_guest_memory (tx_memory ?p) (pending_chains slice_guest_memory (tx_memory ?p) demo_queue)
      = [[0xAB, 0xCD]]"
    unfolding tx_pending [OF len] net_payloads_def using tx_payload [OF len] by simp
  then have "transmit_all noop_interceptor loopback_backend ((), []) (net_payloads slice_guest_memory (tx_memory ?p)
      (pending_chains slice_guest_memory (tx_memory ?p) demo_queue)) = Some ((), [[0xAB, 0xCD]])"
    by (simp add: net_transmit_def noop_interceptor_def loopback_backend_def)
  then show ?thesis
    using net_tx_in_order [OF slice.guest_memory_axioms demo_nic_simps,
        of "\<lparr>w_mem = tx_memory ?p, w_irq = irq_line_new [] (IntId 48)\<rparr>"] tx_ready [OF len] by simp
qed

text \<open>
  C36. A transmit chain with no payload is lost to the driver: a pending chain of at most twelve
  readable bytes is taken off the available ring and never put on the used ring, so after
  the drain nothing is pending although the used index has advanced by less than the number
  of chains taken.
\<close>

theorem net_short_chain_leaks:
  assumes "guest_memory M" "vc_attached d" "vc_queues d = [rx, q]" "nd_seams d = Some ib"
    and "ring_ready M (w_mem w) q" "ds \<in> set (pending_chains M (w_mem w) q)" "length (read_buffers M (w_mem w) ds) \<le> 12"
    and "transmit_all I B ib (net_payloads M (w_mem w) (pending_chains M (w_mem w) q)) = Some ib'"
  shows "\<exists>d' w' q' k. net_drain_tx I B M G d w = Some (d', w') \<and> vc_queues d' = [rx, q'] \<and>
    pending_heads M (w_mem w') q' = [] \<and> q_next_used_idx q' = q_next_used_idx q + of_nat k \<and>
    k < length (pending_heads M (w_mem w) q)"
  using assms(5)
proof (rule ring_readyE)
  fix idx
  assume "is_valid q" "rings_fit q" "buffers_safe M (w_mem w) q" "chains_ok M (w_mem w) q"
    "used_ring_ok M (w_mem w) q" "sources_safe M (w_mem w) q" "avail_idx M (w_mem w) q = Inr idx"
  note drained = net_drain_tx_exact [OF assms(1-4) this assms(8), of G]
  have "length (net_payloads M (w_mem w) (pending_chains M (w_mem w) q)) < length (pending_chains M (w_mem w) q)"
    using assms(6,7) length_filter_less [of "read_buffers M (w_mem w) ds" "map (read_buffers M (w_mem w)) (pending_chains M (w_mem w) q)"
        "\<lambda>bs. 12 < length bs"] by (simp add: net_payloads_def)
  with drained show ?thesis unfolding length_pending_chains by blast
qed

theorem net_short_chain_leaks_witness:
  "\<exists>d' w' q'. net_drain_tx noop_interceptor loopback_backend slice_guest_memory recording_gic demo_nic
      \<lparr>w_mem = tx_memory (replicate 12 0), w_irq = irq_line_new [] (IntId 48)\<rparr> = Some (d', w') \<and>
    vc_queues d' = [queue_new 256, q'] \<and> pending_heads slice_guest_memory (w_mem w') q' = [] \<and>
    pending_heads slice_guest_memory (tx_memory (replicate 12 0)) demo_queue = [Inr 0] \<and> q_next_used_idx q' = 0"
proof -
  let ?p = "replicate 12 0 :: bytes"
  have len: "length ?p < 256" by simp
  have "net_payloads slice_guest_memory (tx_memory ?p) (pending_chains slice_guest_memory (tx_memory ?p) demo_queue) = []"
    unfolding tx_pending [OF len] net_payloads_def using tx_payload [OF len] by simp
  then show ?thesis
    using net_short_chain_leaks [OF slice.guest_memory_axioms demo_nic_simps,
        of "\<lparr>w_mem = tx_memory ?p, w_irq = irq_line_new [] (IntId 48)\<rparr>" "[tx_desc ?p]" noop_interceptor loopback_backend
          "((), [])" recording_gic]
      tx_ready [OF len] tx_pending [OF len] tx_payload [OF len] tx_heads [OF len]
    by (auto simp: demo_queue_def)
qed

subsection \<open>The vsock device\<close>

text \<open>
  C16. The multiplexer sees every packet the guest sent, once and in order: on a ready ring the
  transmit drain parses each pending chain, hands the packets to \<open>handle_tx\<close> in ring order
  and appends the replies to the receive buffer in the order they were given; every chain
  goes back to the driver, also one too short to hold a header.
\<close>

theorem vsock_tx_in_order:
  assumes "guest_memory M" "vc_attached d" "vc_queues d = [rx, q, ev]" "ring_ready M (w_mem w) q"
    and "handle_all X (vs_muxer d)
      (List.map_filter (\<lambda>ds. vsock_parse (read_buffers M (w_mem w) ds)) (pending_chains M (w_mem w) q)) = (x', replies)"
  shows "\<exists>d' w' q'. vsock_drain_tx X M G d w = Some (d', w') \<and> vc_queues d' = [rx, q', ev] \<and>
    vs_muxer d' = x' \<and> vs_rx_buffer d' = vs_rx_buffer d @ replies \<and>
    pending_heads M (w_mem w') q' = [] \<and>
    q_next_used_idx q' = q_next_used_idx q + of_nat (length (pending_heads M (w_mem w) q))"
  using assms(4)
proof (rule ring_readyE)
  fix idx
  assume ring: "is_valid q" "rings_fit q" "buffers_safe M (w_mem w) q" "chains_ok M (w_mem w) q"
    "used_ring_ok M (w_mem w) q" "sources_safe M (w_mem w) q" "avail_idx M (w_mem w) q = Inr idx"
  have "serve_chains (vsock_tx_handler X M) (w_mem w) (vs_muxer d, vs_rx_buffer d) (pending_chains M (w_mem w) q) =
      ((x', vs_rx_buffer d @ replies), length (pending_heads M (w_mem w) q))"
    by (simp add: vsock_serve_chains assms(5) length_pending_chains)
  from reading_server.serve_queue_reads [OF vsock_reading_server [OF assms(1)] ring this, of G]
  show ?thesis
    using assms(2,3) by (auto simp: vsock_drain_tx_def drain_queue_def VSOCK_TX_QUEUE_def)
qed

definition demo_packet :: vsock_packet where
  "demo_packet =
     \<lparr>vp_hdr = \<lparr>vh_src_cid = 3, vh_dst_cid = 2, vh_src_port = 1024, vh_dst_port = 80, vh_len = 1, vh_type = 1,
                vh_op = OpRw, vh_flags = 0, vh_buf_alloc = 4096, vh_fwd_cnt = 0\<rparr>,
      vp_payload = [0x2A]\<rparr>"

definition demo_vsock :: "vsock_packet list \<Rightarrow> in_memory_muxer vsock_device" where
  "demo_vsock pending =
     \<lparr>vc_avail = 0, vc_acked = 0, vc_queues = [demo_queue, demo_queue, queue_new 256],
      vc_attached = True, vc_activated = True,
      vs_config = \<lparr>vk_vsock_id = ''v'', vk_guest_cid = 3, vk_uds_path = ''s'', vk_tsi = False\<rparr>,
      vs_muxer = \<lparr>im_tx_log = [], im_rx_queue = pending, im_auto_respond = False\<rparr>, vs_rx_buffer = []\<rparr>"

theorem vsock_tx_in_order_witness:
  "\<exists>d' w'. vsock_drain_tx in_memory_muxer_ops slice_guest_memory recording_gic (demo_vsock [])
      \<lparr>w_mem = tx_memory (vsock_wire demo_packet), w_irq = irq_line_new [] (IntId 48)\<rparr> = Some (d', w') \<and>
    im_tx_log (vs_muxer d') = [demo_packet] \<and> vs_rx_buffer d' = []"
proof -
  let ?p = "vsock_wire demo_packet"
  have len: "length ?p < 256" by (simp add: vsock_wire_def demo_packet_def)
  have "vsock_parse ?p = Some demo_packet" by (rule vsock_parse_wire) (simp_all add: demo_packet_def)
  then have "handle_all in_memory_muxer_ops (vs_muxer (demo_vsock []))
      (List.map_filter (\<lambda>ds. vsock_parse (read_buffers slice_guest_memory (tx_memory ?p) ds))
        (pending_chains slice_guest_memory (tx_memory ?p) demo_queue)) =
      (\<lparr>im_tx_log = [demo_packet], im_rx_queue = [], im_auto_respond = False\<rparr>, [])"
    unfolding tx_pending [OF len] List.map_filter_def
    using tx_payload [OF len]
    by (simp add: demo_vsock_def in_memory_muxer_ops_def in_memory_handle_tx_def)
  then show ?thesis
    using vsock_tx_in_order [OF slice.guest_memory_axioms, of "demo_vsock []" demo_queue demo_queue "queue_new 256"
        "\<lparr>w_mem = tx_memory ?p, w_irq = irq_line_new [] (IntId 48)\<rparr>" in_memory_muxer_ops] tx_ready [OF len]
    by (fastforce simp: demo_vsock_def)
qed

text \<open>
  The vsock wire header is faithful: every header, followed by any payload, decodes from its 44
  bytes to itself, and input shorter than a header is refused.
\<close>

theorem vsock_header_roundtrip:
  "vsock_header_from_bytes (vsock_header_to_bytes h @ payload) = Inr h \<and>
   (vsock_header_from_bytes bs = Inl HeaderTooShort \<longleftrightarrow> length bs < 44)"
  by (simp add: vsock_header_roundtrip_aux) (simp add: vsock_header_from_bytes_def VSOCK_HDR_SIZE_def)

text \<open>
  C35. Packets for the guest are lost under back-pressure: when the guest has posted no receive
  buffer, the receive drain empties the multiplexer's queue and the device's own buffer and
  keeps only the first packet of the two; every other packet is gone, memory and interrupt
  line untouched.
\<close>

theorem vsock_rx_overflow_lost:
  assumes "vc_attached d" "vc_queues d = q # qs" "is_valid q"
    and "avail_idx M (w_mem w) q = Inr (q_next_avail_idx q)"
    and "vm_drain_rx X (vs_muxer d) = (x', fresh)" "vs_rx_buffer d @ fresh = p # ps"
  shows "vsock_drain_rx X M G d w = Some (d\<lparr>vs_muxer := x', vs_rx_buffer := [p]\<rparr>, w)"
  using assms by (rule vsock_rx_full)

theorem vsock_rx_overflow_lost_witness:
  "\<exists>d'. vsock_drain_rx in_memory_muxer_ops slice_guest_memory recording_gic (demo_vsock [demo_packet, demo_packet])
      \<lparr>w_mem = slice_memory_new 0x1000 64, w_irq = irq_line_new [] (IntId 48)\<rparr> =
        Some (d', \<lparr>w_mem = slice_memory_new 0x1000 64, w_irq = irq_line_new [] (IntId 48)\<rparr>) \<and>
    vs_rx_buffer d' = [demo_packet] \<and> im_rx_queue (vs_muxer d') = []"
proof -
  let ?w = "\<lparr>w_mem = slice_memory_new 0x1000 64, w_irq = irq_line_new [] (IntId 48)\<rparr>"
  have "avail_idx slice_guest_memory (slice_memory_new 0x1000 64) demo_queue = Inr 0" by code_simp
  then show ?thesis
    using vsock_rx_overflow_lost [of "demo_vsock [demo_packet, demo_packet]" demo_queue "[demo_queue, queue_new 256]"
        slice_guest_memory ?w in_memory_muxer_ops _ _ demo_packet "[demo_packet]" recording_gic] flush_layout(1)
    by (simp add: demo_vsock_def in_memory_muxer_ops_def demo_queue_def)
qed

subsection \<open>Receive chains\<close>

text \<open>
  C19. The used length of a received packet is honest: however the device spreads a packet over the
  buffers of a chain, and wherever it stops, the length it reports is the number of bytes the
  driver then finds, in order, at the start of its buffers; nothing else in memory changes.
\<close>

theorem rx_used_length_honest:
  assumes "guest_memory M" "scatter M m wire 0 ds 0 = (m', written)"
    and "bufs_disjoint (device_buffers ds)" "length wire < 2 ^ 32"
  shows "gather M m' (clip (unat written) (device_buffers ds)) = Inr (take (unat written) wire) \<and>
    unat written \<le> length wire \<and>
    (list_all (\<lambda>d. desc_disjoint d a n) (device_buffers ds) \<longrightarrow> gm_read M m' a n = gm_read M m a n)"
  using guest_memory.scatter_exact [OF assms(1,2,3)] assms(4)
    guest_memory.scatter_frame [OF assms(1,2)] by (auto simp: slice_def)

theorem rx_used_length_honest_witness:
  "\<exists>m' written. scatter slice_guest_memory flush_memory [9, 8] 0 [flush_header, flush_status] 0 = (m', written) \<and>
    gather slice_guest_memory m' (clip (unat written) [flush_status]) = Inr (take (unat written) [9, 8])"
proof -
  obtain m' written where r: "scatter slice_guest_memory flush_memory [9, 8] 0 [flush_header, flush_status] 0 = (m', written)"
    by (metis surj_pair)
  show ?thesis
    using rx_used_length_honest [OF slice.guest_memory_axioms r, of 0 0] r by (auto simp: flush_descriptors(5,6))
qed

end
