(* ===== verification/Mmio_Bus.thy ===== *)
theory Mmio_Bus
  imports Guest_Memory
begin

text \<open>
  The MMIO bus, \<open>src/crates/bus/src/lib.rs\<close> and \<open>range.rs\<close>: half-open ranges, the boot-time
  builder that refuses overlaps, and the dispatch of guest accesses. The \<open>BTreeMap\<close> keyed by
  range base is a list in strictly increasing order of bases; a device handle is the position
  of its entry. \<open>BusDevice\<close> is a dictionary; a write that does not return is \<open>None\<close>.

  The lemmas show that the entries of every bus that was built are disjoint, and that
  \<open>resolve\<close>, which looks at one candidate only, finds the covering device exactly when there
  is one.
\<close>

subsection \<open>Ranges\<close>

record bus_range =
  br_base :: u64
  br_len :: u64

datatype bus_error = BusOverlap bus_range | ZeroLengthRange | RangeOverflow | NoDevice u64

definition bus_range_new :: "u64 \<Rightarrow> u64 \<Rightarrow> bus_error + bus_range" where
  "bus_range_new base len =
     (if len = 0 then Inl ZeroLengthRange
      else case checked_add base len of
        None \<Rightarrow> Inl RangeOverflow
      | Some _ \<Rightarrow> Inr \<lparr>br_base = base, br_len = len\<rparr>)"

definition br_end :: "bus_range \<Rightarrow> u64" where
  "br_end self = br_base self + br_len self"

definition br_contains :: "bus_range \<Rightarrow> u64 \<Rightarrow> bool" where
  "br_contains self addr \<longleftrightarrow> addr \<ge> br_base self \<and> addr < br_end self"

definition br_overlaps :: "bus_range \<Rightarrow> bus_range \<Rightarrow> bool" where
  "br_overlaps self other \<longleftrightarrow> br_base self < br_end other \<and> br_base other < br_end self"

text \<open>Ranges are compared by base alone.\<close>

definition br_lt :: "bus_range \<Rightarrow> bus_range \<Rightarrow> bool" where
  "br_lt self other \<longleftrightarrow> br_base self < br_base other"

subsection \<open>Devices and the bus\<close>

record 'd bus_device_ops =
  busd_read :: "'d \<Rightarrow> u64 \<Rightarrow> bytes \<Rightarrow> 'd \<times> bytes"
  busd_write :: "'d \<Rightarrow> u64 \<Rightarrow> bytes \<Rightarrow> 'd option"

type_synonym 'd bus = "(bus_range \<times> 'd) list"

text \<open>\<open>BTreeMap::insert\<close>: at the place of its base, replacing an entry with the same base.\<close>

fun btree_insert :: "bus_range \<Rightarrow> 'd \<Rightarrow> 'd bus \<Rightarrow> 'd bus" where
  "btree_insert r d [] = [(r, d)]"
| "btree_insert r d ((s, e) # b) =
     (if br_lt r s then (r, d) # (s, e) # b
      else if br_lt s r then (s, e) # btree_insert r d b
      else (s, d) # b)"

definition bus_insert :: "'d bus \<Rightarrow> 'd \<Rightarrow> u64 \<Rightarrow> u64 \<Rightarrow> bus_error + 'd bus" where
  "bus_insert self device base len =
     (case bus_range_new base len of
        Inl e \<Rightarrow> Inl e
      | Inr new_range \<Rightarrow>
          (case find (\<lambda>existing. br_overlaps existing new_range) (map fst self) of
             Some existing \<Rightarrow> Inl (BusOverlap existing)
           | None \<Rightarrow> Inr (btree_insert new_range device self)))"

text \<open>\<open>range(..=probe).next_back()\<close>: the last entry whose base is not above the address.\<close>

definition bus_candidate :: "'d bus \<Rightarrow> u64 \<Rightarrow> nat option" where
  "bus_candidate self addr =
     (case filter (\<lambda>i. br_base (fst (self ! i)) \<le> addr) [0..<length self] of
        [] \<Rightarrow> None
      | is \<Rightarrow> Some (last is))"

definition bus_resolve :: "'d bus \<Rightarrow> u64 \<Rightarrow> bus_error + (u64 \<times> nat)" where
  "bus_resolve self addr =
     (case bus_candidate self addr of
        None \<Rightarrow> Inl (NoDevice addr)
      | Some i \<Rightarrow>
          let range = fst (self ! i)
          in if br_contains range addr then Inr (addr - br_base range, i)
             else Inl (NoDevice addr))"

definition bus_read ::
  "'d bus_device_ops \<Rightarrow> 'd bus \<Rightarrow> u64 \<Rightarrow> bytes \<Rightarrow> bus_error + ('d bus \<times> bytes)" where
  "bus_read D self addr data =
     (case bus_resolve self addr of
        Inl e \<Rightarrow> Inl e
      | Inr (offset, i) \<Rightarrow>
          let (dev, out) = busd_read D (snd (self ! i)) offset data
          in Inr (self[i := (fst (self ! i), dev)], out))"

definition bus_write ::
  "'d bus_device_ops \<Rightarrow> 'd bus \<Rightarrow> u64 \<Rightarrow> bytes \<Rightarrow> (bus_error + 'd bus) option" where
  "bus_write D self addr data =
     (case bus_resolve self addr of
        Inl e \<Rightarrow> Some (Inl e)
      | Inr (offset, i) \<Rightarrow>
          (case busd_write D (snd (self ! i)) offset data of
             None \<Rightarrow> None
           | Some dev \<Rightarrow> Some (Inr (self[i := (fst (self ! i), dev)]))))"

subsection \<open>The invariant of a built bus\<close>

definition range_ok :: "bus_range \<Rightarrow> bool" where
  "range_ok r \<longleftrightarrow> 0 < unat (br_len r) \<and> unat (br_base r) + unat (br_len r) < 2 ^ 64"

definition bus_inv :: "'d bus \<Rightarrow> bool" where
  "bus_inv b \<longleftrightarrow> list_all (\<lambda>e. range_ok (fst e)) b \<and>
     sorted_wrt (\<lambda>x y. unat (br_base (fst x)) + unat (br_len (fst x)) \<le> unat (br_base (fst y))) b"

lemma unat_br_end: "range_ok r \<Longrightarrow> unat (br_end r) = unat (br_base r) + unat (br_len r)"
  by (simp add: range_ok_def br_end_def unat_plus_nowrap)

lemma br_contains_iff:
  "range_ok r \<Longrightarrow> br_contains r a \<longleftrightarrow>
    unat (br_base r) \<le> unat a \<and> unat a < unat (br_base r) + unat (br_len r)"
  by (simp add: br_contains_def word_le_nat_alt word_less_nat_alt unat_br_end)

lemma br_overlaps_iff:
  "range_ok r \<Longrightarrow> range_ok s \<Longrightarrow> br_overlaps r s \<longleftrightarrow>
    unat (br_base r) < unat (br_base s) + unat (br_len s) \<and> unat (br_base s) < unat (br_base r) + unat (br_len r)"
  by (simp add: br_overlaps_def word_less_nat_alt unat_br_end)

lemma overlaps_common:
  "br_overlaps r s \<Longrightarrow> range_ok r \<Longrightarrow> range_ok s \<Longrightarrow> \<exists>a. br_contains r a \<and> br_contains s a"
  "br_contains r a \<Longrightarrow> br_contains s a \<Longrightarrow> br_overlaps r s"
proof -
  show "br_overlaps r s" if "br_contains r a" "br_contains s a"
    using that unfolding br_contains_def br_overlaps_def by (meson order_le_less_trans)
  assume "br_overlaps r s" "range_ok r" "range_ok s"
  then have "br_contains r (max (br_base r) (br_base s)) \<and> br_contains s (max (br_base r) (br_base s))"
    by (auto simp: br_contains_iff br_overlaps_iff max_def word_le_nat_alt range_ok_def)
  then show "\<exists>a. br_contains r a \<and> br_contains s a" by blast
qed

lemma bus_range_new_Inr:
  "bus_range_new base len = Inr r \<longleftrightarrow> r = \<lparr>br_base = base, br_len = len\<rparr> \<and> range_ok r"
  by (auto simp: bus_range_new_def range_ok_def checked_add_def unat_gt_0 split: option.splits if_splits)

lemma set_btree_insert:
  "(\<And>e. e \<in> set b \<Longrightarrow> br_base (fst e) \<noteq> br_base r) \<Longrightarrow> set (btree_insert r d b) = insert (r, d) (set b)"
proof (induction r d b rule: btree_insert.induct)
  case (2 r d s e b)
  have "br_base s \<noteq> br_base r" using 2(2) [of "(s, e)"] by simp
  moreover have "set (btree_insert r d b) = insert (r, d) (set b)" if "\<not> br_lt r s" "br_lt s r"
    using 2(1) [OF that] 2(2) by (meson list.set_intros(2))
  ultimately show ?case by (auto simp: br_lt_def)
qed simp

lemma btree_insert_inv:
  assumes "bus_inv b" "range_ok r" "\<And>e. e \<in> set b \<Longrightarrow> \<not> br_overlaps (fst e) r"
  shows "bus_inv (btree_insert r d b)"
  using assms
proof (induction r d b rule: btree_insert.induct)
  case (1 r d)
  then show ?case by (simp add: bus_inv_def)
next
  case (2 r d s e b)
  have ok: "range_ok s" and inv: "bus_inv b" using "2.prems"(1) by (simp_all add: bus_inv_def)
  have gap: "unat (br_base s) + unat (br_len s) \<le> unat (br_base r) \<or> unat (br_base r) + unat (br_len r) \<le> unat (br_base s)"
    using "2.prems"(3) [of "(s, e)"] ok "2.prems"(2) by (auto simp: br_overlaps_iff)
  have neq: "br_base (fst x) \<noteq> br_base r" if "x \<in> set b" for x
    using "2.prems"(3) [of x] that "2.prems"(1,2)
    by (auto simp: bus_inv_def list_all_iff br_overlaps_iff range_ok_def)
  consider (before) "br_lt r s" | (after) "\<not> br_lt r s" "br_lt s r" | (same) "br_base r = br_base s"
    unfolding br_lt_def by (meson linorder_less_linear)
  then show ?case
  proof cases
    case before
    then show ?thesis
      using "2.prems"(1,2) gap by (auto simp: bus_inv_def br_lt_def word_less_nat_alt)
  next
    case after
    have "bus_inv (btree_insert r d b)"
      using "2.IH" [OF after inv "2.prems"(2)] "2.prems"(3) by simp
    moreover have "set (btree_insert r d b) = insert (r, d) (set b)"
      using neq by (rule set_btree_insert)
    ultimately show ?thesis
      using "2.prems"(1) after gap by (auto simp: bus_inv_def br_lt_def word_less_nat_alt)
  next
    case same
    with gap "2.prems"(2) ok show ?thesis by (simp add: range_ok_def)
  qed
qed

lemma bus_insert_Inr:
  assumes "bus_inv b" "bus_insert b d base len = Inr b'"
  shows "bus_inv b'" "set b' = insert (\<lparr>br_base = base, br_len = len\<rparr>, d) (set b)"
proof -
  let ?r = "\<lparr>br_base = base, br_len = len\<rparr>"
  from assms(2) have r: "range_ok ?r" and b': "b' = btree_insert ?r d b"
    and none: "\<And>e. e \<in> set b \<Longrightarrow> \<not> br_overlaps (fst e) ?r"
    by (auto simp: bus_insert_def bus_range_new_Inr find_None_iff split: sum.splits option.splits)
  show "bus_inv b'" unfolding b' using assms(1) r none by (rule btree_insert_inv)
  have "br_base (fst e) \<noteq> br_base ?r" if "e \<in> set b" for e
    using none [OF that] that assms(1) r
    by (auto simp: bus_inv_def list_all_iff br_overlaps_iff range_ok_def)
  then show "set b' = insert (?r, d) (set b)" unfolding b' by (rule set_btree_insert)
qed

lemma sorted_unique:
  assumes "bus_inv b" "i < length b" "j < length b" "br_contains (fst (b ! i)) a" "br_contains (fst (b ! j)) a"
  shows "i = j"
proof (rule ccontr)
  assume "i \<noteq> j"
  then obtain k l where kl: "k < l" "l < length b" "br_contains (fst (b ! k)) a" "br_contains (fst (b ! l)) a"
    using assms by (metis nat_neq_iff)
  then have "unat (br_base (fst (b ! k))) + unat (br_len (fst (b ! k))) \<le> unat (br_base (fst (b ! l)))"
    using assms(1) by (simp add: bus_inv_def sorted_wrt_iff_nth_less)
  moreover have "range_ok (fst (b ! k))" "range_ok (fst (b ! l))"
    using kl assms(1) by (auto simp: bus_inv_def list_all_length)
  ultimately show False using kl(3,4) by (simp add: br_contains_iff)
qed

lemma sorted_le_last: "sorted xs \<Longrightarrow> x \<in> set xs \<Longrightarrow> x \<le> last xs"
  for x :: "'a::linorder"
  by (induction xs) auto

lemma bus_candidate_Some:
  "bus_candidate b a = Some i \<Longrightarrow> i < length b \<and> br_base (fst (b ! i)) \<le> a \<and>
    (\<forall>j < length b. i < j \<longrightarrow> \<not> br_base (fst (b ! j)) \<le> a)"
proof -
  assume c: "bus_candidate b a = Some i"
  let ?P = "\<lambda>i. br_base (fst (b ! i)) \<le> a"
  from c have ne: "filter ?P [0..<length b] \<noteq> []" and i: "i = last (filter ?P [0..<length b])"
    by (auto simp: bus_candidate_def split: list.splits)
  have "i \<in> set (filter ?P [0..<length b])" unfolding i using ne by (rule last_in_set)
  moreover have "j \<le> i" if "j \<in> set (filter ?P [0..<length b])" for j
  proof -
    have "sorted (filter ?P [0..<length b])" by (intro sorted_wrt_filter) simp
    then show ?thesis using that unfolding i by (rule sorted_le_last)
  qed
  ultimately show ?thesis by fastforce
qed


lemma bus_candidate_None:
  "bus_candidate b a = None \<Longrightarrow> i < length b \<Longrightarrow> \<not> br_base (fst (b ! i)) \<le> a"
  by (auto simp: bus_candidate_def filter_empty_conv split: list.splits)

lemma bus_resolve_Inr:
  "bus_resolve b a = Inr (off, i) \<Longrightarrow>
    i < length b \<and> br_contains (fst (b ! i)) a \<and> off = a - br_base (fst (b ! i))"
  by (auto simp: bus_resolve_def Let_def dest: bus_candidate_Some split: option.splits if_splits)

text \<open>One candidate is enough: a range that starts below it ends before it starts.\<close>

lemma bus_resolve_Inl:
  assumes "bus_inv b" "bus_resolve b a = Inl e"
  shows "e = NoDevice a" "\<And>i. i < length b \<Longrightarrow> \<not> br_contains (fst (b ! i)) a"
proof -
  show "e = NoDevice a"
    using assms(2) by (auto simp: bus_resolve_def Let_def split: option.splits if_splits)
  fix i assume i: "i < length b"
  show "\<not> br_contains (fst (b ! i)) a"
  proof (cases "bus_candidate b a")
    case None
    with i show ?thesis by (auto simp: br_contains_def dest: bus_candidate_None)
  next
    case (Some j)
    note c = bus_candidate_Some [OF Some]
    have nj: "\<not> br_contains (fst (b ! j)) a"
      using assms(2) Some by (auto simp: bus_resolve_def Let_def split: if_splits)
    have ok: "range_ok (fst (b ! i))" "range_ok (fst (b ! j))"
      using i c assms(1) by (auto simp: bus_inv_def list_all_length)
    consider "i < j" | "i = j" | "j < i" by linarith
    then show ?thesis
    proof cases
      case 1
      then have "unat (br_base (fst (b ! i))) + unat (br_len (fst (b ! i))) \<le> unat (br_base (fst (b ! j)))"
        using c assms(1) by (simp add: bus_inv_def sorted_wrt_iff_nth_less)
      with c ok show ?thesis by (auto simp: br_contains_iff word_le_nat_alt)
    next
      case 2 with nj show ?thesis by simp
    next
      case 3 with c i show ?thesis by (simp add: br_contains_def)
    qed
  qed
qed

lemma bus_resolve_iff:
  assumes "bus_inv b" "i < length b"
  shows "(\<exists>off. bus_resolve b a = Inr (off, i)) \<longleftrightarrow> br_contains (fst (b ! i)) a"
proof (cases "bus_resolve b a")
  case (Inl e)
  then show ?thesis using bus_resolve_Inl(2) [OF assms(1) Inl assms(2)] by simp
next
  case (Inr p)
  obtain off j where p: "p = (off, j)" by (cases p)
  with Inr have "j < length b" "br_contains (fst (b ! j)) a" using bus_resolve_Inr by blast+
  then show ?thesis using Inr p sorted_unique [OF assms(1) assms(2), of j a] by auto
qed

lemma map_fst_update: "map fst (b[i := (fst (b ! i), d)]) = map fst b"
  by (cases "i < length b") (simp_all add: map_update list_update_same_conv list_update_beyond)

lemma bus_inv_ranges:
  "bus_inv b \<longleftrightarrow> list_all range_ok (map fst b) \<and>
     sorted_wrt (\<lambda>r s. unat (br_base r) + unat (br_len r) \<le> unat (br_base s)) (map fst b)"
  by (simp add: bus_inv_def list.pred_map comp_def sorted_wrt_map)

lemma bus_inv_map_fst: "map fst b = map fst b' \<Longrightarrow> bus_inv b \<longleftrightarrow> bus_inv b'"
  by (simp only: bus_inv_ranges)

subsection \<open>The device contract\<close>

text \<open>
  What the bus relies on in a device is only what the type of \<open>&mut [u8]\<close> gives: a read fills
  the caller's buffer and does not change its length.
\<close>

locale bus_device =
  fixes D :: "'d bus_device_ops"
  assumes busd_read_length: "length (snd (busd_read D d off data)) = length data"
begin

lemma bus_read_spec:
  assumes "bus_inv b" "i < length b" "br_contains (fst (b ! i)) a"
  shows "\<exists>b' out. bus_read D b a data = Inr (b', out) \<and> length out = length data \<and>
    map fst b' = map fst b \<and> bus_inv b' \<and>
    (snd (b' ! i), out) = busd_read D (snd (b ! i)) (a - br_base (fst (b ! i))) data \<and>
    (\<forall>j < length b. j \<noteq> i \<longrightarrow> b' ! j = b ! j)"
proof -
  from bus_resolve_iff [OF assms(1,2)] assms(3) obtain off where r: "bus_resolve b a = Inr (off, i)" by blast
  with bus_resolve_Inr have off: "off = a - br_base (fst (b ! i))" by blast
  obtain dev out where o: "busd_read D (snd (b ! i)) off data = (dev, out)" by fastforce
  let ?b = "b[i := (fst (b ! i), dev)]"
  have "bus_read D b a data = Inr (?b, out)" using r o by (simp add: bus_read_def)
  moreover have "length out = length data" using busd_read_length [of "snd (b ! i)" off data] o by simp
  moreover have "map fst ?b = map fst b" by (rule map_fst_update)
  moreover from this have "bus_inv ?b" using bus_inv_map_fst assms(1) by blast
  ultimately show ?thesis using o off assms(2) by auto
qed

end

lemma bus_write_frame:
  assumes "bus_inv b" "bus_write D b a data = Some (Inr b')"
  shows "\<exists>i < length b. br_contains (fst (b ! i)) a \<and> map fst b' = map fst b \<and> bus_inv b' \<and>
    busd_write D (snd (b ! i)) (a - br_base (fst (b ! i))) data = Some (snd (b' ! i)) \<and>
    (\<forall>j < length b. j \<noteq> i \<longrightarrow> b' ! j = b ! j)"
proof -
  from assms(2) obtain off i dev where r: "bus_resolve b a = Inr (off, i)"
    and w: "busd_write D (snd (b ! i)) off data = Some dev" and b': "b' = b[i := (fst (b ! i), dev)]"
    by (auto simp: bus_write_def split: sum.splits prod.splits option.splits)
  note i = bus_resolve_Inr [OF r]
  have m: "map fst b' = map fst b" unfolding b' by (rule map_fst_update)
  moreover have "bus_inv b'" using m bus_inv_map_fst assms(1) by blast
  ultimately show ?thesis using i w by (intro exI [of _ i]) (auto simp: b')
qed

subsection \<open>Properties\<close>

text \<open>The registrations of a boot, in their order; one that is refused leaves the bus as it is.\<close>

fun bus_register :: "'d bus \<Rightarrow> ('d \<times> u64 \<times> u64) list \<Rightarrow> 'd bus" where
  "bus_register b [] = b"
| "bus_register b ((d, base, len) # rs) =
     (case bus_insert b d base len of Inl _ \<Rightarrow> bus_register b rs | Inr b' \<Rightarrow> bus_register b' rs)"

lemma bus_register_inv: "bus_inv b \<Longrightarrow> bus_inv (bus_register b rs)"
  by (induction b rs rule: bus_register.induct) (auto dest: bus_insert_Inr split: sum.split)

lemma bus_inv_Nil [simp]: "bus_inv []"
  by (simp add: bus_inv_def)

text \<open>
  C25. After any sequence of registrations, an address resolves to an entry exactly when that
  entry's range covers the address (so at most one does), the offset handed to the device is
  the distance from the base, and an address that no range covers is \<open>NoDevice\<close>.
\<close>

theorem bus_resolve_exact:
  fixes rs :: "('d \<times> u64 \<times> u64) list" and a :: u64
  shows "let b = bus_register [] rs in
         (\<forall>i off. bus_resolve b a = Inr (off, i) \<longleftrightarrow>
            i < length b \<and> br_contains (fst (b ! i)) a \<and> off = a - br_base (fst (b ! i))) \<and>
         (\<forall>e. bus_resolve b a = Inl e \<longleftrightarrow>
            e = NoDevice a \<and> (\<forall>i < length b. \<not> br_contains (fst (b ! i)) a))"
proof -
  define b where "b = bus_register [] rs"
  have inv: "bus_inv b" unfolding b_def by (intro bus_register_inv) simp
  have 1: "bus_resolve b a = Inr (off, i) \<longleftrightarrow>
            i < length b \<and> br_contains (fst (b ! i)) a \<and> off = a - br_base (fst (b ! i))" for i off
    using bus_resolve_Inr [of b a off i] bus_resolve_Inr [of b a _ i] bus_resolve_iff [OF inv, of i a] by blast
  have 2: "bus_resolve b a = Inl e \<longleftrightarrow>
            e = NoDevice a \<and> (\<forall>i < length b. \<not> br_contains (fst (b ! i)) a)" for e
  proof (cases "bus_resolve b a")
    case (Inl x)
    then show ?thesis using bus_resolve_Inl [OF inv Inl] by auto
  next
    case (Inr p)
    then show ?thesis using 1 [of "fst p" "snd p"] by auto
  qed
  from 1 2 show ?thesis unfolding b_def Let_def by blast
qed

theorem bus_resolve_exact_witness:
  "bus_register [] [((), 0x1000, 0x1000), ((), 0x1800, 8), ((), 0x2000, 4)] =
     [(\<lparr>br_base = 0x1000, br_len = 0x1000\<rparr>, ()), (\<lparr>br_base = 0x2000, br_len = 4\<rparr>, ())] \<and>
   bus_resolve (bus_register [] [((), 0x1000, 0x1000), ((), 0x1800, 8), ((), 0x2000, 4)]) 0x2003 = Inr (3, 1)"
proof -
  let ?b = "bus_register [] [((), 0x1000, 0x1000), ((), 0x1800, 8), ((), 0x2000, 4)]"
  have b: "?b = [(\<lparr>br_base = 0x1000, br_len = 0x1000\<rparr>, ()), (\<lparr>br_base = 0x2000, br_len = 4\<rparr>, ())]"
    by code_simp
  have "1 < length ?b \<and> br_contains (fst (?b ! 1)) 0x2003 \<and> (3 :: u64) = 0x2003 - br_base (fst (?b ! 1))"
    unfolding b by (simp add: br_contains_def br_end_def)
  then have "bus_resolve ?b 0x2003 = Inr (3, 1)"
    using bus_resolve_exact [of "[((), 0x1000, 0x1000), ((), 0x1800, 8), ((), 0x2000, 4)]" "0x2003"] unfolding Let_def by blast
  with b show ?thesis by blast
qed

text \<open>
  A registration is refused exactly for the reason the code names: an empty range, a range
  past the end of the address space, or a range that shares an address with an existing one
  (of which the lowest is reported); otherwise the new entry is added, the others are kept and
  the bus stays sorted and disjoint.
\<close>

theorem bus_insert_spec:
  assumes "bus_inv b"
  shows "case bus_insert b d base len of
      Inr b' \<Rightarrow> bus_inv b' \<and> set b' = insert (\<lparr>br_base = base, br_len = len\<rparr>, d) (set b) \<and>
        (\<forall>e \<in> set b. \<forall>a. \<not> (br_contains (fst e) a \<and> br_contains \<lparr>br_base = base, br_len = len\<rparr> a))
    | Inl ZeroLengthRange \<Rightarrow> len = 0
    | Inl RangeOverflow \<Rightarrow> len \<noteq> 0 \<and> unat base + unat len \<ge> 2 ^ 64
    | Inl (BusOverlap r) \<Rightarrow> (\<exists>e \<in> set b. fst e = r) \<and>
        (\<exists>a. br_contains r a \<and> br_contains \<lparr>br_base = base, br_len = len\<rparr> a)
    | Inl (NoDevice _) \<Rightarrow> False"
proof (cases "bus_range_new base len")
  case (Inl e)
  then show ?thesis
    by (auto simp: bus_insert_def bus_range_new_def checked_add_def split: if_splits)
next
  case (Inr r)
  then have r: "r = \<lparr>br_base = base, br_len = len\<rparr>" "range_ok r" unfolding bus_range_new_Inr by blast+
  show ?thesis
  proof (cases "find (\<lambda>existing. br_overlaps existing r) (map fst b)")
    case None
    then have ins: "bus_insert b d base len = Inr (btree_insert r d b)" using Inr by (simp add: bus_insert_def)
    have "\<not> (br_contains (fst e) a \<and> br_contains r a)" if "e \<in> set b" for e a
      using None that by (auto simp: find_None_iff intro: overlaps_common(2))
    then show ?thesis using bus_insert_Inr [OF assms ins] ins r(1) by simp
  next
    case (Some s)
    then obtain e where "e \<in> set b" "fst e = s" "br_overlaps s r"
      by (metis find_Some_iff in_set_conv_nth length_map nth_map)
    moreover from this have "range_ok s" using assms by (auto simp: bus_inv_def list_all_iff)
    ultimately have "\<exists>a. br_contains s a \<and> br_contains r a" using r(2) overlaps_common(1) by blast
    then show ?thesis using Some Inr \<open>e \<in> set b\<close> \<open>fst e = s\<close> r(1) by (auto simp: bus_insert_def)
  qed
qed

theorem bus_insert_spec_witness:
  "bus_inv [(\<lparr>br_base = 0x1000, br_len = 0x1000\<rparr>, ())] \<and>
   bus_insert [(\<lparr>br_base = 0x1000, br_len = 0x1000\<rparr>, ())] () 0x1800 8
     = Inl (BusOverlap \<lparr>br_base = 0x1000, br_len = 0x1000\<rparr>) \<and>
   (\<exists>a. br_contains \<lparr>br_base = 0x1000, br_len = 0x1000\<rparr> a \<and> br_contains \<lparr>br_base = 0x1800, br_len = 8\<rparr> a)"
proof -
  let ?b = "[(\<lparr>br_base = 0x1000, br_len = 0x1000\<rparr>, ())] :: unit bus"
  have inv: "bus_inv ?b" by (simp add: bus_inv_def range_ok_def)
  have ins: "bus_insert ?b () 0x1800 8 = Inl (BusOverlap \<lparr>br_base = 0x1000, br_len = 0x1000\<rparr>)" by code_simp
  show ?thesis using bus_insert_spec [OF inv, of "0x1800" 8 "()"] inv ins by simp
qed

end
