(* ===== verification/Pl011_Uart.thy ===== *)
theory Pl011_Uart
  imports Interrupts Mmio_Bus
begin

text \<open>
  The PL011 serial port, \<open>src/crates/legacy/src/pl011.rs\<close>: the register file, the receive
  queue with its level-triggered interrupt, the transmit path into a sink, and the bus entry
  points. \<open>Pl011Sink\<close> has one method and is that function; the GIC is the dictionary of
  \<open>Interrupts\<close>.

  The lemmas show that the console loses, duplicates and reorders no byte in either direction,
  and that the level of the interrupt line is the masked receive status in every state the host
  and the guest can reach.
\<close>

unbundle bit_operations_syntax

subsection \<open>Registers\<close>

definition PL011_MMIO_REGION_BYTES :: u64 where "PL011_MMIO_REGION_BYTES = 0x1000"

definition FR_TX_EMPTY :: u32 where "FR_TX_EMPTY = push_bit 7 1"

definition FR_RX_EMPTY :: u32 where "FR_RX_EMPTY = push_bit 4 1"

definition IMSC_RX :: u32 where "IMSC_RX = push_bit 4 1"

definition INT_RX :: u32 where "INT_RX = push_bit 4 1"

definition PERIPH_PCELL_ID :: "(u64 \<times> u32) list" where
  "PERIPH_PCELL_ID =
     [(0xFE0, 0x11), (0xFE4, 0x10), (0xFE8, 0x14), (0xFEC, 0x00),
      (0xFF0, 0x0D), (0xFF4, 0xF0), (0xFF8, 0x05), (0xFFC, 0xB1)]"

lemmas pl011_consts = FR_TX_EMPTY_def FR_RX_EMPTY_def IMSC_RX_def INT_RX_def

subsection \<open>Sinks\<close>

type_synonym 's pl011_sink = "'s \<Rightarrow> u8 \<Rightarrow> 's"

definition discard_sink :: "unit pl011_sink" where
  "discard_sink self byte = self"

definition captured_sink :: "bytes pl011_sink" where
  "captured_sink self byte = self @ [byte]"

text \<open>A \<open>WriterSink\<close> drops the result of the wrapped writer's \<open>write_all\<close>.\<close>

definition writer_sink :: "('w \<Rightarrow> bytes \<Rightarrow> 'w \<times> bool) \<Rightarrow> 'w pl011_sink" where
  "writer_sink write_all self byte = fst (write_all self [byte])"

subsection \<open>The device\<close>

record ('s, 'g) pl011 =
  pl_sink :: 's
  pl_rx_queue :: bytes
  pl_imsc :: u32
  pl_ris :: u32
  pl_ibrd :: u32
  pl_fbrd :: u32
  pl_lcrh :: u32
  pl_cr :: u32
  pl_iflss :: u32
  pl_dmacr :: u32
  pl_ilpr :: u32
  pl_gic :: 'g
  pl_intid :: int_id

definition pl011_new :: "'s \<Rightarrow> 'g \<Rightarrow> int_id \<Rightarrow> ('s, 'g) pl011" where
  "pl011_new sink gic intid =
     \<lparr>pl_sink = sink, pl_rx_queue = [], pl_imsc = 0, pl_ris = 0, pl_ibrd = 0, pl_fbrd = 0,
      pl_lcrh = 0, pl_cr = 0, pl_iflss = 0, pl_dmacr = 0, pl_ilpr = 0, pl_gic = gic,
      pl_intid = intid\<rparr>"

text \<open>\<open>let _ = self.gic.set_spi_level(..)\<close>: an error is dropped.\<close>

definition drive_line :: "'g gic_ops \<Rightarrow> ('s, 'g) pl011 \<Rightarrow> bool \<Rightarrow> ('s, 'g) pl011" where
  "drive_line G self v = self\<lparr>pl_gic := fst (gic_set_spi_level G (pl_gic self) (pl_intid self) v)\<rparr>"

definition push_rx :: "'g gic_ops \<Rightarrow> ('s, 'g) pl011 \<Rightarrow> u8 \<Rightarrow> ('s, 'g) pl011 \<times> nat" where
  "push_rx G self byte =
     (let self = self\<lparr>pl_rx_queue := pl_rx_queue self @ [byte], pl_ris := pl_ris self OR INT_RX\<rparr>;
          self = (if pl_imsc self AND IMSC_RX \<noteq> 0 then drive_line G self True else self)
      in (self, length (pl_rx_queue self)))"

definition fr_value :: "('s, 'g) pl011 \<Rightarrow> u32" where
  "fr_value self = (if pl_rx_queue self = [] then FR_TX_EMPTY OR FR_RX_EMPTY else FR_TX_EMPTY)"

definition read_dr :: "'g gic_ops \<Rightarrow> ('s, 'g) pl011 \<Rightarrow> ('s, 'g) pl011 \<times> u32" where
  "read_dr G self =
     (case pl_rx_queue self of
        b # rest \<Rightarrow>
          let self = self\<lparr>pl_rx_queue := rest\<rparr>;
              self = (if rest = [] then drive_line G (self\<lparr>pl_ris := pl_ris self AND NOT INT_RX\<rparr>) False
                      else self)
          in (self, ucast b)
      | [] \<Rightarrow> (self, 0))"

definition write_dr :: "'s pl011_sink \<Rightarrow> ('s, 'g) pl011 \<Rightarrow> u32 \<Rightarrow> ('s, 'g) pl011" where
  "write_dr S self v = self\<lparr>pl_sink := S (pl_sink self) (ucast v)\<rparr>"

definition pl011_read_register :: "'g gic_ops \<Rightarrow> ('s, 'g) pl011 \<Rightarrow> u64 \<Rightarrow> ('s, 'g) pl011 \<times> u32" where
  "pl011_read_register G self offset =
     (case map_of PERIPH_PCELL_ID offset of
        Some v \<Rightarrow> (self, v)
      | None \<Rightarrow>
          if offset = 0x000 then read_dr G self
          else if offset = 0x004 then (self, 0)
          else if offset = 0x018 then (self, fr_value self)
          else if offset = 0x020 then (self, pl_ilpr self)
          else if offset = 0x024 then (self, pl_ibrd self)
          else if offset = 0x028 then (self, pl_fbrd self)
          else if offset = 0x02C then (self, pl_lcrh self)
          else if offset = 0x030 then (self, pl_cr self)
          else if offset = 0x034 then (self, pl_iflss self)
          else if offset = 0x038 then (self, pl_imsc self)
          else if offset = 0x03C then (self, pl_ris self)
          else if offset = 0x040 then (self, pl_ris self AND pl_imsc self)
          else if offset = 0x048 then (self, pl_dmacr self)
          else (self, 0))"

definition rx_asserted :: "('s, 'g) pl011 \<Rightarrow> bool" where
  "rx_asserted self \<longleftrightarrow> pl_imsc self AND pl_ris self AND INT_RX \<noteq> 0"

definition pl011_write_register ::
  "'g gic_ops \<Rightarrow> 's pl011_sink \<Rightarrow> ('s, 'g) pl011 \<Rightarrow> u64 \<Rightarrow> u32 \<Rightarrow> ('s, 'g) pl011" where
  "pl011_write_register G S self offset v =
     (if offset = 0x000 then write_dr S self v
      else if offset = 0x004 then self
      else if offset = 0x020 then self\<lparr>pl_ilpr := v\<rparr>
      else if offset = 0x024 then self\<lparr>pl_ibrd := v\<rparr>
      else if offset = 0x028 then self\<lparr>pl_fbrd := v\<rparr>
      else if offset = 0x02C then self\<lparr>pl_lcrh := v\<rparr>
      else if offset = 0x030 then self\<lparr>pl_cr := v\<rparr>
      else if offset = 0x034 then self\<lparr>pl_iflss := v\<rparr>
      else if offset = 0x038 then
        (let self = self\<lparr>pl_imsc := v\<rparr> in drive_line G self (rx_asserted self))
      else if offset = 0x044 then
        (let self = self\<lparr>pl_ris := pl_ris self AND NOT v\<rparr> in drive_line G self (rx_asserted self))
      else if offset = 0x048 then self\<lparr>pl_dmacr := v\<rparr>
      else self)"

definition pl011_read :: "'g gic_ops \<Rightarrow> ('s, 'g) pl011 \<Rightarrow> u64 \<Rightarrow> bytes \<Rightarrow> ('s, 'g) pl011 \<times> bytes" where
  "pl011_read G self offset data =
     (let (self, v) = pl011_read_register G self offset;
          bs = to_le_bytes 4 v
      in (self, map (\<lambda>i. if i < length bs then bs ! i else 0) [0..<length data]))"

definition pl011_write ::
  "'g gic_ops \<Rightarrow> 's pl011_sink \<Rightarrow> ('s, 'g) pl011 \<Rightarrow> u64 \<Rightarrow> bytes \<Rightarrow> ('s, 'g) pl011" where
  "pl011_write G S self offset data =
     (let n = min (length data) 8;
          buf = overwrite 0 (take n data) (replicate 8 0);
          v = from_le_bytes [buf ! 0, buf ! 1, buf ! 2, buf ! 3]
      in pl011_write_register G S self offset v)"

definition pl011_device :: "'g gic_ops \<Rightarrow> 's pl011_sink \<Rightarrow> ('s, 'g) pl011 bus_device_ops" where
  "pl011_device G S =
     \<lparr>busd_read = pl011_read G, busd_write = (\<lambda>self off data. Some (pl011_write G S self off data))\<rparr>"

interpretation pl011: bus_device "pl011_device G S" for G S
  by unfold_locales (simp add: pl011_device_def pl011_read_def split: prod.split)

subsection \<open>What the host and the guest can do\<close>

datatype pl011_event = HostByte u8 | GuestRead u64 bytes | GuestWrite u64 bytes

fun pl011_event_step :: "'g gic_ops \<Rightarrow> 's pl011_sink \<Rightarrow> ('s, 'g) pl011 \<Rightarrow> pl011_event \<Rightarrow> ('s, 'g) pl011" where
  "pl011_event_step G S s (HostByte b) = fst (push_rx G s b)"
| "pl011_event_step G S s (GuestRead off data) = fst (pl011_read G s off data)"
| "pl011_event_step G S s (GuestWrite off data) = pl011_write G S s off data"

definition pl011_run :: "'g gic_ops \<Rightarrow> 's pl011_sink \<Rightarrow> ('s, 'g) pl011 \<Rightarrow> pl011_event list \<Rightarrow> ('s, 'g) pl011" where
  "pl011_run G S = foldl (pl011_event_step G S)"

lemma pl011_run_simps [simp]:
  "pl011_run G S s [] = s"
  "pl011_run G S s (ev # evs) = pl011_run G S (pl011_event_step G S s ev) evs"
  by (simp_all add: pl011_run_def)

inductive pl011_reachable :: "'g gic_ops \<Rightarrow> 's pl011_sink \<Rightarrow> ('s, 'g) pl011 \<Rightarrow> ('s, 'g) pl011 \<Rightarrow> bool"
  for G S s0 where
  start: "pl011_reachable G S s0 s0"
| step: "pl011_reachable G S s0 s \<Longrightarrow> pl011_reachable G S s0 (pl011_event_step G S s ev)"

lemma pl011_reachable_run: "pl011_reachable G S s0 (pl011_run G S s0 evs)"
  by (induction evs rule: rev_induct) (auto simp: pl011_run_def intro: pl011_reachable.intros)

lemma drive_line_fields [simp]:
  "pl_rx_queue (drive_line G s v) = pl_rx_queue s" "pl_sink (drive_line G s v) = pl_sink s"
  "pl_imsc (drive_line G s v) = pl_imsc s" "pl_ris (drive_line G s v) = pl_ris s"
  "pl_intid (drive_line G s v) = pl_intid s" "rx_asserted (drive_line G s v) = rx_asserted s"
  by (simp_all add: drive_line_def rx_asserted_def)

lemma read_register_cases:
  "pl011_read_register G s off = read_dr G s \<and> off = 0 \<or>
   off \<noteq> 0 \<and> (\<exists>v. pl011_read_register G s off = (s, v))"
  by (auto simp: pl011_read_register_def PERIPH_PCELL_ID_def)

lemma fst_pl011_read: "fst (pl011_read G s off data) = (if off = 0 then fst (read_dr G s) else s)"
  using read_register_cases [of G s off] by (auto simp: pl011_read_def split: prod.split)

definition write_value :: "bytes \<Rightarrow> u32" where
  "write_value data = from_le_bytes (take 4 (data @ replicate 4 0))"

lemma pl011_write_eq: "pl011_write G S s off data = pl011_write_register G S s off (write_value data)"
proof -
  let ?buf = "overwrite 0 (take (min (length data) 8) data) (replicate 8 (0 :: u8))"
  have buf: "?buf ! i = (if i < length data then data ! i else 0)" if "i < 4" for i
    using that by (subst nth_overwrite) (simp_all add: min_def)
  have "[?buf ! 0, ?buf ! 1, ?buf ! 2, ?buf ! 3] = map (\<lambda>i. ?buf ! i) [0..<4]"
    by (simp add: upt_rec numeral_eq_Suc)
  also have "\<dots> = take 4 (data @ replicate 4 0)"
    by (rule nth_equalityI) (simp_all add: buf nth_append)
  finally have "[?buf ! 0, ?buf ! 1, ?buf ! 2, ?buf ! 3] = take 4 (data @ replicate 4 0)" .
  then show ?thesis unfolding pl011_write_def write_value_def Let_def by (simp only:)
qed

lemma write_register_io:
  "pl_rx_queue (pl011_write_register G S s off v) = pl_rx_queue s"
  "pl_sink (pl011_write_register G S s off v) = (if off = 0 then S (pl_sink s) (ucast v) else pl_sink s)"
  "pl_intid (pl011_write_register G S s off v) = pl_intid s"
  by (auto simp: pl011_write_register_def write_dr_def Let_def)

subsection \<open>The byte streams\<close>




lemma fr_value_empty: "fr_value s AND FR_RX_EMPTY = 0 \<longleftrightarrow> pl_rx_queue s \<noteq> []"
  by (simp add: fr_value_def pl011_consts)

lemma read_dr_io:
  "pl_rx_queue s = b # rest \<Longrightarrow> pl_rx_queue (fst (read_dr G s)) = rest \<and> snd (read_dr G s) = ucast b"
  "pl_rx_queue s = [] \<Longrightarrow> read_dr G s = (s, 0)"
  "pl_sink (fst (read_dr G s)) = pl_sink s" "pl_intid (fst (read_dr G s)) = pl_intid s"
  by (simp_all add: read_dr_def Let_def split: list.split)

lemma push_rx_io:
  "pl_rx_queue (fst (push_rx G s b)) = pl_rx_queue s @ [b]" "pl_sink (fst (push_rx G s b)) = pl_sink s"
  "pl_intid (fst (push_rx G s b)) = pl_intid s"
  by (simp_all add: push_rx_def Let_def)

lemma ucast_ucast_byte [simp]: "ucast (ucast (b :: u8) :: u32) = b"
  by (rule bit_word_eqI) (auto simp: bit_ucast_iff)




subsection \<open>The interrupt line\<close>

text \<open>
  What the serial port relies on in the GIC: a level it is asked for is taken, and belongs to
  that interrupt alone.
\<close>

definition line_inv :: "('g \<Rightarrow> int_id \<Rightarrow> bool) \<Rightarrow> ('s, 'g) pl011 \<Rightarrow> bool" where
  "line_inv level s \<longleftrightarrow> (level (pl_gic s) (pl_intid s) \<longleftrightarrow> rx_asserted s) \<and>
     (pl_ris s AND INT_RX \<noteq> 0 \<longrightarrow> pl_rx_queue s \<noteq> [])"

lemma line_inv_cong:
  "pl_rx_queue s' = pl_rx_queue s \<Longrightarrow> pl_imsc s' = pl_imsc s \<Longrightarrow> pl_ris s' = pl_ris s \<Longrightarrow>
   pl_gic s' = pl_gic s \<Longrightarrow> pl_intid s' = pl_intid s \<Longrightarrow> line_inv level s' \<longleftrightarrow> line_inv level s"
  by (simp add: line_inv_def rx_asserted_def)

lemma and_bit4: "(a AND INT_RX = 0) = (\<not> bit a 4)"
  using and_flag [of a 4] by (simp only: INT_RX_def) blast

lemma IMSC_RX_INT_RX: "IMSC_RX = INT_RX"
  by (simp only: IMSC_RX_def INT_RX_def)

lemma rx_asserted_bit: "rx_asserted s \<longleftrightarrow> bit (pl_imsc s) 4 \<and> bit (pl_ris s) 4"
  by (simp add: rx_asserted_def and.assoc [symmetric] and_bit4 bit_and_iff)

lemma bit_INT_RX [simp]: "bit INT_RX 4" "bit IMSC_RX 4"
  by (simp_all add: INT_RX_def IMSC_RX_def bit_push_bit_iff)

locale gic_lines =
  fixes G :: "'g gic_ops" and level :: "'g \<Rightarrow> int_id \<Rightarrow> bool"
  assumes set_level: "level (fst (gic_set_spi_level G g i v)) = (level g)(i := v)"
begin

lemma line_inv_drive:
  "line_inv level (drive_line G s v) \<longleftrightarrow>
     (v \<longleftrightarrow> rx_asserted s) \<and> (pl_ris s AND INT_RX \<noteq> 0 \<longrightarrow> pl_rx_queue s \<noteq> [])"
  by (simp add: line_inv_def) (simp add: drive_line_def set_level)

lemma line_inv_push: "line_inv level s \<Longrightarrow> line_inv level (fst (push_rx G s b))"
  by (auto simp: push_rx_def Let_def line_inv_drive)
    (auto simp: line_inv_def rx_asserted_bit IMSC_RX_INT_RX and_bit4 bit_or_iff)

lemma line_inv_read: "line_inv level s \<Longrightarrow> line_inv level (fst (read_dr G s))"
  by (auto simp: read_dr_def Let_def line_inv_drive and_bit4 rx_asserted_bit bit_simps split: list.split)
    (auto simp: line_inv_def rx_asserted_bit and_bit4)

lemma line_inv_write: "line_inv level s \<Longrightarrow> line_inv level (pl011_write_register G S s off v)"
  by (auto simp: pl011_write_register_def Let_def line_inv_drive write_dr_def)
    (auto simp: line_inv_def rx_asserted_def and_bit4 bit_simps)

lemma line_inv_step: "line_inv level s \<Longrightarrow> line_inv level (pl011_event_step G S s ev)"
  by (cases ev) (simp_all add: line_inv_push fst_pl011_read line_inv_read pl011_write_eq line_inv_write)

lemma line_inv_reachable:
  assumes "\<not> level g i" "pl011_reachable G S (pl011_new k g i) s"
  shows "line_inv level s \<and> pl_intid s = i"
proof -
  have "line_inv level (pl011_new k g i)"
    using assms(1) by (simp add: line_inv_def pl011_new_def rx_asserted_def)
  moreover have "pl_intid (pl011_event_step G S x ev) = pl_intid x" for x ev
    by (cases ev) (simp_all add: push_rx_io fst_pl011_read read_dr_io pl011_write_eq write_register_io)
  ultimately show ?thesis
    by (intro conjI pl011_reachable.induct [OF assms(2), of "line_inv level"]
        pl011_reachable.induct [OF assms(2), of "\<lambda>s. pl_intid s = i"])
      (auto simp: line_inv_step, simp add: pl011_new_def)
qed

end

text \<open>A GIC that records its calls keeps the level it was last asked for.\<close>

definition recorded_level :: "gic_event list \<Rightarrow> int_id \<Rightarrow> bool" where
  "recorded_level evs i =
     foldl (\<lambda>v ev. case ev of Level j w \<Rightarrow> if j = i then w else v | Pulse _ \<Rightarrow> v) False evs"

interpretation recording: gic_lines recording_gic recorded_level
  by unfold_locales (simp add: recording_gic_def recorded_level_def fun_eq_iff)

subsection \<open>Properties\<close>


text \<open>
  The interrupt line of the serial port, in every state that host input and guest accesses
  reach, over any GIC whose lines take the level they are given: it is high exactly when the
  receive interrupt is pending and unmasked, and then a byte is waiting (FR does not report an
  empty queue), so a driver woken by it finds data.
\<close>

theorem uart_line_level:
  assumes "gic_lines G level" "\<not> level g i" "pl011_reachable G S (pl011_new k g i) s"
  shows "(level (pl_gic s) i \<longleftrightarrow> bit (pl_imsc s) 4 \<and> bit (pl_ris s) 4) \<and>
    (level (pl_gic s) i \<longrightarrow> fr_value s AND FR_RX_EMPTY = 0)"
  using gic_lines.line_inv_reachable [OF assms]
  by (auto simp: line_inv_def rx_asserted_bit and_bit4 fr_value_empty)

theorem uart_line_level_witness:
  "let s = pl011_run recording_gic captured_sink (pl011_new [] [] (IntId 33)) [GuestWrite 0x38 [0x10], HostByte 65]
   in recorded_level (pl_gic s) (IntId 33) \<and> fr_value s AND FR_RX_EMPTY = 0"
proof -
  let ?s = "pl011_run recording_gic captured_sink (pl011_new [] [] (IntId 33)) [GuestWrite 0x38 [0x10], HostByte 65]"
  have "recorded_level (pl_gic ?s) (IntId 33)" by code_simp
  with uart_line_level [OF recording.gic_lines_axioms _ pl011_reachable_run,
      of "[]" "IntId 33" captured_sink "[]" "[GuestWrite 0x38 [0x10], HostByte 65]"]
  show ?thesis by (simp add: Let_def recorded_level_def)
qed

end
