(* ===== verification/Arch_Traps.thy ===== *)
theory Arch_Traps
  imports Squib_Prelude
begin

text \<open>
  What a vCPU exit means: the decoder of the exception syndrome
  (\<open>src/crates/arch/src/esr.rs\<close>) and the dispatch of PSCI calls (\<open>psci.rs\<close>).
\<close>

unbundle bit_operations_syntax

subsection \<open>Exception syndromes\<close>

definition EC_WFX :: u8 where "EC_WFX = 0x01"
definition EC_HVC :: u8 where "EC_HVC = 0x16"
definition EC_SMC :: u8 where "EC_SMC = 0x17"
definition EC_SYSTEM_REGISTER :: u8 where "EC_SYSTEM_REGISTER = 0x18"
definition EC_DATA_ABORT_LOWER_EL :: u8 where "EC_DATA_ABORT_LOWER_EL = 0x24"
definition EC_DATA_ABORT_SAME_EL :: u8 where "EC_DATA_ABORT_SAME_EL = 0x25"
definition EC_BRK_AARCH64 :: u8 where "EC_BRK_AARCH64 = 0x3C"

lemmas ec_defs =
  EC_WFX_def EC_HVC_def EC_SMC_def EC_SYSTEM_REGISTER_def EC_DATA_ABORT_LOWER_EL_def
  EC_DATA_ABORT_SAME_EL_def EC_BRK_AARCH64_def

datatype esr_decoded =
    DataAbort (da_is_write: bool) (da_sas: u8) (da_srt: u8) (da_sf: bool)
  | EsrHvc u16
  | EsrSmc u16
  | SystemRegister bool u8 u8 u8 u8 u8 u8
  | EsrWfi
  | EsrWfe
  | EsrBrk u16
  | EsrOther u8 u64

definition decode_data_abort :: "u64 \<Rightarrow> esr_decoded" where
  "decode_data_abort iss =
     (let is_write = (iss AND push_bit 6 1 \<noteq> 0);
          sas = ucast (drop_bit 22 iss AND 0x3);
          srt = ucast (drop_bit 16 iss AND 0x1F);
          sf = (iss AND push_bit 15 1 \<noteq> 0)
      in DataAbort is_write sas srt sf)"

text \<open>The arguments of \<open>SystemRegister\<close> are read, op0, op1, crn, crm, op2 and xt.\<close>

definition decode_system_register :: "u64 \<Rightarrow> esr_decoded" where
  "decode_system_register iss =
     (let op0 = ucast (drop_bit 20 iss AND 0x3);
          op2 = ucast (drop_bit 17 iss AND 0x7);
          op1 = ucast (drop_bit 14 iss AND 0x7);
          crn = ucast (drop_bit 10 iss AND 0xF);
          xt = ucast (drop_bit 5 iss AND 0x1F);
          crm = ucast (drop_bit 1 iss AND 0xF);
          read = (iss AND 0x1 = 1)
      in SystemRegister read op0 op1 crn crm op2 xt)"

definition decode_wfx :: "u64 \<Rightarrow> esr_decoded" where
  "decode_wfx iss = (if iss AND 0x1 = 1 then EsrWfe else EsrWfi)"

definition esr_decode :: "u64 \<Rightarrow> esr_decoded" where
  "esr_decode esr =
     (let ec = ucast (drop_bit 26 esr AND 0x3F);
          iss = esr AND 0x01FFFFFF
      in if ec = EC_DATA_ABORT_LOWER_EL \<or> ec = EC_DATA_ABORT_SAME_EL then decode_data_abort iss
         else if ec = EC_HVC then EsrHvc (ucast (iss AND 0xFFFF))
         else if ec = EC_SMC then EsrSmc (ucast (iss AND 0xFFFF))
         else if ec = EC_SYSTEM_REGISTER then decode_system_register iss
         else if ec = EC_WFX then decode_wfx iss
         else if ec = EC_BRK_AARCH64 then EsrBrk (ucast (iss AND 0xFFFF))
         else EsrOther ec esr)"

subsection \<open>PSCI\<close>

definition PSCI_VERSION :: u32 where "PSCI_VERSION = 0x84000000"
definition CPU_OFF :: u32 where "CPU_OFF = 0x84000002"
definition CPU_ON :: u32 where "CPU_ON = 0xC4000003"
definition AFFINITY_INFO :: u32 where "AFFINITY_INFO = 0xC4000004"
definition MIGRATE_INFO_TYPE :: u32 where "MIGRATE_INFO_TYPE = 0x84000006"
definition SYSTEM_OFF :: u32 where "SYSTEM_OFF = 0x84000008"
definition SYSTEM_RESET :: u32 where "SYSTEM_RESET = 0x84000009"
definition PSCI_FEATURES :: u32 where "PSCI_FEATURES = 0x8400000A"
definition CPU_SUSPEND :: u32 where "CPU_SUSPEND = 0xC4000001"
definition MIGRATE :: u32 where "MIGRATE = 0xC4000005"

lemmas psci_fn_defs =
  PSCI_VERSION_def CPU_OFF_def CPU_ON_def AFFINITY_INFO_def MIGRATE_INFO_TYPE_def SYSTEM_OFF_def
  SYSTEM_RESET_def PSCI_FEATURES_def CPU_SUSPEND_def MIGRATE_def

definition PSCI_RET_SUCCESS :: int where "PSCI_RET_SUCCESS = 0"
definition PSCI_RET_NOT_SUPPORTED :: int where "PSCI_RET_NOT_SUPPORTED = -1"
definition PSCI_RET_INVALID_PARAMETERS :: int where "PSCI_RET_INVALID_PARAMETERS = -2"
definition PSCI_VERSION_VALUE :: u32 where "PSCI_VERSION_VALUE = 0x00010001"

datatype psci_return = PsciSuccess | PsciNotSupported | PsciInvalidParameters | PsciWord u32

text \<open>An \<open>i32\<close> cast to \<open>u64\<close> is sign-extended.\<close>

fun as_x0 :: "psci_return \<Rightarrow> u64" where
  "as_x0 PsciSuccess = word_of_int PSCI_RET_SUCCESS"
| "as_x0 PsciNotSupported = word_of_int PSCI_RET_NOT_SUPPORTED"
| "as_x0 PsciInvalidParameters = word_of_int PSCI_RET_INVALID_PARAMETERS"
| "as_x0 (PsciWord w) = ucast w"

datatype psci_outcome =
    PsciReturn psci_return
  | ParkCallerCpuOff
  | BringUpSecondary u64 u64 u64
  | QueryAffinityInfo u64 u32
  | PsciSystemOff
  | PsciSystemReset

definition psci_dispatch :: "u32 \<Rightarrow> u64 \<times> u64 \<times> u64 \<Rightarrow> psci_outcome" where
  "psci_dispatch func_id args =
     (case args of (a0, a1, a2) \<Rightarrow>
        if func_id = PSCI_VERSION then PsciReturn (PsciWord PSCI_VERSION_VALUE)
        else if func_id = CPU_OFF then ParkCallerCpuOff
        else if func_id = CPU_ON then BringUpSecondary a0 a1 a2
        else if func_id = AFFINITY_INFO then QueryAffinityInfo a0 (ucast a1)
        else if func_id = MIGRATE_INFO_TYPE then PsciReturn (PsciWord 2)
        else if func_id = SYSTEM_OFF then PsciSystemOff
        else if func_id = SYSTEM_RESET then PsciSystemReset
        else if func_id = PSCI_FEATURES then
          (let queried = ucast a0
           in if queried \<in> {PSCI_VERSION, CPU_OFF, CPU_ON, AFFINITY_INFO, MIGRATE_INFO_TYPE,
                             SYSTEM_OFF, SYSTEM_RESET, PSCI_FEATURES}
              then PsciReturn PsciSuccess
              else PsciReturn PsciNotSupported)
        else PsciReturn PsciNotSupported)"

subsection \<open>Properties\<close>

text \<open>The syndrome the architecture manual defines for each decoded trap, with the valid bit (ISV) set.\<close>

abbreviation field :: "nat \<Rightarrow> nat \<Rightarrow> 'a::len word \<Rightarrow> u64" where
  "field lo n w \<equiv> push_bit lo (take_bit n (ucast w))"

abbreviation flag :: "nat \<Rightarrow> bool \<Rightarrow> u64" where
  "flag lo b \<equiv> push_bit lo (of_bool b)"

fun encode_esr :: "esr_decoded \<Rightarrow> u64" where
  "encode_esr (DataAbort w sas srt sf) =
     field 26 6 EC_DATA_ABORT_LOWER_EL OR flag 24 True OR field 22 2 sas OR field 16 5 srt OR flag 15 sf OR flag 6 w"
| "encode_esr (EsrHvc imm) = field 26 6 EC_HVC OR field 0 16 imm"
| "encode_esr (EsrSmc imm) = field 26 6 EC_SMC OR field 0 16 imm"
| "encode_esr (SystemRegister rd op0 op1 crn crm op2 xt) =
     field 26 6 EC_SYSTEM_REGISTER OR field 20 2 op0 OR field 17 3 op2 OR field 14 3 op1 OR
     field 10 4 crn OR field 5 5 xt OR field 1 4 crm OR flag 0 rd"
| "encode_esr EsrWfi = field 26 6 EC_WFX"
| "encode_esr EsrWfe = field 26 6 EC_WFX OR flag 0 True"
| "encode_esr (EsrBrk imm) = field 26 6 EC_BRK_AARCH64 OR field 0 16 imm"
| "encode_esr (EsrOther ec raw) = raw"

fun esr_fields_ok :: "esr_decoded \<Rightarrow> bool" where
  "esr_fields_ok (DataAbort w sas srt sf) \<longleftrightarrow> sas < 4 \<and> srt < 32"
| "esr_fields_ok (SystemRegister rd op0 op1 crn crm op2 xt) \<longleftrightarrow>
     op0 < 4 \<and> op1 < 8 \<and> crn < 16 \<and> crm < 16 \<and> op2 < 8 \<and> xt < 32"
| "esr_fields_ok (EsrOther ec raw) \<longleftrightarrow> ec = ucast (drop_bit 26 raw AND 0x3F) \<and>
     ec \<notin> {EC_DATA_ABORT_LOWER_EL, EC_DATA_ABORT_SAME_EL, EC_HVC, EC_SMC, EC_SYSTEM_REGISTER, EC_WFX, EC_BRK_AARCH64}"
| "esr_fields_ok _ \<longleftrightarrow> True"

lemma and_masks:
  "x AND 0x1 = take_bit 1 x" "x AND 0x3 = take_bit 2 x" "x AND 0x7 = take_bit 3 x" "x AND 0xF = take_bit 4 x"
  "x AND 0x1F = take_bit 5 x" "x AND 0x3F = take_bit 6 x" "x AND 0xFFFF = take_bit 16 x"
  "x AND 0x01FFFFFF = take_bit 25 x" for x :: u64
  by (simp_all add: take_bit_eq_mask mask_eq_exp_minus_1)

lemma bit_small:
  assumes "(w :: 'a::len word) < 2 ^ n" "n < LENGTH('a)" "n \<le> k"
  shows "\<not> bit w k"
proof
  assume k: "bit w k"
  have "unat w < 2 ^ n" using assms(1,2) by (simp add: word_less_nat_alt unat_two_power)
  also have "\<dots> \<le> 2 ^ k" using assms(3) by (rule power_increasing) simp
  finally have "\<not> bit (unat w) k" by (simp add: bit_iff_odd)
  with k show False by (simp add: bit_unsigned_iff)
qed

lemma bit_small_less: "bit (w :: 'a::len word) k \<Longrightarrow> w < 2 ^ n \<Longrightarrow> n < LENGTH('a) \<Longrightarrow> k < n"
  using bit_small [of w n k] by (meson not_less)

lemma esr_class:
  assumes "c < 64" "\<And>k. bit r k \<Longrightarrow> k < 25"
  shows "ucast (drop_bit 26 (field 26 6 c OR r) AND 0x3F) = (c :: u8)"
    "(field 26 6 c OR r) AND 0x01FFFFFF = r"
proof -
  have "c < 2 ^ 6" using assms(1) by simp
  then have c: "k < 6" if "bit c k" for k using bit_small_less [OF that] by simp
  show "ucast (drop_bit 26 (field 26 6 c OR r) AND 0x3F) = c"
    unfolding and_masks by (rule bit_word_eqI) (use c assms(2) in \<open>auto simp: bit_simps dest!: assms(2)\<close>)
  show "(field 26 6 c OR r) AND 0x01FFFFFF = r"
    unfolding and_masks by (rule bit_word_eqI) (auto simp: bit_simps dest: assms(2))
qed

lemma esr_field:
  assumes "w < 2 ^ n" "n < LENGTH('a)" "LENGTH('a) \<le> 64" and "\<And>k. k < n \<Longrightarrow> bit r (lo + k) \<longleftrightarrow> bit w k"
  shows "ucast (take_bit n (drop_bit lo (r :: u64))) = (w :: 'a::len word)"
  using bit_small_less [OF _ assms(1,2)] assms(2-4)
  by (intro bit_word_eqI) (auto simp: bit_simps)

lemma esr_ucast_field:
  assumes "LENGTH('a) \<le> 64"
  shows "ucast (take_bit LENGTH('a) (ucast w :: u64)) = (w :: 'a::len word)"
  by (rule bit_word_eqI) (use assms in \<open>auto simp: bit_simps\<close>)

lemma esr_decode_class:
  assumes "c < 64" "\<And>k. bit r k \<Longrightarrow> k < 25"
  shows "esr_decode (field 26 6 c OR r) =
    (if c = EC_DATA_ABORT_LOWER_EL \<or> c = EC_DATA_ABORT_SAME_EL then decode_data_abort r
     else if c = EC_HVC then EsrHvc (ucast (take_bit 16 r))
     else if c = EC_SMC then EsrSmc (ucast (take_bit 16 r))
     else if c = EC_SYSTEM_REGISTER then decode_system_register r
     else if c = EC_WFX then decode_wfx r
     else if c = EC_BRK_AARCH64 then EsrBrk (ucast (take_bit 16 r))
     else EsrOther c (field 26 6 c OR r))"
  unfolding esr_decode_def Let_def and_masks(7) [symmetric]
  by (simp only: esr_class(1) [OF assms] esr_class(2) [OF assms])

lemma and_one: "x AND 0x1 = 1 \<longleftrightarrow> bit x 0" for x :: u64
  by (simp add: bit_0 odd_iff_mod_2_eq_one and_one_eq)

lemma decode_encode_data_abort:
  assumes "sas < 4" "srt < 32"
  shows "esr_decode (encode_esr (DataAbort w sas srt sf)) = DataAbort w sas srt sf"
proof -
  define v where "v = True"
  let ?r = "flag 24 v OR field 22 2 sas OR field 16 5 srt OR flag 15 sf OR flag 6 w"
  have r: "k < 25" if "bit ?r k" for k using that by (auto simp: bit_simps)
  have "ucast (take_bit 2 (drop_bit 22 ?r)) = sas"
    by (rule esr_field) (use assms in \<open>auto simp: bit_simps\<close>)
  moreover have "ucast (take_bit 5 (drop_bit 16 ?r)) = srt"
    by (rule esr_field) (use assms in \<open>auto simp: bit_simps\<close>)
  moreover have "bit ?r 6 = w" "bit ?r 15 = sf" by (simp_all add: bit_simps)
  ultimately have "decode_data_abort ?r = DataAbort w sas srt sf"
    unfolding decode_data_abort_def and_masks Let_def and_flag by (simp only:)
  moreover have "esr_decode (field 26 6 EC_DATA_ABORT_LOWER_EL OR ?r) = decode_data_abort ?r"
    by (subst esr_decode_class [OF _ r]) (simp_all add: ec_defs)
  ultimately show ?thesis by (simp only: encode_esr.simps v_def [symmetric])
qed

lemma decode_encode_system_register:
  assumes "esr_fields_ok (SystemRegister rd op0 op1 crn crm op2 xt)"
  shows "esr_decode (encode_esr (SystemRegister rd op0 op1 crn crm op2 xt)) =
    SystemRegister rd op0 op1 crn crm op2 xt"
proof -
  have double: "bit (x * 2) k \<longleftrightarrow> 0 < k \<and> k < 64 \<and> bit x (k - 1)" for x :: u64 and k
    using bit_double_iff [of x k] by (auto simp: mult.commute dest: bit_imp_le_length)
  let ?r = "field 20 2 op0 OR field 17 3 op2 OR field 14 3 op1 OR field 10 4 crn OR field 5 5 xt OR field 1 4 crm OR flag 0 rd"
  have r: "k < 25" if "bit ?r k" for k using that by (auto simp: bit_simps double)
  have "ucast (take_bit 2 (drop_bit 20 ?r)) = op0"
    by (rule esr_field) (use assms in \<open>auto simp: bit_simps double\<close>)
  moreover have "ucast (take_bit 3 (drop_bit 17 ?r)) = op2"
    by (rule esr_field) (use assms in \<open>auto simp: bit_simps double\<close>)
  moreover have "ucast (take_bit 3 (drop_bit 14 ?r)) = op1"
    by (rule esr_field) (use assms in \<open>auto simp: bit_simps double\<close>)
  moreover have "ucast (take_bit 4 (drop_bit 10 ?r)) = crn"
    by (rule esr_field) (use assms in \<open>auto simp: bit_simps double\<close>)
  moreover have "ucast (take_bit 5 (drop_bit 5 ?r)) = xt"
    by (rule esr_field) (use assms in \<open>auto simp: bit_simps double\<close>)
  moreover have "ucast (take_bit 4 (drop_bit 1 ?r)) = crm"
    by (rule esr_field) (use assms in \<open>auto simp: bit_simps double\<close>)
  moreover have "bit ?r 0 = rd" by (simp add: bit_simps double)
  ultimately have "decode_system_register ?r = SystemRegister rd op0 op1 crn crm op2 xt"
    unfolding decode_system_register_def and_one and_masks(2-8) Let_def by (simp only:)
  moreover have "esr_decode (field 26 6 EC_SYSTEM_REGISTER OR ?r) = decode_system_register ?r"
    by (subst esr_decode_class [OF _ r]) (simp_all add: ec_defs)
  ultimately show ?thesis by (simp only: encode_esr.simps)
qed

lemma decode_encode_imm:
  "esr_decode (encode_esr (EsrHvc imm)) = EsrHvc imm"
  "esr_decode (encode_esr (EsrSmc imm)) = EsrSmc imm"
  "esr_decode (encode_esr (EsrBrk imm)) = EsrBrk imm"
proof -
  let ?r = "field 0 16 imm"
  have r: "k < 25" if "bit ?r k" for k using that by (auto simp: bit_simps)
  have "ucast (take_bit 16 ?r) = imm"
    by (rule bit_word_eqI) (auto simp: bit_simps)
  then show "esr_decode (encode_esr (EsrHvc imm)) = EsrHvc imm"
    "esr_decode (encode_esr (EsrSmc imm)) = EsrSmc imm"
    "esr_decode (encode_esr (EsrBrk imm)) = EsrBrk imm"
    unfolding encode_esr.simps by (subst esr_decode_class [OF _ r]; simp add: ec_defs)+
qed

lemma decode_encode_wfx:
  "esr_decode (encode_esr EsrWfi) = EsrWfi" "esr_decode (encode_esr EsrWfe) = EsrWfe"
  by code_simp+

text \<open>
  The decoder of exception syndromes inverts the architecture's encoding: every data abort,
  HVC, SMC, trapped system-register access, WFI, WFE and BRK, with any access size, register
  and immediate, is decoded from its syndrome to exactly those fields, and every other
  exception class is reported with its raw value.
\<close>

theorem esr_roundtrip:
  assumes "esr_fields_ok d"
  shows "esr_decode (encode_esr d) = d"
proof (cases d)
  case (EsrOther ec raw)
  have ec: "ucast (drop_bit 26 raw AND 0x3F) = ec"
    and ne: "ec \<notin> {EC_DATA_ABORT_LOWER_EL, EC_DATA_ABORT_SAME_EL, EC_HVC, EC_SMC, EC_SYSTEM_REGISTER, EC_WFX, EC_BRK_AARCH64}"
    using assms [unfolded EsrOther esr_fields_ok.simps] by blast+
  show ?thesis unfolding EsrOther encode_esr.simps esr_decode_def Let_def ec using ne by simp
qed (use assms in \<open>simp_all only: decode_encode_imm decode_encode_wfx decode_encode_system_register
      decode_encode_data_abort esr_fields_ok.simps\<close>)

theorem esr_roundtrip_witness:
  "esr_decode (encode_esr (DataAbort True 2 31 False)) = DataAbort True 2 31 False \<and>
   encode_esr (DataAbort True 2 31 False) = 0x919F0040"
proof
  show "esr_decode (encode_esr (DataAbort True 2 31 False)) = DataAbort True 2 31 False"
    by (rule esr_roundtrip) simp
  show "encode_esr (DataAbort True 2 31 False) = 0x919F0040" by code_simp
qed

text \<open>
  PSCI is self-consistent: PSCI_FEATURES reports a function as supported exactly when a call
  of that function can have an outcome other than NOT_SUPPORTED; the answer to a function that
  is not is the all-ones word in X0, whatever its arguments.
\<close>

theorem psci_features_consistent:
  "(psci_dispatch PSCI_FEATURES (ucast f, b, c) = PsciReturn PsciSuccess \<longleftrightarrow>
     (\<exists>args. psci_dispatch f args \<noteq> PsciReturn PsciNotSupported)) \<and>
   (psci_dispatch PSCI_FEATURES (ucast f, b, c) \<noteq> PsciReturn PsciSuccess \<longrightarrow>
     (\<forall>args. \<exists>r. psci_dispatch f args = PsciReturn r \<and> as_x0 r = 0xFFFFFFFFFFFFFFFF))"
proof -
  have u: "ucast (ucast f :: u64) = f" by (rule bit_word_eqI) (auto simp: bit_simps)
  have "\<exists>args. psci_dispatch PSCI_FEATURES args \<noteq> PsciReturn PsciNotSupported"
    by (rule exI [of _ "(0x84000000, 0, 0)"]) code_simp
  then show ?thesis
    by (auto simp: psci_dispatch_def psci_fn_defs u PSCI_RET_NOT_SUPPORTED_def split: prod.splits)
qed

theorem psci_features_consistent_witness:
  "psci_dispatch PSCI_FEATURES (ucast CPU_SUSPEND, 0, 0) \<noteq> PsciReturn PsciSuccess \<and>
   (\<exists>r. psci_dispatch CPU_SUSPEND (1, 2, 3) = PsciReturn r \<and> as_x0 r = 0xFFFFFFFFFFFFFFFF)"
proof -
  have "psci_dispatch PSCI_FEATURES (ucast CPU_SUSPEND, 0, 0) \<noteq> PsciReturn PsciSuccess" by code_simp
  then show ?thesis using psci_features_consistent [of CPU_SUSPEND 0 0] by blast
qed

end
