(* ===== verification/Arch_Sysregs.thy ===== *)
theory Arch_Sysregs
  imports Squib_Prelude
begin

text \<open>
  The curated system registers with their snapshot encoding, and the boot registers:
  \<open>src/crates/arch/src/sysregs.rs\<close> and \<open>regs.rs\<close>.
\<close>

subsection \<open>System registers\<close>

datatype sys_reg =
    SctlrEl1 | Ttbr0El1 | Ttbr1El1 | MairEl1 | AmairEl1 | TcrEl1 | SysSpEl1 | ElrEl1 |
    SpsrEl1 | VbarEl1 | IdAa64Mmfr0El1 | IdAa64Mmfr1El1 | IdAa64Pfr0El1 | IdAa64Pfr1El1 |
    IdAa64Dfr0El1 | IdAa64Isar0El1 | IdAa64Isar1El1 | MpidrEl1 | CntvCtlEl0 | CntvCvalEl0 |
    CntvOffEl2 | CntFrqEl0 | CntKctlEl1 | CntpCtlEl0 | CntpCvalEl0 | PmCcntrEl0 |
    PmCcfiltrEl0 | PmUserEnrEl0 | PmCrEl0 | PmCntEnSetEl0 | PmOvsSetEl0 | PmSelrEl0 | EsrEl1 |
    FarEl1 | Afsr0El1 | Afsr1El1 | ContextIdrEl1 | TpidrEl0 | TpidrroEl0 | TpidrEl1 | ParEl1 |
    Fpcr | Fpsr | CpacrEl1 | MdscrEl1 | OslarEl1 | OsdlrEl1

fun as_encoded :: "sys_reg \<Rightarrow> u64" where
  "as_encoded SctlrEl1 = 1"
| "as_encoded Ttbr0El1 = 2"
| "as_encoded Ttbr1El1 = 3"
| "as_encoded MairEl1 = 4"
| "as_encoded AmairEl1 = 5"
| "as_encoded TcrEl1 = 6"
| "as_encoded SysSpEl1 = 7"
| "as_encoded ElrEl1 = 8"
| "as_encoded SpsrEl1 = 9"
| "as_encoded VbarEl1 = 10"
| "as_encoded IdAa64Mmfr0El1 = 11"
| "as_encoded IdAa64Mmfr1El1 = 12"
| "as_encoded IdAa64Pfr0El1 = 13"
| "as_encoded IdAa64Pfr1El1 = 14"
| "as_encoded IdAa64Dfr0El1 = 15"
| "as_encoded IdAa64Isar0El1 = 16"
| "as_encoded IdAa64Isar1El1 = 17"
| "as_encoded MpidrEl1 = 18"
| "as_encoded CntvCtlEl0 = 19"
| "as_encoded CntvCvalEl0 = 20"
| "as_encoded CntvOffEl2 = 21"
| "as_encoded CntFrqEl0 = 22"
| "as_encoded CntKctlEl1 = 23"
| "as_encoded CntpCtlEl0 = 24"
| "as_encoded CntpCvalEl0 = 25"
| "as_encoded PmCcntrEl0 = 26"
| "as_encoded PmCcfiltrEl0 = 27"
| "as_encoded PmUserEnrEl0 = 28"
| "as_encoded PmCrEl0 = 29"
| "as_encoded PmCntEnSetEl0 = 30"
| "as_encoded PmOvsSetEl0 = 31"
| "as_encoded PmSelrEl0 = 32"
| "as_encoded EsrEl1 = 33"
| "as_encoded FarEl1 = 34"
| "as_encoded Afsr0El1 = 35"
| "as_encoded Afsr1El1 = 36"
| "as_encoded ContextIdrEl1 = 37"
| "as_encoded TpidrEl0 = 38"
| "as_encoded TpidrroEl0 = 39"
| "as_encoded TpidrEl1 = 40"
| "as_encoded ParEl1 = 41"
| "as_encoded Fpcr = 42"
| "as_encoded Fpsr = 43"
| "as_encoded CpacrEl1 = 44"
| "as_encoded MdscrEl1 = 45"
| "as_encoded OslarEl1 = 46"
| "as_encoded OsdlrEl1 = 47"

definition from_encoded :: "u64 \<Rightarrow> sys_reg option" where
  "from_encoded key =
     (if key = 1 then Some SctlrEl1
      else if key = 2 then Some Ttbr0El1
      else if key = 3 then Some Ttbr1El1
      else if key = 4 then Some MairEl1
      else if key = 5 then Some AmairEl1
      else if key = 6 then Some TcrEl1
      else if key = 7 then Some SysSpEl1
      else if key = 8 then Some ElrEl1
      else if key = 9 then Some SpsrEl1
      else if key = 10 then Some VbarEl1
      else if key = 11 then Some IdAa64Mmfr0El1
      else if key = 12 then Some IdAa64Mmfr1El1
      else if key = 13 then Some IdAa64Pfr0El1
      else if key = 14 then Some IdAa64Pfr1El1
      else if key = 15 then Some IdAa64Dfr0El1
      else if key = 16 then Some IdAa64Isar0El1
      else if key = 17 then Some IdAa64Isar1El1
      else if key = 18 then Some MpidrEl1
      else if key = 19 then Some CntvCtlEl0
      else if key = 20 then Some CntvCvalEl0
      else if key = 21 then Some CntvOffEl2
      else if key = 22 then Some CntFrqEl0
      else if key = 23 then Some CntKctlEl1
      else if key = 24 then Some CntpCtlEl0
      else if key = 25 then Some CntpCvalEl0
      else if key = 26 then Some PmCcntrEl0
      else if key = 27 then Some PmCcfiltrEl0
      else if key = 28 then Some PmUserEnrEl0
      else if key = 29 then Some PmCrEl0
      else if key = 30 then Some PmCntEnSetEl0
      else if key = 31 then Some PmOvsSetEl0
      else if key = 32 then Some PmSelrEl0
      else if key = 33 then Some EsrEl1
      else if key = 34 then Some FarEl1
      else if key = 35 then Some Afsr0El1
      else if key = 36 then Some Afsr1El1
      else if key = 37 then Some ContextIdrEl1
      else if key = 38 then Some TpidrEl0
      else if key = 39 then Some TpidrroEl0
      else if key = 40 then Some TpidrEl1
      else if key = 41 then Some ParEl1
      else if key = 42 then Some Fpcr
      else if key = 43 then Some Fpsr
      else if key = 44 then Some CpacrEl1
      else if key = 45 then Some MdscrEl1
      else if key = 46 then Some OslarEl1
      else if key = 47 then Some OsdlrEl1
      else None)"

definition all_sys_regs :: "sys_reg list" where
  "all_sys_regs =
     [SctlrEl1, Ttbr0El1, Ttbr1El1, MairEl1, AmairEl1, TcrEl1, SysSpEl1, ElrEl1, SpsrEl1,
      VbarEl1, IdAa64Mmfr0El1, IdAa64Mmfr1El1, IdAa64Pfr0El1, IdAa64Pfr1El1, IdAa64Dfr0El1,
      IdAa64Isar0El1, IdAa64Isar1El1, MpidrEl1, CntvCtlEl0, CntvCvalEl0, CntvOffEl2, CntFrqEl0,
      CntKctlEl1, CntpCtlEl0, CntpCvalEl0, PmCcntrEl0, PmCcfiltrEl0, PmUserEnrEl0, PmCrEl0,
      PmCntEnSetEl0, PmOvsSetEl0, PmSelrEl0, EsrEl1, FarEl1, Afsr0El1, Afsr1El1, ContextIdrEl1,
      TpidrEl0, TpidrroEl0, TpidrEl1, ParEl1, Fpcr, Fpsr, CpacrEl1, MdscrEl1, OslarEl1,
      OsdlrEl1]"

lemma from_as_encoded: "from_encoded (as_encoded r) = Some r"
  by (cases r) (simp_all add: from_encoded_def)

lemma from_encoded_Some: "from_encoded k = Some r \<Longrightarrow> as_encoded r = k"
  by (auto simp: from_encoded_def split: if_splits)

lemma all_sys_regs_complete: "set all_sys_regs = UNIV"
proof -
  have "r \<in> set all_sys_regs" for r by (cases r) (simp_all add: all_sys_regs_def)
  then show ?thesis by blast
qed

lemma distinct_encodings: "distinct (map as_encoded all_sys_regs)"
  by (simp add: all_sys_regs_def)

lemma as_encoded_inj: "as_encoded r = as_encoded s \<longleftrightarrow> r = s"
  by (metis from_as_encoded option.inject)

subsection \<open>Boot registers\<close>

definition BOOT_PSTATE :: u64 where "BOOT_PSTATE = 0x3C5"

datatype reg = RegX u8 | RegSpEl1 | RegPc | RegPState

definition reg_x :: "u8 \<Rightarrow> reg option" where
  "reg_x index = (if index \<le> 30 then Some (RegX index) else None)"

record boot_regs =
  br_kernel_load_addr :: u64
  br_fdt_addr :: u64
  br_pstate :: u64

definition boot_regs_new :: "u64 \<Rightarrow> u64 \<Rightarrow> boot_regs" where
  "boot_regs_new kernel_load_addr fdt_addr =
     \<lparr>br_kernel_load_addr = kernel_load_addr, br_fdt_addr = fdt_addr, br_pstate = BOOT_PSTATE\<rparr>"

end
