(* ===== verification/Snapshot_State.thy ===== *)
theory Snapshot_State
  imports Arch_Sysregs "HOL-Library.Char_ord" "HOL-Library.List_Lexorder" "HOL-Library.Product_Lexorder"
begin

text \<open>
  The state blob of a snapshot, \<open>src/crates/snapshot/src/state.rs\<close>, its error type
  (\<open>error.rs\<close>) and the capture and restore of one vCPU (\<open>vcpu_save.rs\<close>). The host side of
  a vCPU is a dictionary of the traits \<open>VcpuSnapshotSource\<close> and \<open>VcpuRestoreTarget\<close>; a
  \<open>BTreeMap<u64, u64>\<close> is a map, iterated in increasing order of its keys. Error messages and
  operating-system error codes are dropped.
\<close>

subsection \<open>Errors\<close>

type_synonym path = string

record version =
  v_major :: u64
  v_minor :: u64
  v_patch :: u64

datatype snapshot_error =
    QuiesceTimeout
  | MagicMismatch u64 u64
  | VersionMismatch version version
  | CrcMismatch
  | TooShort
  | Incompatible
  | AtomicCommitFailed
  | AtomicCommitCrossFs path path
  | InvalidPath
  | BitcodeError
  | SizeLimitExceeded nat
  | MemoryIo
  | SnapshotIo
  | CaptureFailed

subsection \<open>The state blob\<close>

record gp_regs =
  gp_x :: "u64 list"
  gp_sp :: u64
  gp_pc :: u64
  gp_pstate :: u64

record fp_simd_regs =
  fp_v :: "(u64 \<times> u64) list"
  fp_fpsr :: u64
  fp_fpcr :: u64

definition gp_regs_default :: gp_regs where
  "gp_regs_default = \<lparr>gp_x = replicate 31 0, gp_sp = 0, gp_pc = 0, gp_pstate = 0\<rparr>"

definition fp_simd_default :: fp_simd_regs where
  "fp_simd_default = \<lparr>fp_v = replicate 32 (0, 0), fp_fpsr = 0, fp_fpcr = 0\<rparr>"

datatype psci_vcpu_state = VcpuOn | VcpuOff | VcpuOnPending

record vcpu_state =
  vs_mpidr :: u64
  vs_regs :: gp_regs
  vs_fp_regs :: fp_simd_regs
  vs_sys_regs :: "(u64 \<times> u64) list"
  vs_psci_state :: psci_vcpu_state

definition vcpu_state_new :: "u64 \<Rightarrow> vcpu_state" where
  "vcpu_state_new mpidr =
     \<lparr>vs_mpidr = mpidr, vs_regs = gp_regs_default, vs_fp_regs = fp_simd_default,
      vs_sys_regs = [], vs_psci_state = VcpuOff\<rparr>"

record gic_state =
  gs_len :: u64
  gs_bytes :: bytes

definition gic_state_from_bytes :: "bytes \<Rightarrow> gic_state" where
  "gic_state_from_bytes bs = \<lparr>gs_len = try_from_nat_or_max (length bs), gs_bytes = bs\<rparr>"

record mmds_state =
  mst_data_json :: string
  mst_token_ttl_seconds :: "u32 option"

record vm_info =
  vi_mem_size_mib :: u64
  vi_smt :: bool
  vi_cpu_template :: string
  vi_kernel_image_path :: string
  vi_initrd_path :: "string option"
  vi_boot_args :: string
  vi_track_dirty_pages :: bool

record device_state =
  ds_kind :: string
  ds_id :: string
  ds_mmio_slot :: u32
  ds_blob :: bytes

text \<open>\<open>sort_by\<close> is a stable sort by slot, then identifier.\<close>

definition from_devices :: "device_state list \<Rightarrow> device_state list" where
  "from_devices devices = sort_key (\<lambda>d. (ds_mmio_slot d, ds_id d)) devices"

record microvm_state =
  mv_vm_info :: vm_info
  mv_vcpu_states :: "vcpu_state list"
  mv_device_states :: "device_state list"
  mv_gic_state :: gic_state
  mv_mmds_state :: "mmds_state option"

definition verify_compatible :: "microvm_state \<Rightarrow> snapshot_error + unit" where
  "verify_compatible self =
     (if mv_vcpu_states self = [] \<or> length (mv_vcpu_states self) > 32 then Inl Incompatible
      else if vi_smt (mv_vm_info self) then Inl Incompatible
      else if gs_bytes (mv_gic_state self) = [] then Inl Incompatible
      else if unat (gs_len (mv_gic_state self)) \<noteq> length (gs_bytes (mv_gic_state self)) then Inl Incompatible
      else Inr ())"

subsection \<open>Capture and restore of a vCPU\<close>


record 't vcpu_target =
  tgt_write_gp_regs :: "'t \<Rightarrow> gp_regs \<Rightarrow> 't \<times> (snapshot_error + unit)"
  tgt_write_fp_simd :: "'t \<Rightarrow> fp_simd_regs \<Rightarrow> 't \<times> (snapshot_error + unit)"
  tgt_write_sys_reg :: "'t \<Rightarrow> sys_reg \<Rightarrow> u64 \<Rightarrow> 't \<times> (snapshot_error + unit)"
  tgt_set_psci_state :: "'t \<Rightarrow> psci_vcpu_state \<Rightarrow> 't \<times> (snapshot_error + unit)"





fun restore_sys_regs ::
  "'t vcpu_target \<Rightarrow> 't \<Rightarrow> (u64 \<times> u64) list \<Rightarrow> 't \<times> (snapshot_error + unit)" where
  "restore_sys_regs T t [] = (t, Inr ())"
| "restore_sys_regs T t ((encoded, v) # m) =
     (case from_encoded encoded of
        None \<Rightarrow> (t, Inl Incompatible)
      | Some reg \<Rightarrow>
          (case tgt_write_sys_reg T t reg v of
             (t, Inl e) \<Rightarrow> (t, Inl e)
           | (t, Inr _) \<Rightarrow> restore_sys_regs T t m))"


subsection \<open>Sorted maps\<close>





subsection \<open>The contract of a restore target\<close>

text \<open>
  What restore relies on: the target has a general-purpose file, a vector file, system
  registers and a PSCI state, and a successful write sets exactly its own part.
\<close>

locale vcpu_registers =
  fixes T :: "'t vcpu_target" and gp :: "'t \<Rightarrow> gp_regs" and fp :: "'t \<Rightarrow> fp_simd_regs"
    and sys :: "'t \<Rightarrow> sys_reg \<Rightarrow> u64" and psci :: "'t \<Rightarrow> psci_vcpu_state"
  assumes write_gp: "tgt_write_gp_regs T t r = (t', Inr u) \<Longrightarrow>
      gp t' = r \<and> fp t' = fp t \<and> sys t' = sys t \<and> psci t' = psci t"
    and write_fp: "tgt_write_fp_simd T t f = (t', Inr u) \<Longrightarrow>
      gp t' = gp t \<and> fp t' = f \<and> sys t' = sys t \<and> psci t' = psci t"
    and write_sys: "tgt_write_sys_reg T t reg v = (t', Inr u) \<Longrightarrow>
      gp t' = gp t \<and> fp t' = fp t \<and> sys t' = (sys t)(reg := v) \<and> psci t' = psci t"
    and write_psci: "tgt_set_psci_state T t p = (t', Inr u) \<Longrightarrow>
      gp t' = gp t \<and> fp t' = fp t \<and> sys t' = sys t \<and> psci t' = p"
begin

lemma restore_sys_regs_spec:
  assumes "restore_sys_regs T t m = (t', Inr u)" "distinct (map fst m)"
  shows "gp t' = gp t \<and> fp t' = fp t \<and> psci t' = psci t \<and>
    sys t' reg = (case map_of m (as_encoded reg) of Some v \<Rightarrow> v | None \<Rightarrow> sys t reg)"
  using assms
proof (induction m arbitrary: t)
  case (Cons e m)
  obtain k v where e: "e = (k, v)" by fastforce
  from Cons.prems(1) e obtain r t1 u1 where r: "from_encoded k = Some r"
    and w: "tgt_write_sys_reg T t r v = (t1, Inr u1)" and rest: "restore_sys_regs T t1 m = (t', Inr u)"
    by (auto split: option.splits prod.splits sum.splits)
  have k: "as_encoded r = k" using r by (rule from_encoded_Some)
  have "map_of m (as_encoded r) = None" using Cons.prems(2) e k by (auto simp: map_of_eq_None_iff)
  then show ?case
    using Cons.IH [OF rest] Cons.prems(2) write_sys [OF w] e k
    by (auto simp: as_encoded_inj split: option.split)
qed simp

lemma restore_sys_regs_accepts:
  assumes "\<And>t reg v. snd (tgt_write_sys_reg T t reg v) = Inr ()"
    and "\<And>k. k \<in> fst ` set m \<Longrightarrow> \<exists>reg. k = as_encoded reg"
  shows "\<exists>t'. restore_sys_regs T t m = (t', Inr ())"
  using assms(2)
proof (induction m arbitrary: t)
  case (Cons e m)
  obtain k v where e: "e = (k, v)" by fastforce
  with Cons.prems obtain reg where k: "k = as_encoded reg" by auto
  obtain t1 where "tgt_write_sys_reg T t reg v = (t1, Inr ())"
    using assms(1) [of t reg v] by (metis prod.collapse)
  then show ?case using Cons e k by (simp add: from_as_encoded)
qed simp

end


subsection \<open>A register file\<close>

text \<open>A vCPU whose registers are a record: a source that may hide some system registers, and a target.\<close>

record vcpu_file =
  vf_mpidr :: u64
  vf_gp :: gp_regs
  vf_fp :: fp_simd_regs
  vf_sys :: "sys_reg \<Rightarrow> u64"
  vf_hidden :: "sys_reg list"
  vf_psci :: psci_vcpu_state


definition vcpu_file_target :: "vcpu_file vcpu_target" where
  "vcpu_file_target =
     \<lparr>tgt_write_gp_regs = (\<lambda>t r. (t\<lparr>vf_gp := r\<rparr>, Inr ())),
      tgt_write_fp_simd = (\<lambda>t f. (t\<lparr>vf_fp := f\<rparr>, Inr ())),
      tgt_write_sys_reg = (\<lambda>t reg v. (t\<lparr>vf_sys := (vf_sys t)(reg := v)\<rparr>, Inr ())),
      tgt_set_psci_state = (\<lambda>t p. (t\<lparr>vf_psci := p\<rparr>, Inr ()))\<rparr>"

interpretation vcpu_file: vcpu_registers vcpu_file_target vf_gp vf_fp vf_sys vf_psci
  by unfold_locales (auto simp: vcpu_file_target_def)

subsection \<open>Properties\<close>



end
