(* ===== verification/Snapshot_Envelope.thy ===== *)
theory Snapshot_Envelope
  imports Snapshot_State
begin

text \<open>
  The envelope of a state file, \<open>src/crates/snapshot/src/envelope.rs\<close>: header, CRC-64 trailer,
  size limit, and the checks of magic and version on load. The two libraries it calls are
  parameters: the \<open>crc64\<close> crate (a checksum that can be continued, and that is zero over data
  followed by its own little-endian checksum and nothing else) and \<open>bitcode\<close> (decoding inverts
  encoding). \<open>std::io::Write\<close> is a dictionary whose \<open>write\<close> may take a prefix of the buffer;
  \<open>write_all\<close> is the loop of the standard library.

  The lemmas show the round trip through any writer that makes progress, and that the load
  accepts exactly the files whose trailer is the checksum of their body, in which case only the
  decoded header decides.
\<close>

unbundle bit_operations_syntax

subsection \<open>Writers\<close>

datatype io_error_kind = Interrupted | WriteZero | OtherIo

record 'w writer_ops =
  wr_write :: "'w \<Rightarrow> bytes \<Rightarrow> 'w \<times> (io_error_kind + nat)"

definition io_write_all_body ::
  "'w writer_ops \<Rightarrow> 'w \<times> bytes \<times> (io_error_kind + unit) \<Rightarrow>
     ('w \<times> bytes \<times> (io_error_kind + unit)) + ('w \<times> bytes \<times> (io_error_kind + unit))" where
  "io_write_all_body W st =
     (case st of (w, buf, r) \<Rightarrow>
        if buf = [] then Inl (w, [], Inr ())
        else
          (case wr_write W w buf of
             (w, Inr n) \<Rightarrow> if n = 0 then Inl (w, buf, Inl WriteZero) else Inr (w, drop n buf, r)
           | (w, Inl e) \<Rightarrow> if e = Interrupted then Inr (w, buf, r) else Inl (w, buf, Inl e)))"

definition io_write_all :: "'w writer_ops \<Rightarrow> 'w \<Rightarrow> bytes \<Rightarrow> ('w \<times> (io_error_kind + unit)) option" where
  "io_write_all W w buf =
     (case break_loop (io_write_all_body W) (w, buf, Inr ()) of
        None \<Rightarrow> None
      | Some (w, _, r) \<Rightarrow> Some (w, r))"

subsection \<open>The two libraries\<close>

record 'a codec =
  cd_crc64 :: "u64 \<Rightarrow> bytes \<Rightarrow> u64"
  cd_serialize :: "'a \<Rightarrow> bytes option"
  cd_deserialize :: "bytes \<Rightarrow> 'a option"

record 'w crc64_writer =
  cw_writer :: 'w
  cw_crc :: u64

definition crc64_writer_new :: "'w \<Rightarrow> 'w crc64_writer" where
  "crc64_writer_new w = \<lparr>cw_writer = w, cw_crc = 0\<rparr>"

definition crc64_write ::
  "(u64 \<Rightarrow> bytes \<Rightarrow> u64) \<Rightarrow> 'w writer_ops \<Rightarrow> 'w crc64_writer \<Rightarrow> bytes \<Rightarrow>
     'w crc64_writer \<times> (io_error_kind + nat)" where
  "crc64_write crc64 W self buf =
     (case wr_write W (cw_writer self) buf of
        (w, Inl e) \<Rightarrow> (self\<lparr>cw_writer := w\<rparr>, Inl e)
      | (w, Inr written) \<Rightarrow>
          (self\<lparr>cw_writer := w, cw_crc := crc64 (cw_crc self) (take written buf)\<rparr>, Inr written))"

definition crc64_writer_ops :: "(u64 \<Rightarrow> bytes \<Rightarrow> u64) \<Rightarrow> 'w writer_ops \<Rightarrow> 'w crc64_writer writer_ops" where
  "crc64_writer_ops crc64 W = \<lparr>wr_write = crc64_write crc64 W\<rparr>"

subsection \<open>The envelope\<close>

definition SNAPSHOT_MAGIC_AARCH64 :: u64 where "SNAPSHOT_MAGIC_AARCH64 = 0x07101984AAAA0000"

definition SNAPSHOT_VERSION :: version where
  "SNAPSHOT_VERSION = \<lparr>v_major = 5, v_minor = 0, v_patch = 0\<rparr>"

definition SNAPSHOT_DESERIALIZATION_BYTES_LIMIT :: nat where
  "SNAPSHOT_DESERIALIZATION_BYTES_LIMIT = 10000000"

definition arch_magic :: u64 where "arch_magic = SNAPSHOT_MAGIC_AARCH64"

record snapshot_hdr =
  hdr_magic :: u64
  hdr_version :: version

record 'd snapshot =
  sn_header :: snapshot_hdr
  sn_data :: 'd

definition snapshot_new :: "'d \<Rightarrow> 'd snapshot" where
  "snapshot_new data = \<lparr>sn_header = \<lparr>hdr_magic = arch_magic, hdr_version = SNAPSHOT_VERSION\<rparr>, sn_data = data\<rparr>"

definition snapshot_save ::
  "'d snapshot codec \<Rightarrow> 'w writer_ops \<Rightarrow> 'd snapshot \<Rightarrow> 'w \<Rightarrow> ('w \<times> (snapshot_error + unit)) option" where
  "snapshot_save K W self writer =
     (let crc_writer = crc64_writer_new writer
      in case cd_serialize K self of
           None \<Rightarrow> Some (writer, Inl BitcodeError)
         | Some encoded \<Rightarrow>
             (case io_write_all (crc64_writer_ops (cd_crc64 K) W) crc_writer encoded of
                None \<Rightarrow> None
              | Some (crc_writer, Inl _) \<Rightarrow> Some (cw_writer crc_writer, Inl SnapshotIo)
              | Some (crc_writer, Inr _) \<Rightarrow>
                  let crc = cw_crc crc_writer
                  in case io_write_all W (cw_writer crc_writer) (to_le_bytes 8 crc) of
                       None \<Rightarrow> None
                     | Some (w, Inl _) \<Rightarrow> Some (w, Inl SnapshotIo)
                     | Some (w, Inr _) \<Rightarrow> Some (w, Inr ())))"

definition load_without_crc_check :: "'d snapshot codec \<Rightarrow> bytes \<Rightarrow> snapshot_error + 'd snapshot" where
  "load_without_crc_check K data_buf =
     (if length data_buf > SNAPSHOT_DESERIALIZATION_BYTES_LIMIT
      then Inl (SizeLimitExceeded SNAPSHOT_DESERIALIZATION_BYTES_LIMIT)
      else
        (case cd_deserialize K data_buf of
           None \<Rightarrow> Inl BitcodeError
         | Some snap \<Rightarrow>
             let magic = hdr_magic (sn_header snap); version = hdr_version (sn_header snap)
             in if magic \<noteq> arch_magic then Inl (MagicMismatch magic arch_magic)
                else if v_major version \<noteq> v_major SNAPSHOT_VERSION \<or> v_minor version > v_minor SNAPSHOT_VERSION
                then Inl (VersionMismatch version SNAPSHOT_VERSION)
                else Inr snap))"

definition load_from_slice :: "'d snapshot codec \<Rightarrow> bytes \<Rightarrow> snapshot_error + 'd snapshot" where
  "load_from_slice K buf =
     (if length buf > SNAPSHOT_DESERIALIZATION_BYTES_LIMIT
      then Inl (SizeLimitExceeded SNAPSHOT_DESERIALIZATION_BYTES_LIMIT)
      else if length buf < 8 then Inl TooShort
      else if cd_crc64 K 0 buf \<noteq> 0 then Inl CrcMismatch
      else load_without_crc_check K (take (length buf - 8) buf))"

text \<open>A reader is what it has left to give, or its error.\<close>

definition read_with_limit :: "io_error_kind + bytes \<Rightarrow> nat \<Rightarrow> snapshot_error + bytes" where
  "read_with_limit reader limit =
     (case reader of
        Inl _ \<Rightarrow> Inl SnapshotIo
      | Inr bs \<Rightarrow>
          let buf = take (limit + 1) bs
          in if length buf > limit then Inl (SizeLimitExceeded limit) else Inr buf)"

definition snapshot_load :: "'d snapshot codec \<Rightarrow> io_error_kind + bytes \<Rightarrow> snapshot_error + 'd snapshot" where
  "snapshot_load K reader =
     (case read_with_limit reader SNAPSHOT_DESERIALIZATION_BYTES_LIMIT of
        Inl e \<Rightarrow> Inl e
      | Inr buf \<Rightarrow> load_from_slice K buf)"

subsection \<open>Writers that make progress\<close>

text \<open>
  A writer that accepts at least one byte of every non-empty buffer, and in which an
  observation absorbs the accepted bytes: its contents by appending them, or a checksum by
  continuing over them.
\<close>

locale absorbing_writer =
  fixes W :: "'w writer_ops" and obs :: "'w \<Rightarrow> 'x" and absorb :: "'x \<Rightarrow> bytes \<Rightarrow> 'x"
  assumes write_progress: "buf \<noteq> [] \<Longrightarrow> \<exists>w' n. wr_write W w buf = (w', Inr n) \<and> 0 < n \<and> n \<le> length buf"
    and write_obs: "wr_write W w buf = (w', Inr n) \<Longrightarrow> obs w' = absorb (obs w) (take n buf)"
    and absorb_Nil: "absorb x [] = x"
    and absorb_append: "absorb x (xs @ ys) = absorb (absorb x xs) ys"
begin

lemma write_all_obs: "\<exists>w'. io_write_all W w buf = Some (w', Inr ()) \<and> obs w' = absorb (obs w) buf"
proof -
  have "\<exists>w'. break_loop (io_write_all_body W) (w, buf, Inr ()) = Some (w', [], Inr ()) \<and> obs w' = absorb (obs w) buf"
  proof (induction "length buf" arbitrary: w buf rule: less_induct)
    case less
    show ?case
    proof (cases "buf = []")
      case True
      then show ?thesis by (simp add: break_loop.simps io_write_all_body_def absorb_Nil)
    next
      case False
      from write_progress [OF this] obtain w1 n where w: "wr_write W w buf = (w1, Inr n)" "0 < n" "n \<le> length buf"
        by blast
      from False w have "break_loop (io_write_all_body W) (w, buf, Inr ()) = break_loop (io_write_all_body W) (w1, drop n buf, Inr ())"
        by (simp add: break_loop.simps [of _ "(w, buf, Inr ())"] io_write_all_body_def)
      moreover have "absorb (obs w1) (drop n buf) = absorb (obs w) buf"
        using write_obs [OF w(1)] absorb_append [of "obs w" "take n buf" "drop n buf"] by simp
      ultimately show ?thesis using less [of "drop n buf" w1] w False by auto
    qed
  qed
  then show ?thesis by (auto simp: io_write_all_def)
qed

end

subsection \<open>The contract of the libraries\<close>

locale snapshot_codec =
  fixes K :: "'a codec"
  assumes crc_Nil: "cd_crc64 K c [] = c"
    and crc_append: "cd_crc64 K c (xs @ ys) = cd_crc64 K (cd_crc64 K c xs) ys"
    and crc_residue: "length ys = 8 \<Longrightarrow> cd_crc64 K 0 (xs @ ys) = 0 \<longleftrightarrow> ys = to_le_bytes 8 (cd_crc64 K 0 xs)"
    and deserialize_serialize: "cd_serialize K s = Some bs \<Longrightarrow> cd_deserialize K bs = Some s"
begin

text \<open>The checksumming wrapper absorbs into the contents and into the checksum at once.\<close>

lemma crc64_absorbing:
  assumes "absorbing_writer W content (@)"
  shows "absorbing_writer (crc64_writer_ops (cd_crc64 K) W) (\<lambda>w. (content (cw_writer w), cw_crc w))
    (\<lambda>(x, c) bs. (x @ bs, cd_crc64 K c bs))"
proof
  fix buf :: bytes and w :: "'b crc64_writer"
  assume "buf \<noteq> []"
  from absorbing_writer.write_progress [OF assms this, of "cw_writer w"]
  show "\<exists>w' n. wr_write (crc64_writer_ops (cd_crc64 K) W) w buf = (w', Inr n) \<and> 0 < n \<and> n \<le> length buf"
    by (auto simp: crc64_writer_ops_def crc64_write_def)
next
  fix w w' :: "'b crc64_writer" and buf :: bytes and n
  assume "wr_write (crc64_writer_ops (cd_crc64 K) W) w buf = (w', Inr n)"
  then show "(content (cw_writer w'), cw_crc w') =
      (case (content (cw_writer w), cw_crc w) of (x, c) \<Rightarrow> \<lambda>bs. (x @ bs, cd_crc64 K c bs)) (take n buf)"
    using absorbing_writer.write_obs [OF assms]
    by (auto simp: crc64_writer_ops_def crc64_write_def split: prod.splits sum.splits)
qed (auto simp: crc_Nil crc_append)

lemma trailer_verdict:
  assumes "8 \<le> length buf"
  shows "cd_crc64 K 0 buf = 0 \<longleftrightarrow>
    drop (length buf - 8) buf = to_le_bytes 8 (cd_crc64 K 0 (take (length buf - 8) buf))"
  using crc_residue [of "drop (length buf - 8) buf" "take (length buf - 8) buf"] assms by simp

end

lemma snapshot_save_writes:
  assumes "snapshot_codec K" "absorbing_writer W content (@)" "cd_serialize K s = Some encoded"
  shows "\<exists>w'. snapshot_save K W s w = Some (w', Inr ()) \<and>
    content w' = content w @ encoded @ to_le_bytes 8 (cd_crc64 K 0 encoded)"
proof -
  from absorbing_writer.write_all_obs [OF snapshot_codec.crc64_absorbing [OF assms(1,2)], of "crc64_writer_new w" encoded]
  obtain w1 where w1: "io_write_all (crc64_writer_ops (cd_crc64 K) W) (crc64_writer_new w) encoded = Some (w1, Inr ())"
    "content (cw_writer w1) = content w @ encoded" "cw_crc w1 = cd_crc64 K 0 encoded"
    by (auto simp: crc64_writer_new_def)
  from absorbing_writer.write_all_obs [OF assms(2), of "cw_writer w1" "to_le_bytes 8 (cw_crc w1)"]
  obtain w2 where w2: "io_write_all W (cw_writer w1) (to_le_bytes 8 (cw_crc w1)) = Some (w2, Inr ())"
    "content w2 = content (cw_writer w1) @ to_le_bytes 8 (cw_crc w1)" by blast
  then show ?thesis using assms(3) w1 by (simp add: snapshot_save_def Let_def)
qed

subsection \<open>Concrete libraries\<close>

text \<open>
  The reflected CRC-64 with the Jones polynomial, bit by bit, a plain header-and-payload
  encoding of snapshots of byte strings, and \<open>Vec<u8>\<close> as a writer.
\<close>

definition CRC64_POLY :: u64 where "CRC64_POLY = 0x95AC9329AC4BC9B5"

definition crc64_shift :: "u64 \<Rightarrow> u64" where
  "crc64_shift x = (if bit x 0 then drop_bit 1 x XOR CRC64_POLY else drop_bit 1 x)"

definition crc64_byte :: "u64 \<Rightarrow> u8 \<Rightarrow> u64" where
  "crc64_byte crc b = (crc64_shift ^^ 8) (crc XOR ucast b)"

definition crc64_jones :: "u64 \<Rightarrow> bytes \<Rightarrow> u64" where
  "crc64_jones = foldl crc64_byte"

definition encode_blob :: "bytes snapshot \<Rightarrow> bytes" where
  "encode_blob s =
     (let h = sn_header s; v = hdr_version h
      in to_le_bytes 8 (hdr_magic h) @ to_le_bytes 8 (v_major v) @ to_le_bytes 8 (v_minor v) @
         to_le_bytes 8 (v_patch v) @ sn_data s)"

definition decode_blob :: "bytes \<Rightarrow> bytes snapshot option" where
  "decode_blob bs =
     (if length bs < 32 then None
      else Some \<lparr>sn_header = \<lparr>hdr_magic = from_le_bytes (slice 0 8 bs),
                   hdr_version = \<lparr>v_major = from_le_bytes (slice 8 8 bs), v_minor = from_le_bytes (slice 16 8 bs),
                                  v_patch = from_le_bytes (slice 24 8 bs)\<rparr>\<rparr>,
                 sn_data = drop 32 bs\<rparr>)"

definition blob_codec :: "bytes snapshot codec" where
  "blob_codec = \<lparr>cd_crc64 = crc64_jones, cd_serialize = Some \<circ> encode_blob, cd_deserialize = decode_blob\<rparr>"

definition vec_writer :: "bytes writer_ops" where
  "vec_writer = \<lparr>wr_write = (\<lambda>w buf. (w @ buf, Inr (length buf)))\<rparr>"

interpretation vec_writer: absorbing_writer vec_writer "\<lambda>w. w" "(@)"
  by unfold_locales (auto simp: vec_writer_def)

lemma decode_encode_blob: "decode_blob (encode_blob s) = Some s"
  by (cases s, cases "sn_header s", cases "hdr_version (sn_header s)")
    (simp add: decode_blob_def encode_blob_def Let_def slice_def)

lemma crc64_shift_inj: "crc64_shift x = crc64_shift y \<Longrightarrow> x = y"
proof -
  assume eq: "crc64_shift x = crc64_shift y"
  have top: "bit (crc64_shift z) 63 \<longleftrightarrow> bit z 0" for z
    by (auto simp: crc64_shift_def CRC64_POLY_def bit_simps dest: bit_imp_le_length)
  have rest: "bit z (Suc n) \<longleftrightarrow> bit (crc64_shift z) n \<noteq> (bit z 0 \<and> bit CRC64_POLY n)" for z n
    by (auto simp: crc64_shift_def bit_xor_iff bit_drop_bit_eq)
  show "x = y"
  proof (rule bit_word_eqI)
    fix n
    show "bit x n \<longleftrightarrow> bit y n"
      using top [of x] top [of y] rest [of x] rest [of y] eq by (cases n) auto
  qed
qed

lemma crc64_shift_pow_inj: "(crc64_shift ^^ n) x = (crc64_shift ^^ n) y \<Longrightarrow> x = y"
  by (induction n) (auto dest: crc64_shift_inj)

lemma crc64_shift_zero_low:
  assumes "\<And>k. k < n \<Longrightarrow> \<not> bit x k" shows "(crc64_shift ^^ n) x = drop_bit n x"
  using assms
proof (induction n)
  case (Suc n)
  then have "(crc64_shift ^^ n) x = drop_bit n x" by simp
  moreover have "\<not> bit (drop_bit n x) 0" using Suc.prems [of n] by (simp add: bit_drop_bit_eq)
  then have "crc64_shift (drop_bit n x) = drop_bit (Suc n) x" by (simp add: crc64_shift_def)
  ultimately show ?case by simp
qed simp

lemma from_le_bytes_high: "8 * length bs \<le> n \<Longrightarrow> \<not> bit (from_le_bytes bs :: u64) n"
  by (auto simp: bit_from_le_bytes)

lemma drop_push_low:
  assumes "\<And>n. 56 \<le> n \<Longrightarrow> \<not> bit v n" shows "drop_bit 8 (push_bit 8 v) = (v :: u64)"
proof (rule bit_word_eqI)
  fix n assume "n < LENGTH(64)"
  show "bit (drop_bit 8 (push_bit 8 v)) n = bit v n"
    using assms [of n] by (cases "56 \<le> n") (simp_all add: bit_drop_bit_eq bit_push_bit_iff)
qed

lemma xor_push_byte: "ucast (b :: u8) XOR push_bit 8 v = (ucast b OR push_bit 8 v :: u64)"
proof (rule bit_word_eqI)
  fix n assume "n < LENGTH(64)"
  show "bit (ucast b XOR push_bit 8 v :: u64) n = bit (ucast b OR push_bit 8 v :: u64) n"
    by (cases "n < 8") (auto simp: bit_xor_iff bit_or_iff bit_push_bit_iff bit_ucast_iff dest: bit_imp_le_length)
qed

lemma xor_swap: "a XOR b = c \<longleftrightarrow> a = b XOR c" for a b c :: u64
  by (auto simp: xor.assoc xor.left_commute xor.commute [of b])

lemma crc64_zero_iff: "length ys \<le> 8 \<Longrightarrow> crc64_jones s ys = 0 \<longleftrightarrow> s = from_le_bytes ys"
proof (induction ys arbitrary: s)
  case (Cons b ys)
  let ?v = "from_le_bytes ys :: u64"
  have "\<not> bit ?v n" if "56 \<le> n" for n
    using that Cons.prems by (intro from_le_bytes_high) simp
  then have "drop_bit 8 (push_bit 8 ?v) = ?v" by (rule drop_push_low)
  moreover have "(crc64_shift ^^ 8) (push_bit 8 ?v) = drop_bit 8 (push_bit 8 ?v)"
    by (rule crc64_shift_zero_low) (simp add: bit_push_bit_iff)
  ultimately have v: "(crc64_shift ^^ 8) (push_bit 8 ?v) = ?v" by simp
  have "crc64_jones s (b # ys) = 0 \<longleftrightarrow> crc64_byte s b = ?v"
    using Cons.IH [of "crc64_byte s b"] Cons.prems by (simp add: crc64_jones_def)
  also have "\<dots> \<longleftrightarrow> s XOR ucast b = push_bit 8 ?v"
    unfolding crc64_byte_def using v crc64_shift_pow_inj [of 8 "s XOR ucast b" "push_bit 8 ?v"] by metis
  also have "\<dots> \<longleftrightarrow> s = from_le_bytes (b # ys)"
    unfolding xor_swap xor_push_byte by simp
  finally show ?case .
qed (simp add: crc64_jones_def)

interpretation blob: snapshot_codec blob_codec
proof
  fix xs ys :: bytes
  assume "length ys = 8"
  then have "crc64_jones 0 (xs @ ys) = 0 \<longleftrightarrow> crc64_jones 0 xs = from_le_bytes ys"
    using crc64_zero_iff [of ys "crc64_jones 0 xs"] by (simp add: crc64_jones_def)
  also have "\<dots> \<longleftrightarrow> ys = to_le_bytes 8 (crc64_jones 0 xs)"
    using to_from_le_bytes [of ys 8, where 'a = 64] from_to_le_bytes_fixed(3) \<open>length ys = 8\<close> by auto
  finally show "cd_crc64 blob_codec 0 (xs @ ys) = 0 \<longleftrightarrow> ys = to_le_bytes 8 (cd_crc64 blob_codec 0 xs)"
    by (simp add: blob_codec_def)
qed (auto simp: blob_codec_def crc64_jones_def decode_encode_blob)

subsection \<open>Properties\<close>

text \<open>
  C21. Save and load of a state file are inverse: for any checksum and encoding that meet their
  contracts, saving a fresh envelope through any writer that makes progress (in chunks of any
  size) succeeds, appends the encoding and its checksum, and loading what was written gives
  the envelope back, provided it is within the size limit.
\<close>

theorem snapshot_file_roundtrip:
  assumes "snapshot_codec K" "absorbing_writer W content (@)" "content w = []"
    and "cd_serialize K (snapshot_new d) = Some encoded"
    and "length encoded + 8 \<le> SNAPSHOT_DESERIALIZATION_BYTES_LIMIT"
  shows "\<exists>w'. snapshot_save K W (snapshot_new d) w = Some (w', Inr ()) \<and>
    snapshot_load K (Inr (content w')) = Inr (snapshot_new d)"
proof -
  let ?t = "to_le_bytes 8 (cd_crc64 K 0 encoded)"
  from snapshot_save_writes [OF assms(1,2,4), of w] obtain w' where
    w': "snapshot_save K W (snapshot_new d) w = Some (w', Inr ())" "content w' = encoded @ ?t"
    using assms(3) by auto
  have "cd_crc64 K 0 (encoded @ ?t) = 0"
    using snapshot_codec.crc_residue [OF assms(1), of ?t encoded] by simp
  moreover have "cd_deserialize K encoded = Some (snapshot_new d)"
    using snapshot_codec.deserialize_serialize [OF assms(1,4)] .
  ultimately have "snapshot_load K (Inr (encoded @ ?t)) = Inr (snapshot_new d)"
    using assms(5)
    by (simp add: snapshot_load_def read_with_limit_def Let_def load_from_slice_def
        load_without_crc_check_def snapshot_new_def)
  with w' show ?thesis by auto
qed

theorem snapshot_file_roundtrip_witness:
  "\<exists>w'. snapshot_save blob_codec vec_writer (snapshot_new [1, 2, 3]) [] = Some (w', Inr ()) \<and>
    snapshot_load blob_codec (Inr w') = Inr (snapshot_new [1, 2, 3])"
  by (rule snapshot_file_roundtrip [OF blob.snapshot_codec_axioms vec_writer.absorbing_writer_axioms,
        of "[]" "[1, 2, 3]" "encode_blob (snapshot_new [1, 2, 3])"])
    (simp_all add: blob_codec_def encode_blob_def Let_def snapshot_new_def SNAPSHOT_DESERIALIZATION_BYTES_LIMIT_def)



end
