(* ===== verification/Dirty_Bitmap.thy ===== *)
theory Dirty_Bitmap
  imports Snapshot_State
begin

text \<open>
  The shadow bitmap of dirty tracking pages, \<open>DirtyBitmap\<close> of
  \<open>src/crates/snapshot/src/dirty.rs\<close>. Its abstraction is the set of dirty page numbers; the
  lemmas give each operation on that set, among them the fold into a finer bitmap.
\<close>

unbundle bit_operations_syntax

subsection \<open>The bitmap\<close>

record dirty_bitmap =
  db_ram_start :: u64
  db_ram_size :: u64
  db_page_size :: u64
  db_page_count :: u64
  db_words :: "u64 list"

definition dirty_bitmap_new :: "u64 \<Rightarrow> u64 \<Rightarrow> u64 \<Rightarrow> snapshot_error + dirty_bitmap" where
  "dirty_bitmap_new ram_start ram_size page_size =
     (if \<not> is_power_of_two page_size then Inl InvalidPath
      else if ram_size = 0 then Inl InvalidPath
      else if checked_add ram_start ram_size = None then Inl InvalidPath
      else
        let page_count = div_ceil ram_size page_size;
            word_count = unat (div_ceil page_count 64)
        in Inr \<lparr>db_ram_start = ram_start, db_ram_size = ram_size, db_page_size = page_size,
                db_page_count = page_count, db_words = replicate word_count 0\<rparr>)"

definition page_shift :: "dirty_bitmap \<Rightarrow> nat" where
  "page_shift self = trailing_zeros (db_page_size self)"

definition page_index_of :: "dirty_bitmap \<Rightarrow> u64 \<Rightarrow> u64 option" where
  "page_index_of self addr =
     (if addr < db_ram_start self then None
      else
        let offset = addr - db_ram_start self
        in if offset \<ge> db_ram_size self then None
           else Some (drop_bit (page_shift self) offset))"

definition set_dirty_by_index :: "dirty_bitmap \<Rightarrow> u64 \<Rightarrow> dirty_bitmap \<times> bool" where
  "set_dirty_by_index self page =
     (if page \<ge> db_page_count self then (self, False)
      else
        let word_idx = unat (page div 64);
            k = unat (page mod 64);
            msk = push_bit k 1;
            prev = db_words self ! word_idx
        in (self\<lparr>db_words := (db_words self)[word_idx := prev OR msk]\<rparr>, prev AND msk = 0))"

definition set_dirty :: "dirty_bitmap \<Rightarrow> u64 \<Rightarrow> dirty_bitmap \<times> bool" where
  "set_dirty self addr =
     (case page_index_of self addr of
        None \<Rightarrow> (self, False)
      | Some page \<Rightarrow> set_dirty_by_index self page)"

definition is_dirty_by_index :: "dirty_bitmap \<Rightarrow> u64 \<Rightarrow> bool" where
  "is_dirty_by_index self page =
     (if page \<ge> db_page_count self then False
      else
        let word_idx = unat (page div 64);
            k = unat (page mod 64);
            word = db_words self ! word_idx
        in word AND push_bit k 1 \<noteq> 0)"

definition is_dirty :: "dirty_bitmap \<Rightarrow> u64 \<Rightarrow> bool" where
  "is_dirty self addr =
     (case page_index_of self addr of
        None \<Rightarrow> False
      | Some page \<Rightarrow> is_dirty_by_index self page)"

definition bit_page :: "nat \<Rightarrow> nat \<Rightarrow> u64" where
  "bit_page word_idx k = of_nat word_idx * 64 + of_nat k"

definition drain :: "dirty_bitmap \<Rightarrow> dirty_bitmap \<times> u64 list" where
  "drain self =
     (self\<lparr>db_words := map (\<lambda>_. 0) (db_words self)\<rparr>,
      concat (map (\<lambda>(word_idx, word).
        filter (\<lambda>page. page < db_page_count self) (map (bit_page word_idx) (word_bits word)))
        (List.enumerate 0 (db_words self))))"

definition drain_into :: "dirty_bitmap \<Rightarrow> ('s \<Rightarrow> u64 \<Rightarrow> 's) \<Rightarrow> 's \<Rightarrow> dirty_bitmap \<times> 's" where
  "drain_into self callback s =
     (self\<lparr>db_words := map (\<lambda>_. 0) (db_words self)\<rparr>,
      foldl (\<lambda>s (word_idx, word).
        foldl (\<lambda>s k.
          let page = bit_page word_idx k
          in if page < db_page_count self then callback s page else s) s (word_bits word))
        s (List.enumerate 0 (db_words self)))"

text \<open>\<open>for p in a..b\<close> on \<open>u64\<close>.\<close>

definition u64_range :: "u64 \<Rightarrow> u64 \<Rightarrow> u64 list" where
  "u64_range a b = map of_nat [unat a..<unat b]"

definition set_all_dirty :: "dirty_bitmap \<Rightarrow> u64 list \<Rightarrow> dirty_bitmap" where
  "set_all_dirty = foldl (\<lambda>fine page. fst (set_dirty_by_index fine page))"

fun fold_bits :: "dirty_bitmap \<Rightarrow> u64 \<Rightarrow> nat \<Rightarrow> nat list \<Rightarrow> dirty_bitmap \<Rightarrow> dirty_bitmap" where
  "fold_bits self ratio word_idx [] fine = fine"
| "fold_bits self ratio word_idx (k # ks) fine =
     (let coarse_page = bit_page word_idx k
      in if coarse_page \<ge> db_page_count self then fine
         else
           let fine_start = coarse_page * ratio;
               fine_end = min (fine_start + ratio) (db_page_count fine)
           in fold_bits self ratio word_idx ks (set_all_dirty fine (u64_range fine_start fine_end)))"

definition fold_into_finer :: "dirty_bitmap \<Rightarrow> dirty_bitmap \<Rightarrow> snapshot_error + dirty_bitmap" where
  "fold_into_finer self fine =
     (if db_ram_start fine \<noteq> db_ram_start self \<or> db_ram_size fine \<noteq> db_ram_size self then Inl InvalidPath
      else if db_page_size fine \<ge> db_page_size self then Inl InvalidPath
      else if db_page_size self mod db_page_size fine \<noteq> 0 then Inl InvalidPath
      else
        let ratio = db_page_size self div db_page_size fine
        in Inr (foldl (\<lambda>fine (word_idx, word). fold_bits self ratio word_idx (word_bits word) fine)
             fine (List.enumerate 0 (db_words self))))"

subsection \<open>The set of dirty pages\<close>

definition dirty_set :: "dirty_bitmap \<Rightarrow> nat set" where
  "dirty_set b = {p. p div 64 < length (db_words b) \<and> bit (db_words b ! (p div 64)) (p mod 64)}"

definition db_geometry :: "dirty_bitmap \<Rightarrow> dirty_bitmap" where
  "db_geometry b = b\<lparr>db_words := []\<rparr>"

definition db_inv :: "dirty_bitmap \<Rightarrow> bool" where
  "db_inv b \<longleftrightarrow> is_power_of_two (db_page_size b) \<and> db_ram_size b \<noteq> 0 \<and>
     unat (db_ram_start b) + unat (db_ram_size b) < 2 ^ 64 \<and>
     db_page_count b = div_ceil (db_ram_size b) (db_page_size b) \<and>
     length (db_words b) = (unat (db_page_count b) + 63) div 64 \<and>
     dirty_set b \<subseteq> {..<unat (db_page_count b)}"

lemma db_geometry_eqD:
  assumes "db_geometry b = db_geometry b'"
  shows "db_ram_start b = db_ram_start b'" "db_ram_size b = db_ram_size b'"
    "db_page_size b = db_page_size b'" "db_page_count b = db_page_count b'"
  using assms by (cases b; cases b'; simp add: db_geometry_def)+

lemma power_of_two_pos: "is_power_of_two w \<Longrightarrow> w \<noteq> 0 \<and> 0 < unat w"
  by (auto simp: is_power_of_two_iff unat_gt_0 [symmetric])

lemma page_count_nat:
  "db_inv b \<Longrightarrow> unat (db_page_count b) = (unat (db_ram_size b) + unat (db_page_size b) - 1) div unat (db_page_size b)"
  using power_of_two_pos [of "db_page_size b"] unat_div_ceil [of "db_page_size b" "db_ram_size b"]
  by (simp add: db_inv_def)

lemma word_index_less: "db_inv b \<Longrightarrow> p < unat (db_page_count b) \<Longrightarrow> p div 64 < length (db_words b)"
  by (simp add: db_inv_def)

lemma dirty_bitmap_new_spec:
  assumes "dirty_bitmap_new start sz ps = Inr b"
  shows "db_inv b" "dirty_set b = {}" "db_ram_start b = start" "db_ram_size b = sz" "db_page_size b = ps"
proof -
  let ?n = "unat (div_ceil sz ps)"
  from assms have b: "b = \<lparr>db_ram_start = start, db_ram_size = sz, db_page_size = ps,
      db_page_count = div_ceil sz ps, db_words = replicate (unat (div_ceil (div_ceil sz ps) 64)) 0\<rparr>"
    and ps: "is_power_of_two ps" and sz: "sz \<noteq> 0" and ov: "unat start + unat sz < 2 ^ 64"
    by (auto simp: dirty_bitmap_new_def Let_def checked_add_def split: if_splits)
  show e: "dirty_set b = {}" by (auto simp: dirty_set_def b)
  have "unat (div_ceil (div_ceil sz ps) 64) = (?n + 63) div 64"
    by (simp add: unat_div_ceil)
  then show "db_inv b" using ps sz ov e by (simp add: db_inv_def b)
qed (use assms in \<open>auto simp: dirty_bitmap_new_def Let_def split: if_splits\<close>)

lemma set_dirty_by_index_spec:
  assumes "db_inv b" "set_dirty_by_index b p = (b', r)"
  shows "db_inv b' \<and> db_geometry b' = db_geometry b \<and>
    dirty_set b' = (if unat p < unat (db_page_count b) then insert (unat p) (dirty_set b) else dirty_set b) \<and>
    r = (unat p < unat (db_page_count b) \<and> unat p \<notin> dirty_set b)"
proof (cases "p \<ge> db_page_count b")
  case True
  with assms show ?thesis by (auto simp: set_dirty_by_index_def word_le_nat_alt)
next
  case False
  then have lt: "unat p < unat (db_page_count b)" by (simp add: word_le_nat_alt)
  let ?i = "unat p div 64" and ?k = "unat p mod 64"
  have i: "?i < length (db_words b)" using assms(1) lt by (rule word_index_less)
  have ds: "unat p \<in> dirty_set b \<longleftrightarrow> bit (db_words b ! ?i) ?k" using i by (simp add: dirty_set_def)
  have "set_dirty_by_index b p =
      (b\<lparr>db_words := (db_words b)[?i := db_words b ! ?i OR push_bit ?k 1]\<rparr>, db_words b ! ?i AND push_bit ?k 1 = 0)"
    unfolding set_dirty_by_index_def Let_def unat_div unat_mod using False by simp
  with assms(2) have b': "b' = b\<lparr>db_words := (db_words b)[?i := db_words b ! ?i OR push_bit ?k 1]\<rparr>"
    and r: "r = (db_words b ! ?i AND push_bit ?k 1 = 0)" by simp_all
  have r': "r = (\<not> bit (db_words b ! ?i) ?k)" unfolding r using and_flag by blast
  have "q \<in> dirty_set b' \<longleftrightarrow> q = unat p \<or> q \<in> dirty_set b" for q
  proof (cases "q div 64 = ?i")
    case True
    have "q = unat p \<longleftrightarrow> q mod 64 = ?k" using True by (metis div_mult_mod_eq)
    with True i show ?thesis unfolding dirty_set_def b' by (auto simp: bit_or_iff bit_exp_iff)
  next
    case False
    then have "q \<noteq> unat p" by blast
    with False i show ?thesis unfolding dirty_set_def b' by simp
  qed
  then have ins: "dirty_set b' = insert (unat p) (dirty_set b)" by blast
  have g: "db_geometry b' = db_geometry b" and len: "length (db_words b') = length (db_words b)"
    by (simp_all add: b' db_geometry_def)
  have "db_inv b'"
    using assms(1) lt unfolding db_inv_def db_geometry_eqD [OF g] len ins insert_subset lessThan_iff
    by (elim conjE, intro conjI)
  then show ?thesis using ins lt r' ds g by simp
qed

lemma is_dirty_by_index_iff:
  assumes "db_inv b" shows "is_dirty_by_index b p \<longleftrightarrow> unat p \<in> dirty_set b"
proof (cases "p \<ge> db_page_count b")
  case True
  then have "unat p \<notin> dirty_set b" using assms by (auto simp: db_inv_def word_le_nat_alt)
  with True show ?thesis by (simp add: is_dirty_by_index_def)
next
  case False
  then have "unat p div 64 < length (db_words b)"
    using assms by (intro word_index_less) (simp_all add: word_le_nat_alt)
  with False show ?thesis
    using and_flag [of "db_words b ! (unat p div 64)" "unat p mod 64"]
    by (simp add: is_dirty_by_index_def Let_def unat_div unat_mod dirty_set_def)
qed

lemma set_all_dirty_spec:
  assumes "db_inv b"
  shows "db_inv (set_all_dirty b ps) \<and> db_geometry (set_all_dirty b ps) = db_geometry b \<and>
    dirty_set (set_all_dirty b ps) = dirty_set b \<union> {p \<in> unat ` set ps. p < unat (db_page_count b)}"
  using assms
proof (induction ps arbitrary: b)
  case (Cons p ps)
  obtain b' r where s: "set_dirty_by_index b p = (b', r)" by fastforce
  note b' = set_dirty_by_index_spec [OF Cons.prems s]
  have "db_page_count b' = db_page_count b" using b' db_geometry_eqD(4) by blast
  with b' Cons.IH [of b'] s show ?case by (auto simp: set_all_dirty_def)
qed (simp add: set_all_dirty_def)

lemma page_index_of_spec:
  assumes "db_inv b"
  shows "page_index_of b a =
    (if db_ram_start b \<le> a \<and> unat (a - db_ram_start b) < unat (db_ram_size b)
     then Some (of_nat (unat (a - db_ram_start b) div unat (db_page_size b))) else None)"
proof -
  from assms obtain k where k: "k < 64" "unat (db_page_size b) = 2 ^ k"
    by (auto simp: db_inv_def is_power_of_two_iff)
  then have "unat (db_page_size b) = unat (2 ^ k :: u64)" by (simp add: unat_two_power)
  then have "db_page_size b = 2 ^ k" by (rule unsigned_word_eqI)
  then have sh: "page_shift b = k" using k(1) by (simp add: page_shift_def trailing_zeros_power)
  have "drop_bit k x = of_nat (unat x div 2 ^ k)" for x :: u64
  proof -
    have "drop_bit k x = of_nat (unat (drop_bit k x))" by (simp only: of_nat_unat ucast_id)
    also have "unat (drop_bit k x) = unat x div 2 ^ k"
      by (subst unat_drop_bit_eq) (rule drop_bit_eq_div)
    finally show ?thesis .
  qed
  then show ?thesis
    by (auto simp: page_index_of_def Let_def sh k(2) word_le_nat_alt word_less_nat_alt not_less)
qed

lemma db_inv_pos: "db_inv b \<Longrightarrow> 0 < unat (db_page_size b) \<and> 0 < unat (db_ram_size b)"
  using power_of_two_pos [of "db_page_size b"] by (simp add: db_inv_def unat_gt_0)

lemma page_index_less:
  assumes "db_inv b" "page_index_of b a = Some p"
  shows "unat p = unat (a - db_ram_start b) div unat (db_page_size b)" "unat p < unat (db_page_count b)"
    "db_ram_start b \<le> a" "unat (a - db_ram_start b) < unat (db_ram_size b)"
proof -
  let ?o = "unat (a - db_ram_start b)" and ?s = "unat (db_ram_size b)" and ?p = "unat (db_page_size b)"
  have pos: "0 < ?p" using assms(1) db_inv_pos by blast
  from assms show a: "db_ram_start b \<le> a" "?o < ?s"
    by (auto simp: page_index_of_spec split: if_splits)
  have "?o div ?p \<le> ?o" by simp
  then have "?o div ?p < 2 ^ 64" by (rule le_less_trans) simp
  with assms a show p: "unat p = ?o div ?p"
    by (auto simp: page_index_of_spec unsigned_of_nat take_bit_nat_eq_self)
  have "?o div ?p < (?s + ?p - 1) div ?p"
  proof -
    have "(?o + ?p) div ?p \<le> (?s + ?p - 1) div ?p" using a(2) by (intro div_le_mono) simp
    moreover have "(?o + ?p) div ?p = ?o div ?p + 1" using pos by (intro div_add_self2) simp
    ultimately show ?thesis by linarith
  qed
  then show "unat p < unat (db_page_count b)" using p page_count_nat [OF assms(1)] by simp
qed

lemma set_dirty_spec:
  assumes "db_inv b" "set_dirty b a = (b', r)"
  shows "db_inv b' \<and> db_geometry b' = db_geometry b \<and>
    dirty_set b' = dirty_set b \<union> (case page_index_of b a of None \<Rightarrow> {} | Some p \<Rightarrow> {unat p}) \<and>
    r = (\<exists>p. page_index_of b a = Some p \<and> unat p \<notin> dirty_set b)"
proof (cases "page_index_of b a")
  case (Some p)
  have "unat p < unat (db_page_count b)" using page_index_less(2) [OF assms(1) Some] .
  then show ?thesis
    using set_dirty_by_index_spec [OF assms(1), of p b' r] assms(2) Some by (simp add: set_dirty_def)
qed (use assms in \<open>simp add: set_dirty_def\<close>)

lemma is_dirty_iff:
  "db_inv b \<Longrightarrow> is_dirty b a \<longleftrightarrow> (\<exists>p. page_index_of b a = Some p \<and> unat p \<in> dirty_set b)"
  by (simp add: is_dirty_def is_dirty_by_index_iff split: option.split)

subsection \<open>Draining\<close>

lemma unat_bit_page:
  assumes "db_inv b" "i < length (db_words b)" "k < 64"
  shows "unat (bit_page i k) = i * 64 + k"
proof -
  have "unat (db_page_count b) < 18446744073709551616" by simp
  then have "(unat (db_page_count b) + 63) div 64 \<le> 288230376151711744" by linarith
  then have "i < 288230376151711744" using assms(1,2) by (simp add: db_inv_def)
  then have lt: "i * 64 + k < 2 ^ 64" using assms(3) by simp
  have "bit_page i k = of_nat (i * 64 + k)" by (simp add: bit_page_def)
  then show ?thesis
    using lt by (simp del: of_nat_add of_nat_mult add: unsigned_of_nat take_bit_nat_eq_self)
qed

lemma dirty_set_words:
  "dirty_set b = {i * 64 + k | i k. i < length (db_words b) \<and> bit (db_words b ! i) k}"
proof -
  have "p \<in> dirty_set b \<longleftrightarrow> (\<exists>i k. p = i * 64 + k \<and> i < length (db_words b) \<and> bit (db_words b ! i) k)" for p
  proof
    assume "p \<in> dirty_set b"
    then show "\<exists>i k. p = i * 64 + k \<and> i < length (db_words b) \<and> bit (db_words b ! i) k"
      by (intro exI [of _ "p div 64"] exI [of _ "p mod 64"]) (simp add: dirty_set_def)
  next
    assume "\<exists>i k. p = i * 64 + k \<and> i < length (db_words b) \<and> bit (db_words b ! i) k"
    then obtain i k where "p = i * 64 + k" "i < length (db_words b)" "bit (db_words b ! i) k" by blast
    moreover from this(3) have "k < 64" by (auto dest: bit_imp_le_length)
    ultimately show "p \<in> dirty_set b" by (simp add: dirty_set_def)
  qed
  then show ?thesis by blast
qed

lemma in_enumerate: "(i, w) \<in> set (List.enumerate 0 ws) \<longleftrightarrow> i < length ws \<and> w = ws ! i"
  by (auto simp: in_set_enumerate_eq)

lemma drain_set:
  assumes "db_inv b" shows "unat ` set (snd (drain b)) = dirty_set b"
proof -
  have mem: "x \<in> set (snd (drain b)) \<longleftrightarrow> x < db_page_count b \<and>
      (\<exists>i k. x = bit_page i k \<and> i < length (db_words b) \<and> bit (db_words b ! i) k)" for x
    by (auto simp: drain_def set_word_bits Bex_def in_enumerate)
  have "p \<in> unat ` set (snd (drain b)) \<longleftrightarrow> p \<in> dirty_set b \<and> p < unat (db_page_count b)" for p
  proof
    assume "p \<in> unat ` set (snd (drain b))"
    then obtain i k where "p = unat (bit_page i k)" "i < length (db_words b)" "bit (db_words b ! i) k"
      "p < unat (db_page_count b)"
      unfolding image_iff Bex_def mem by (auto simp: word_less_nat_alt)
    moreover from this have "unat (bit_page i k) = i * 64 + k"
      by (intro unat_bit_page [OF assms]) (auto dest: bit_imp_le_length)
    ultimately show "p \<in> dirty_set b \<and> p < unat (db_page_count b)" unfolding dirty_set_words by auto
  next
    assume p: "p \<in> dirty_set b \<and> p < unat (db_page_count b)"
    then obtain i k where ik: "p = i * 64 + k" "i < length (db_words b)" "bit (db_words b ! i) k"
      unfolding dirty_set_words by auto
    then have "unat (bit_page i k) = p"
      using unat_bit_page [OF assms, of i k] by (auto dest: bit_imp_le_length)
    with ik p show "p \<in> unat ` set (snd (drain b))"
      by (intro image_eqI [of _ _ "bit_page i k"]) (auto simp: mem word_less_nat_alt)
  qed
  then show ?thesis using assms by (auto simp: db_inv_def)
qed

lemma drain_clears:
  assumes "db_inv b"
  shows "db_inv (fst (drain b))" "dirty_set (fst (drain b)) = {}" "db_geometry (fst (drain b)) = db_geometry b"
proof -
  show e: "dirty_set (fst (drain b)) = {}" by (auto simp: dirty_set_def drain_def)
  show "db_geometry (fst (drain b)) = db_geometry b" by (simp add: drain_def db_geometry_def)
  show "db_inv (fst (drain b))" using assms e by (simp add: db_inv_def drain_def)
qed

lemma sorted_concat_map:
  assumes "\<And>x. x \<in> set xs \<Longrightarrow> sorted_wrt (<) (f x)"
    and "sorted_wrt (\<lambda>x y. \<forall>a \<in> set (f x). \<forall>b \<in> set (f y). a < b) xs"
  shows "sorted_wrt (<) (concat (map f xs))"
  using assms by (induction xs) (auto simp: sorted_wrt_append)

lemma drain_sorted:
  assumes "db_inv b" shows "sorted_wrt (<) (snd (drain b))"
proof -
  let ?f = "\<lambda>(i, w). filter (\<lambda>page. page < db_page_count b) (map (bit_page i) (word_bits w))"
  have lt: "bit_page i k < bit_page j l" if "i < length (db_words b)" "j < length (db_words b)" "k < 64" "l < 64"
      "i < j \<or> i = j \<and> k < l" for i j k l
    using that unat_bit_page [OF assms] by (auto simp: word_less_nat_alt)
  have k64: "k < 64" if "k \<in> set (word_bits w)" for k and w :: u64
    using that by (auto simp: set_word_bits dest: bit_imp_le_length)
  have "sorted_wrt (<) (?f x)" if "x \<in> set (List.enumerate 0 (db_words b))" for x
  proof -
    obtain i w where x: "x = (i, w)" by fastforce
    with that have i: "i < length (db_words b)" by (simp add: in_enumerate)
    have "sorted_wrt (\<lambda>k l. bit_page i k < bit_page i l) (word_bits w)"
      using sorted_word_bits [of w] by (rule sorted_wrt_mono_rel [rotated]) (use lt [OF i i] k64 in blast)
    then show ?thesis by (simp add: x sorted_wrt_map sorted_wrt_filter)
  qed
  moreover have "sorted_wrt (\<lambda>x y. \<forall>a \<in> set (?f x). \<forall>c \<in> set (?f y). a < c) (List.enumerate 0 (db_words b))"
    unfolding sorted_wrt_iff_nth_less
    using lt k64 by (auto simp: nth_enumerate_eq)
  ultimately show ?thesis unfolding drain_def snd_conv by (rule sorted_concat_map)
qed

lemma foldl_filter_map:
  "foldl (\<lambda>s k. let p = g k in if P p then c s p else s) s ks = foldl c s (filter P (map g ks))"
  by (induction ks arbitrary: s) (simp_all add: Let_def)

lemma foldl_concat_map: "foldl (\<lambda>s x. foldl c s (f x)) s xs = foldl c s (concat (map f xs))"
  by (induction xs arbitrary: s) simp_all

subsection \<open>Folding into a finer bitmap\<close>

lemma set_u64_range: "unat ` set (u64_range a b) = {unat a..<unat b}"
proof -
  have "unat (of_nat n :: u64) = n" if "n < unat b" for n
    using less_trans [OF that unat_lt64] by (simp add: unsigned_of_nat take_bit_nat_eq_self)
  then show ?thesis by (force simp: u64_range_def image_iff)
qed

lemma div_eq_range: "0 < r \<Longrightarrow> q div r = c \<longleftrightarrow> c * r \<le> q \<and> q < c * r + r" for q r c :: nat
  by (metis div_less_iff_less_mult less_eq_div_iff_mult_less_eq add.commute mult_Suc le_antisym less_Suc_eq_le le_refl lessI)

text \<open>
  The geometry of a fold: the same range, the coarse page a multiple \<open>r\<close> of the fine one, and
  a last coarse page that does not reach past the address space.
\<close>

definition fold_geometry :: "dirty_bitmap \<Rightarrow> dirty_bitmap \<Rightarrow> nat \<Rightarrow> bool" where
  "fold_geometry c f r \<longleftrightarrow> db_ram_start f = db_ram_start c \<and> db_ram_size f = db_ram_size c \<and>
     unat (db_page_size c) = r * unat (db_page_size f) \<and> 0 < r \<and>
     unat (db_ram_size c) + unat (db_page_size c) \<le> 2 ^ 64"

lemma fold_geometry_cong:
  "db_geometry f' = db_geometry f \<Longrightarrow> fold_geometry c f' r \<longleftrightarrow> fold_geometry c f r"
  unfolding fold_geometry_def using db_geometry_eqD [of f' f] by simp

lemma coarse_end_bound:
  assumes "db_inv c" "fold_geometry c f r" "db_inv f" "p < unat (db_page_count c)"
  shows "p * r + r < 2 ^ 64"
proof -
  let ?s = "unat (db_ram_size c)" and ?P = "unat (db_page_size c)"
  have pos: "0 < ?P" "0 < unat (db_page_size f)" using assms(1,3) db_inv_pos by blast+
  have "Suc p \<le> (?s + ?P - 1) div ?P" using assms(4) page_count_nat [OF assms(1)] by simp
  then have "Suc p * ?P \<le> (?s + ?P - 1) div ?P * ?P" by (rule mult_le_mono1)
  also have "\<dots> \<le> ?s + ?P - 1" by simp
  also have "\<dots> < 2 ^ 64"
  proof -
    have "?s + ?P \<le> 2 ^ 64" using assms(2) unfolding fold_geometry_def by blast
    with pos(1) show ?thesis by linarith
  qed
  finally have "Suc p * ?P < 2 ^ 64" .
  moreover have "Suc p * r \<le> Suc p * ?P"
    using assms(2) pos(2) by (intro mult_le_mono2) (simp add: fold_geometry_def)
  ultimately show ?thesis by simp
qed

lemma fold_bits_spec:
  assumes "db_inv c" "db_inv f" "fold_geometry c f (unat ratio)" "i < length (db_words c)"
    and "\<And>k. k \<in> set ks \<Longrightarrow> k < 64 \<and> i * 64 + k < unat (db_page_count c)"
  shows "db_inv (fold_bits c ratio i ks f) \<and> db_geometry (fold_bits c ratio i ks f) = db_geometry f \<and>
    dirty_set (fold_bits c ratio i ks f) = dirty_set f \<union>
      {q. q < unat (db_page_count f) \<and> (\<exists>k \<in> set ks. q div unat ratio = i * 64 + k)}"
  using assms(2,3,5)
proof (induction ks arbitrary: f)
  case (Cons k ks)
  let ?p = "i * 64 + k" and ?r = "unat ratio" and ?n = "unat (db_page_count f)"
  have k: "k < 64" "?p < unat (db_page_count c)" using Cons.prems(3) by auto
  have p: "unat (bit_page i k) = ?p" using unat_bit_page [OF assms(1,4) k(1)] .
  have b: "?p * ?r + ?r < 2 ^ 64" using coarse_end_bound [OF assms(1) Cons.prems(2,1) k(2)] .
  have start: "unat (bit_page i k * ratio) = ?p * ?r"
    using b p by (simp add: unat_word_ariths)
  have fin: "unat (bit_page i k * ratio + ratio) = ?p * ?r + ?r"
    using b start by (subst unat_plus_nowrap) simp_all
  define f' where "f' = set_all_dirty f (u64_range (bit_page i k * ratio) (min (bit_page i k * ratio + ratio) (db_page_count f)))"
  have f': "db_inv f'" "db_geometry f' = db_geometry f"
    "dirty_set f' = dirty_set f \<union> {q. q < ?n \<and> q div ?r = ?p}"
  proof -
    note s = set_all_dirty_spec [OF Cons.prems(1), of "u64_range (bit_page i k * ratio) (min (bit_page i k * ratio + ratio) (db_page_count f))", folded f'_def]
    show "db_inv f'" "db_geometry f' = db_geometry f" using s by blast+
    have "0 < ?r" using Cons.prems(2) by (simp add: fold_geometry_def)
    then have "{p \<in> {?p * ?r..<min (?p * ?r + ?r) ?n}. p < ?n} = {q. q < ?n \<and> q div ?r = ?p}"
      by (auto simp: div_eq_range)
    then show "dirty_set f' = dirty_set f \<union> {q. q < ?n \<and> q div ?r = ?p}"
      using s unfolding set_u64_range unat_min start fin by simp
  qed
  have n: "db_page_count f' = db_page_count f" using f'(2) db_geometry_eqD(4) by blast
  have "fold_bits c ratio i (k # ks) f = fold_bits c ratio i ks f'"
    using k(2) p by (simp add: Let_def f'_def word_le_nat_alt)
  moreover have "fold_geometry c f' ?r" using Cons.prems(2) fold_geometry_cong [OF f'(2)] by blast
  ultimately show ?case
    using Cons.IH [OF f'(1)] Cons.prems(3) f'(2,3) n by auto
qed simp

lemma fold_words_spec:
  assumes "db_inv c" "db_inv f" "fold_geometry c f (unat ratio)"
    and "set iws \<subseteq> set (List.enumerate 0 (db_words c))"
  defines "f' \<equiv> foldl (\<lambda>fine (i, w). fold_bits c ratio i (word_bits w) fine) f iws"
  shows "db_inv f' \<and> db_geometry f' = db_geometry f \<and> dirty_set f' = dirty_set f \<union>
      {q. q < unat (db_page_count f) \<and> (\<exists>i w k. (i, w) \<in> set iws \<and> bit w k \<and> q div unat ratio = i * 64 + k)}"
  using assms(2-4) unfolding f'_def
proof (induction iws arbitrary: f)
  case (Cons iw iws)
  obtain i w where iw: "iw = (i, w)" by fastforce
  with Cons.prems(3) have i: "i < length (db_words c)" "w = db_words c ! i" by (auto simp: in_enumerate)
  have ks: "k < 64 \<and> i * 64 + k < unat (db_page_count c)" if "k \<in> set (word_bits w)" for k
  proof -
    have k: "bit w k" "k < 64" using that by (auto simp: set_word_bits dest: bit_imp_le_length)
    then have "i * 64 + k \<in> dirty_set c" using i unfolding dirty_set_words by blast
    with k(2) show ?thesis using assms(1) by (auto simp: db_inv_def)
  qed
  define g where "g = fold_bits c ratio i (word_bits w) f"
  note g = fold_bits_spec [OF assms(1) Cons.prems(1,2) i(1), of "word_bits w", OF ks, folded g_def]
  have n: "db_page_count g = db_page_count f" using g db_geometry_eqD(4) by blast
  have geo: "fold_geometry c g (unat ratio)" using Cons.prems(2) g fold_geometry_cong by blast
  define h where "h = foldl (\<lambda>fine (i, w). fold_bits c ratio i (word_bits w) fine) g iws"
  have h: "db_inv h" "db_geometry h = db_geometry f" "dirty_set h = dirty_set g \<union>
      {q. q < unat (db_page_count f) \<and> (\<exists>i w k. (i, w) \<in> set iws \<and> bit w k \<and> q div unat ratio = i * 64 + k)}"
    using Cons.IH [of g] g geo Cons.prems(3) n by (simp_all add: h_def)
  have gs: "dirty_set g = dirty_set f \<union> {q. q < unat (db_page_count f) \<and> (\<exists>k. bit w k \<and> q div unat ratio = i * 64 + k)}"
    using g by (auto simp: set_word_bits)
  have eq: "foldl (\<lambda>fine (i, w). fold_bits c ratio i (word_bits w) fine) f (iw # iws) = h"
    by (simp add: iw h_def g_def)
  show ?case using h(1,2) unfolding eq h(3) gs by (auto simp: iw)
qed simp

lemma fold_into_finer_spec:
  assumes "db_inv c" "db_inv f" "unat (db_ram_size c) + unat (db_page_size c) \<le> 2 ^ 64"
    and "fold_into_finer c f = Inr f'"
  shows "db_inv f'" "db_geometry f' = db_geometry f"
    "\<exists>r. fold_geometry c f r \<and>
       dirty_set f' = dirty_set f \<union> {q. q < unat (db_page_count f) \<and> q div r \<in> dirty_set c}"
proof -
  let ?ratio = "db_page_size c div db_page_size f"
  from assms(4) have geo: "db_ram_start f = db_ram_start c" "db_ram_size f = db_ram_size c"
    "db_page_size f < db_page_size c" "db_page_size c mod db_page_size f = 0"
    and f': "f' = foldl (\<lambda>fine (i, w). fold_bits c ?ratio i (word_bits w) fine) f (List.enumerate 0 (db_words c))"
    by (auto simp: fold_into_finer_def Let_def split: if_splits)
  have "unat (db_page_size c) mod unat (db_page_size f) = 0" using geo(4) by (metis unat_mod unsigned_0)
  then have mul: "unat (db_page_size c) = unat ?ratio * unat (db_page_size f)"
    by (simp add: unat_div) (metis add_0_right div_mult_mod_eq)
  have "0 < unat ?ratio" using mul db_inv_pos [OF assms(1)] by (metis gr0I mult_0 less_irrefl)
  with mul geo(1,2) assms(3) have g: "fold_geometry c f (unat ?ratio)" by (simp add: fold_geometry_def)
  note s = fold_words_spec [OF assms(1,2) g order_refl, folded f']
  show "db_inv f'" "db_geometry f' = db_geometry f" using s by blast+
  have "(\<exists>i w k. (i, w) \<in> set (List.enumerate 0 (db_words c)) \<and> bit w k \<and> x = i * 64 + k) \<longleftrightarrow> x \<in> dirty_set c" for x
    unfolding dirty_set_words by (auto simp: in_enumerate)
  with s have "dirty_set f' = dirty_set f \<union> {q. q < unat (db_page_count f) \<and> q div unat ?ratio \<in> dirty_set c}"
    by simp
  with g show "\<exists>r. fold_geometry c f r \<and>
       dirty_set f' = dirty_set f \<union> {q. q < unat (db_page_count f) \<and> q div r \<in> dirty_set c}" by blast
qed

text \<open>In terms of addresses, a fold is a union.\<close>

lemma fold_into_finer_dirty:
  assumes "db_inv c" "db_inv f" "unat (db_ram_size c) + unat (db_page_size c) \<le> 2 ^ 64"
    and "fold_into_finer c f = Inr f'"
  shows "is_dirty f' a \<longleftrightarrow> is_dirty f a \<or> is_dirty c a"
proof -
  note s = fold_into_finer_spec [OF assms]
  from s(3) obtain r where r: "fold_geometry c f r"
    and ds: "dirty_set f' = dirty_set f \<union> {q. q < unat (db_page_count f) \<and> q div r \<in> dirty_set c}" by blast
  have same: "page_index_of f' a = page_index_of f a"
    using db_geometry_eqD [OF s(2)] by (simp add: page_index_of_def page_shift_def Let_def)
  show ?thesis
  proof (cases "page_index_of f a")
    case None
    then have "page_index_of c a = None"
      using r by (auto simp: page_index_of_spec [OF assms(1)] page_index_of_spec [OF assms(2)] fold_geometry_def split: if_splits)
    with None same show ?thesis by (simp add: is_dirty_def)
  next
    case (Some q)
    note q = page_index_less [OF assms(2) Some]
    obtain p where p: "page_index_of c a = Some p"
      using r q(3,4) by (auto simp: page_index_of_spec [OF assms(1)] fold_geometry_def)
    have "unat (db_page_size c) = unat (db_page_size f) * r" "db_ram_start f = db_ram_start c"
      using r by (simp_all add: fold_geometry_def)
    then have "unat p = unat q div r"
      using page_index_less(1) [OF assms(1) p] q(1) by (simp only: div_mult2_eq)
    then show ?thesis
      using Some p same q(2) ds by (auto simp: is_dirty_iff assms(1,2) s(1))
  qed
qed

subsection \<open>Properties\<close>

definition mark_all :: "dirty_bitmap \<Rightarrow> u64 list \<Rightarrow> dirty_bitmap" where
  "mark_all = foldl (\<lambda>b a. fst (set_dirty b a))"

definition in_range :: "u64 \<Rightarrow> u64 \<Rightarrow> u64 \<Rightarrow> bool" where
  "in_range start sz a \<longleftrightarrow> start \<le> a \<and> a - start < sz"

lemma page_index_same: "db_geometry b' = db_geometry b \<Longrightarrow> page_index_of b' a = page_index_of b a"
  using db_geometry_eqD [of b' b] by (simp add: page_index_of_def page_shift_def Let_def)

lemma mark_all_spec:
  assumes "db_inv b"
  shows "db_inv (mark_all b as) \<and> db_geometry (mark_all b as) = db_geometry b \<and>
    dirty_set (mark_all b as) = dirty_set b \<union> {unat p | p a. a \<in> set as \<and> page_index_of b a = Some p}"
  using assms
proof (induction as arbitrary: b)
  case (Cons a as)
  obtain b' r where s: "set_dirty b a = (b', r)" by fastforce
  note b' = set_dirty_spec [OF Cons.prems s]
  then have "page_index_of b' x = page_index_of b x" for x using page_index_same by blast
  then show ?case using Cons.IH [of b'] b' s by (auto simp: mark_all_def split: option.splits)
qed (simp add: mark_all_def)

lemma page_index_in_range:
  assumes "db_inv b"
  shows "{unat p | p a. a \<in> A \<and> page_index_of b a = Some p} =
    {unat (a - db_ram_start b) div unat (db_page_size b) | a. a \<in> A \<and> in_range (db_ram_start b) (db_ram_size b) a}"
proof -
  have "(\<exists>p. page_index_of b a = Some p \<and> x = unat p) \<longleftrightarrow>
      in_range (db_ram_start b) (db_ram_size b) a \<and> x = unat (a - db_ram_start b) div unat (db_page_size b)" for a x
  proof (cases "page_index_of b a")
    case None
    then show ?thesis
      by (auto simp: page_index_of_spec [OF assms] in_range_def word_less_nat_alt split: if_splits)
  next
    case (Some p)
    with page_index_less [OF assms Some] show ?thesis by (auto simp: in_range_def word_less_nat_alt)
  qed
  then show ?thesis by blast
qed

text \<open>
  C24. The dirty bitmap is exact: whatever addresses are marked on a fresh bitmap, in whatever
  order and however often, a drain returns, each once and in increasing order, the numbers of
  exactly the pages that hold a marked address of the tracked range, and leaves every page
  clean.
\<close>

theorem bitmap_drain_exact:
  assumes "dirty_bitmap_new start sz ps = Inr b"
  shows "sorted_wrt (<) (snd (drain (mark_all b as))) \<and>
    unat ` set (snd (drain (mark_all b as))) =
      {unat (a - start) div unat ps | a. a \<in> set as \<and> in_range start sz a} \<and>
    (\<forall>a. \<not> is_dirty (fst (drain (mark_all b as))) a)"
proof -
  note b = dirty_bitmap_new_spec [OF assms]
  let ?m = "mark_all b as"
  have m: "db_inv ?m" "dirty_set ?m = {unat p | p a. a \<in> set as \<and> page_index_of b a = Some p}"
    using mark_all_spec [OF b(1)] b(2) by simp_all
  have "\<not> is_dirty (fst (drain ?m)) a" for a
    using drain_clears [OF m(1)] by (simp add: is_dirty_iff)
  then show ?thesis
    using drain_sorted [OF m(1)] drain_set [OF m(1)] m(2) page_index_in_range [OF b(1), of "set as"] b(3-5) by simp
qed

theorem bitmap_drain_exact_witness:
  "\<exists>b. dirty_bitmap_new 0x80000000 0x50001 0x4000 = Inr b \<and>
    unat ` set (snd (drain (mark_all b [0x80050000, 0x80000001, 0x80000002, 0x90000000]))) = {0, 20}"
proof -
  have "\<not> isl (dirty_bitmap_new 0x80000000 0x50001 0x4000)" by code_simp
  then obtain b where b: "dirty_bitmap_new 0x80000000 0x50001 0x4000 = Inr b"
    by (cases "dirty_bitmap_new 0x80000000 0x50001 0x4000") auto
  let ?as = "[0x80050000, 0x80000001, 0x80000002, 0x90000000] :: u64 list"
  let ?f = "\<lambda>a. unat (a - 0x80000000) div unat (0x4000 :: u64)"
  have "{?f a | a. a \<in> set ?as \<and> in_range 0x80000000 0x50001 a} = ?f ` set (filter (in_range 0x80000000 0x50001) ?as)"
    unfolding set_filter by blast
  also have "\<dots> = {0, 20}" by (simp add: in_range_def insert_commute)
  finally show ?thesis using bitmap_drain_exact [OF b, of ?as] b by auto
qed

text \<open>
  The allocation-free drain is equivalent to the plain one: \<open>drain_into\<close> calls its callback
  on the pages that \<open>drain\<close> returns, in that order, and leaves the same bitmap.
\<close>

theorem drain_into_equiv:
  "drain_into b callback s = (fst (drain b), foldl callback s (snd (drain b)))"
  unfolding drain_into_def drain_def fst_conv snd_conv foldl_filter_map
  by (simp add: foldl_concat_map [symmetric] split_def)

end
