(* ===== verification/Arch_Layout.thy ===== *)
theory Arch_Layout
  imports Squib_Prelude
begin

text \<open>
  The fixed guest-physical layout, \<open>src/crates/arch/src/layout.rs\<close>: the addresses of the
  interrupt controller, the serial port, the virtio-MMIO window and RAM, the three page sizes,
  and the run-time check that the redistributors of the configured vCPUs fit.
\<close>

definition MAX_SUPPORTED_VCPUS :: u32 where "MAX_SUPPORTED_VCPUS = 32"

definition MSI_REGION_BASE :: u64 where "MSI_REGION_BASE = 0x05000000"
definition GICD_BASE :: u64 where "GICD_BASE = 0x08000000"
definition GICD_RESERVED_SIZE :: u64 where "GICD_RESERVED_SIZE = 0x00010000"
definition GICR_BASE :: u64 where "GICR_BASE = 0x080A0000"
definition GICR_RESERVED_END :: u64 where "GICR_RESERVED_END = 0x0E0A0000"
definition PL011_BASE :: u64 where "PL011_BASE = 0x0E0A0000"
definition PL011_SIZE :: u64 where "PL011_SIZE = 0x1000"
definition LAYOUT_VIRTIO_MMIO_BASE :: u64 where "LAYOUT_VIRTIO_MMIO_BASE = 0x0F000000"
definition VIRTIO_MMIO_SIZE :: u64 where "VIRTIO_MMIO_SIZE = 32 * 0x1000"
definition DRAM_BASE :: u64 where "DRAM_BASE = 0x80000000"
definition DRAM_MAX_END :: u64 where "DRAM_MAX_END = 0x00FF80000000 + DRAM_BASE"
definition KERNEL_LOAD_OFFSET :: u64 where "KERNEL_LOAD_OFFSET = 0x00200000"
definition INITRD_FALLBACK_OFFSET :: u64 where "INITRD_FALLBACK_OFFSET = 0x10000000"
definition FDT_MAX_SIZE :: u64 where "FDT_MAX_SIZE = 0x00200000"
definition GICR_REDISTRIBUTOR_SIZE_PER_VCPU :: u64 where "GICR_REDISTRIBUTOR_SIZE_PER_VCPU = 0x00020000"

lemmas layout_consts =
  MAX_SUPPORTED_VCPUS_def MSI_REGION_BASE_def GICD_BASE_def GICD_RESERVED_SIZE_def GICR_BASE_def
  GICR_RESERVED_END_def PL011_BASE_def PL011_SIZE_def LAYOUT_VIRTIO_MMIO_BASE_def
  VIRTIO_MMIO_SIZE_def DRAM_BASE_def DRAM_MAX_END_def KERNEL_LOAD_OFFSET_def
  INITRD_FALLBACK_OFFSET_def FDT_MAX_SIZE_def GICR_REDISTRIBUTOR_SIZE_PER_VCPU_def

text \<open>The assertions that the source evaluates at compile time.\<close>

definition layout_asserts :: bool where
  "layout_asserts \<longleftrightarrow>
     GICR_BASE + ucast MAX_SUPPORTED_VCPUS * GICR_REDISTRIBUTOR_SIZE_PER_VCPU \<le> GICR_RESERVED_END \<and>
     PL011_BASE = GICR_RESERVED_END \<and>
     LAYOUT_VIRTIO_MMIO_BASE \<ge> PL011_BASE + PL011_SIZE \<and>
     LAYOUT_VIRTIO_MMIO_BASE + VIRTIO_MMIO_SIZE \<le> DRAM_BASE"

lemma layout_asserts_hold: "layout_asserts"
  by (simp add: layout_asserts_def layout_consts)

subsection \<open>Page geometry\<close>

record page_geometry =
  host_page :: u64
  hvf_stage2_granule :: u64
  tracking_page_default :: u64
  tracking_page_hot :: u64

definition APPLE_SILICON :: page_geometry where
  "APPLE_SILICON =
     \<lparr>host_page = 16 * 1024, hvf_stage2_granule = 16 * 1024,
      tracking_page_default = 2 * 1024 * 1024, tracking_page_hot = 16 * 1024\<rparr>"

record memory_layout =
  ml_gicd_base :: u64
  ml_gicr_base :: u64
  ml_pl011_base :: u64
  ml_virtio_mmio_base :: u64
  ml_virtio_mmio_stride :: u64
  ml_virtio_mmio_slots :: u32
  ml_dram_base :: u64
  ml_page_geometry :: page_geometry

definition MEMORY_LAYOUT :: memory_layout where
  "MEMORY_LAYOUT =
     \<lparr>ml_gicd_base = GICD_BASE, ml_gicr_base = GICR_BASE, ml_pl011_base = PL011_BASE,
      ml_virtio_mmio_base = LAYOUT_VIRTIO_MMIO_BASE, ml_virtio_mmio_stride = 0x1000,
      ml_virtio_mmio_slots = 32, ml_dram_base = DRAM_BASE, ml_page_geometry = APPLE_SILICON\<rparr>"

subsection \<open>The overlap check\<close>

datatype layout_overlap = LayoutOk | GicrOverlapsMmio u32 u64 u64

definition overlap_check :: "u32 \<Rightarrow> u64 \<Rightarrow> layout_overlap" where
  "overlap_check vcpu_count redistributor_size_per_vcpu =
     (let live_end = saturating_add GICR_BASE (saturating_mul (ucast vcpu_count) redistributor_size_per_vcpu)
      in if live_end > PL011_BASE then GicrOverlapsMmio vcpu_count live_end PL011_BASE else LayoutOk)"

lemma overlap_check_ok:
  "overlap_check n sz = LayoutOk \<longleftrightarrow> unat GICR_BASE + unat n * unat sz \<le> unat PL011_BASE"
  by (auto simp: overlap_check_def Let_def word_less_nat_alt unat_saturating_add unat_saturating_mul
      layout_consts min_def)

end
