(* ===== verification/Dirty_Tracking.thy ===== *)
theory Dirty_Tracking
  imports Dirty_Bitmap Arch_Layout
begin

text \<open>
  Adaptive dirty-page tracking, \<open>src/crates/snapshot/src/dirty.rs\<close>: the controller that steps
  down from 2 MiB to 16 KiB tracking pages, and the tracked region that combines it with the
  bitmap. \<open>Arc<DirtyBitmap>\<close> handles are indices into the bitmaps a region ever allocated,
  because \<open>mark_dirty\<close> keeps a handle across its lock; the clock is an argument (nanoseconds).

  The lemmas show that stepping down loses no page and what a region reports after any
  sequence of marks and ticks, and exhibit the interleaving in which a mark is lost.
\<close>

unbundle bit_operations_syntax

subsection \<open>The adaptive controller\<close>

datatype tracking_granule = Coarse | Fine

fun granule_page_size :: "tracking_granule \<Rightarrow> page_geometry \<Rightarrow> u64" where
  "granule_page_size Coarse geom = tracking_page_default geom"
| "granule_page_size Fine geom = tracking_page_hot geom"

definition DEFAULT_STEP_DOWN_THRESHOLD :: u32 where "DEFAULT_STEP_DOWN_THRESHOLD = 32"

definition ADAPTIVE_WINDOW :: nat where "ADAPTIVE_WINDOW = 100000000"

record adaptive_controller =
  ac_threshold :: u32
  ac_window :: nat
  ac_block_faults :: "u32 list"
  ac_last_reset :: nat
  ac_granule :: tracking_granule

definition adaptive_with_threshold :: "u64 \<Rightarrow> u32 \<Rightarrow> nat \<Rightarrow> adaptive_controller" where
  "adaptive_with_threshold block_count threshold now =
     \<lparr>ac_threshold = threshold, ac_window = ADAPTIVE_WINDOW,
      ac_block_faults = replicate (unat block_count) 0, ac_last_reset = now, ac_granule = Coarse\<rparr>"

definition adaptive_new :: "u64 \<Rightarrow> nat \<Rightarrow> adaptive_controller" where
  "adaptive_new block_count now = adaptive_with_threshold block_count DEFAULT_STEP_DOWN_THRESHOLD now"

definition record_fault :: "adaptive_controller \<Rightarrow> u64 \<Rightarrow> adaptive_controller" where
  "record_fault self block_idx =
     (let idx = unat block_idx
      in if idx < length (ac_block_faults self)
         then self\<lparr>ac_block_faults := (ac_block_faults self)[idx := ac_block_faults self ! idx + 1]\<rparr>
         else self)"

definition adaptive_tick :: "adaptive_controller \<Rightarrow> nat \<Rightarrow> adaptive_controller \<times> tracking_granule" where
  "adaptive_tick self now =
     (if now - ac_last_reset self < ac_window self then (self, ac_granule self)
      else
        let max_in_window = foldl (\<lambda>m count. if count > m then count else m) 0 (ac_block_faults self);
            self = self\<lparr>ac_block_faults := map (\<lambda>_. 0) (ac_block_faults self), ac_last_reset := now\<rparr>;
            self = (if max_in_window > ac_threshold self \<and> ac_granule self = Coarse
                    then self\<lparr>ac_granule := Fine\<rparr> else self)
        in (self, ac_granule self))"

subsection \<open>Tracked regions\<close>

record tracked_region =
  tr_bitmaps :: "dirty_bitmap list"
  tr_active :: nat
  tr_controller :: adaptive_controller
  tr_geometry :: page_geometry

definition tracked_with_threshold ::
  "u64 \<Rightarrow> u64 \<Rightarrow> page_geometry \<Rightarrow> u32 \<Rightarrow> nat \<Rightarrow> snapshot_error + tracked_region" where
  "tracked_with_threshold ram_start ram_size geometry threshold now =
     (case dirty_bitmap_new ram_start ram_size (tracking_page_default geometry) of
        Inl e \<Rightarrow> Inl e
      | Inr bitmap \<Rightarrow>
          Inr \<lparr>tr_bitmaps = [bitmap], tr_active = 0,
               tr_controller = adaptive_with_threshold (db_page_count bitmap) threshold now,
               tr_geometry = geometry\<rparr>)"

definition tracked_new :: "u64 \<Rightarrow> u64 \<Rightarrow> page_geometry \<Rightarrow> nat \<Rightarrow> snapshot_error + tracked_region" where
  "tracked_new ram_start ram_size geometry now =
     (case dirty_bitmap_new ram_start ram_size (tracking_page_default geometry) of
        Inl e \<Rightarrow> Inl e
      | Inr bitmap \<Rightarrow>
          Inr \<lparr>tr_bitmaps = [bitmap], tr_active = 0,
               tr_controller = adaptive_new (db_page_count bitmap) now, tr_geometry = geometry\<rparr>)"

abbreviation active_bitmap :: "tracked_region \<Rightarrow> dirty_bitmap" where
  "active_bitmap self \<equiv> tr_bitmaps self ! tr_active self"

text \<open>
  \<open>mark_dirty\<close> has two atomic parts: up to the clone of the \<open>Arc\<close> under the read lock, and
  the \<open>set_dirty\<close> on that clone after the lock is gone.
\<close>

definition mark_dirty_begin :: "tracked_region \<Rightarrow> u64 \<Rightarrow> tracked_region \<times> nat" where
  "mark_dirty_begin self addr =
     (let self = (case checked_sub addr (db_ram_start (active_bitmap self)) of
                    None \<Rightarrow> self
                  | Some off \<Rightarrow>
                      self\<lparr>tr_controller := record_fault (tr_controller self)
                             (off div tracking_page_default (tr_geometry self))\<rparr>)
      in (self, tr_active self))"

definition mark_dirty_finish :: "tracked_region \<Rightarrow> nat \<Rightarrow> u64 \<Rightarrow> tracked_region \<times> bool" where
  "mark_dirty_finish self h addr =
     (let (bitmap, fresh) = set_dirty (tr_bitmaps self ! h) addr
      in (self\<lparr>tr_bitmaps := (tr_bitmaps self)[h := bitmap]\<rparr>, fresh))"

definition mark_dirty :: "tracked_region \<Rightarrow> u64 \<Rightarrow> tracked_region \<times> bool" where
  "mark_dirty self addr =
     (let (self, h) = mark_dirty_begin self addr in mark_dirty_finish self h addr)"

definition tick_adaptive :: "tracked_region \<Rightarrow> nat \<Rightarrow> tracked_region \<times> tracking_granule" where
  "tick_adaptive self now =
     (let (controller, new_granule) = adaptive_tick (tr_controller self) now;
          self = self\<lparr>tr_controller := controller\<rparr>;
          current = active_bitmap self;
          target_size = granule_page_size new_granule (tr_geometry self)
      in if target_size \<noteq> db_page_size current then
           (case dirty_bitmap_new (db_ram_start current) (db_ram_size current) target_size of
              Inl _ \<Rightarrow> (self, ac_granule controller)
            | Inr fine \<Rightarrow>
                (case fold_into_finer current fine of
                   Inl _ \<Rightarrow> (self, new_granule)
                 | Inr fine \<Rightarrow>
                     (self\<lparr>tr_bitmaps := tr_bitmaps self @ [fine], tr_active := length (tr_bitmaps self)\<rparr>,
                      new_granule)))
         else (self, new_granule))"

subsection \<open>Marks and ticks\<close>

lemma set_dirty_dirty:
  assumes "db_inv b" "set_dirty b m = (b', r)"
  shows "is_dirty b' a \<longleftrightarrow> is_dirty b a \<or> (\<exists>p. page_index_of b m = Some p \<and> page_index_of b a = Some p)"
proof -
  note b' = set_dirty_spec [OF assms]
  then have "page_index_of b' a = page_index_of b a" using page_index_same by blast
  moreover have "unat p = unat q \<longleftrightarrow> p = q" for p q :: u64 by (auto intro: unsigned_word_eqI)
  ultimately show ?thesis
    using b' assms(1) by (auto simp: is_dirty_iff split: option.splits)
qed

definition geometry_ok :: "page_geometry \<Rightarrow> u64 \<Rightarrow> bool" where
  "geometry_ok g sz \<longleftrightarrow> is_power_of_two (tracking_page_default g) \<and> is_power_of_two (tracking_page_hot g) \<and>
     tracking_page_hot g \<le> tracking_page_default g \<and> unat sz + unat (tracking_page_default g) \<le> 2 ^ 64"

lemma power_of_two_dvd:
  assumes "is_power_of_two a" "is_power_of_two b" "a \<le> b" shows "unat a dvd unat b"
proof -
  from assms obtain i j where "unat a = 2 ^ i" "unat b = 2 ^ j" by (auto simp: is_power_of_two_iff)
  moreover from this have "i \<le> j" using assms(3) by (simp add: word_le_nat_alt)
  ultimately show ?thesis by (simp add: le_imp_power_dvd)
qed

definition region_inv :: "u64 \<Rightarrow> u64 \<Rightarrow> page_geometry \<Rightarrow> u64 set \<Rightarrow> tracked_region \<Rightarrow> bool" where
  "region_inv start sz g M r \<longleftrightarrow> tr_active r < length (tr_bitmaps r) \<and> tr_geometry r = g \<and>
     db_inv (active_bitmap r) \<and> db_ram_start (active_bitmap r) = start \<and> db_ram_size (active_bitmap r) = sz \<and>
     (db_page_size (active_bitmap r) = tracking_page_default g \<or>
      db_page_size (active_bitmap r) = tracking_page_hot g \<and> ac_granule (tr_controller r) = Fine) \<and>
     (\<forall>m \<in> M. in_range start sz m \<longrightarrow> is_dirty (active_bitmap r) m) \<and>
     (\<forall>a. is_dirty (active_bitmap r) a \<longrightarrow>
        (\<exists>m \<in> M. in_range start sz m \<and>
           unat (a - start) div unat (tracking_page_default g) = unat (m - start) div unat (tracking_page_default g)))"

lemma adaptive_tick_granule:
  "adaptive_tick c now = (c', gr) \<Longrightarrow> ac_granule c' = gr \<and> (ac_granule c = Fine \<longrightarrow> gr = Fine)"
  by (auto simp: adaptive_tick_def Let_def split: if_splits)

lemma in_range_page: "db_inv b \<Longrightarrow> in_range (db_ram_start b) (db_ram_size b) a \<Longrightarrow> \<exists>p. page_index_of b a = Some p"
  by (simp add: page_index_of_spec in_range_def word_less_nat_alt)

lemma region_inv_mark:
  assumes "region_inv start sz g M r" "geometry_ok g sz" "mark_dirty r m = (r', fresh)"
  shows "region_inv start sz g (insert m M) r'"
proof -
  let ?b = "active_bitmap r"
  obtain b' where sd: "set_dirty ?b m = (b', fresh)"
    using assms(3) by (auto simp: mark_dirty_def mark_dirty_begin_def mark_dirty_finish_def Let_def
        split: prod.splits option.splits)
  have r': "tr_bitmaps r' = (tr_bitmaps r)[tr_active r := b']" "tr_active r' = tr_active r"
    "tr_geometry r' = tr_geometry r" "ac_granule (tr_controller r') = ac_granule (tr_controller r)"
    using assms(3) sd by (auto simp: mark_dirty_def mark_dirty_begin_def mark_dirty_finish_def Let_def
        record_fault_def split: prod.splits option.splits)
  from assms(1) have act: "tr_active r < length (tr_bitmaps r)" and inv: "db_inv ?b"
    and geo: "db_ram_start ?b = start" "db_ram_size ?b = sz"
    and ps: "db_page_size ?b = tracking_page_default g \<or>
      db_page_size ?b = tracking_page_hot g \<and> ac_granule (tr_controller r) = Fine"
    by (simp_all add: region_inv_def)
  have ab: "active_bitmap r' = b'" using act by (simp add: r')
  note b' = set_dirty_spec [OF inv sd]
  note d = set_dirty_dirty [OF inv sd]
  have dvd: "unat (db_page_size ?b) dvd unat (tracking_page_default g)"
    using ps assms(2) power_of_two_dvd by (auto simp: geometry_ok_def)
  have low: "is_dirty b' x" if "x \<in> insert m M" "in_range start sz x" for x
    using that assms(1) in_range_page [OF inv, of m] geo unfolding d by (auto simp: region_inv_def)
  have up: "\<exists>x \<in> insert m M. in_range start sz x \<and>
      unat (a - start) div unat (tracking_page_default g) = unat (x - start) div unat (tracking_page_default g)"
    if "is_dirty b' a" for a
  proof (cases "is_dirty ?b a")
    case True
    with assms(1) show ?thesis unfolding region_inv_def by blast
  next
    case False
    with that d obtain p where p: "page_index_of ?b m = Some p" "page_index_of ?b a = Some p" by blast
    obtain k where k: "unat (tracking_page_default g) = unat (db_page_size ?b) * k" using dvd by (elim dvdE)
    note pm = page_index_less [OF inv p(1)] and pa = page_index_less [OF inv p(2)]
    have "unat (a - start) div unat (db_page_size ?b) = unat (m - start) div unat (db_page_size ?b)"
      using pm(1) pa(1) geo by simp
    then have "unat (a - start) div unat (tracking_page_default g) = unat (m - start) div unat (tracking_page_default g)"
      unfolding k div_mult2_eq by (rule arg_cong)
    then show ?thesis using pm(3,4) geo by (auto simp: in_range_def word_less_nat_alt)
  qed
  show ?thesis
    using low up act b' db_geometry_eqD [of b' ?b] geo ps assms(1)
    unfolding region_inv_def ab by (simp add: r')
qed

lemma region_inv_tick:
  assumes "region_inv start sz g M r" "geometry_ok g sz" "tick_adaptive r now = (r', gr)"
  shows "region_inv start sz g M r'"
proof -
  let ?b = "active_bitmap r"
  obtain c' gr' where t: "adaptive_tick (tr_controller r) now = (c', gr')" by fastforce
  note gran = adaptive_tick_granule [OF t]
  have keep: "region_inv start sz g M (r\<lparr>tr_controller := c'\<rparr>)"
    using assms(1) gran by (auto simp: region_inv_def)
  show ?thesis
  proof (cases "r' = r\<lparr>tr_controller := c'\<rparr>")
    case True
    with keep show ?thesis by simp
  next
    case False
    have g: "tr_geometry r = g" using assms(1) by (simp add: region_inv_def)
    from False assms(3) obtain f f' where
      f: "dirty_bitmap_new (db_ram_start ?b) (db_ram_size ?b) (granule_page_size gr' g) = Inr f"
      and fold: "fold_into_finer ?b f = Inr f'" and ne: "granule_page_size gr' g \<noteq> db_page_size ?b"
      and r': "r' = r\<lparr>tr_controller := c', tr_bitmaps := tr_bitmaps r @ [f'], tr_active := length (tr_bitmaps r)\<rparr>"
      by (auto simp: tick_adaptive_def Let_def t g split: if_splits sum.splits)
    have inv: "db_inv ?b" and sz: "db_ram_size ?b = sz" "db_ram_start ?b = start"
      and ps: "db_page_size ?b = tracking_page_default g \<or>
        db_page_size ?b = tracking_page_hot g \<and> ac_granule (tr_controller r) = Fine"
      using assms(1) by (simp_all add: region_inv_def)
    have fine: "gr' = Fine" and def: "db_page_size ?b = tracking_page_default g"
      using ne ps gran by (cases gr'; auto)+
    note fs = dirty_bitmap_new_spec [OF f]
    have bound: "unat (db_ram_size ?b) + unat (db_page_size ?b) \<le> 2 ^ 64"
      using assms(2) unfolding sz def geometry_ok_def by blast
    note spec = fold_into_finer_spec(1,2) [OF inv fs(1) bound fold]
    have "\<not> is_dirty f a" for a using fs(1,2) by (simp add: is_dirty_iff)
    then have d: "is_dirty f' a \<longleftrightarrow> is_dirty ?b a" for a
      using fold_into_finer_dirty [OF inv fs(1) bound fold] by blast
    have ab: "active_bitmap r' = f'" by (simp add: r')
    show ?thesis
      using assms(1) spec(1) fs(3-5) db_geometry_eqD [OF spec(2)] fine gran
      unfolding region_inv_def ab d by (simp add: r' sz)
  qed
qed

lemma region_inv_new:
  assumes "tracked_with_threshold start sz g threshold now = Inr r"
  shows "region_inv start sz g {} r"
proof -
  from assms obtain b where b: "dirty_bitmap_new start sz (tracking_page_default g) = Inr b"
    and r: "r = \<lparr>tr_bitmaps = [b], tr_active = 0, tr_controller = adaptive_with_threshold (db_page_count b) threshold now, tr_geometry = g\<rparr>"
    by (auto simp: tracked_with_threshold_def split: sum.splits)
  from dirty_bitmap_new_spec [OF b] show ?thesis
    by (simp add: region_inv_def r is_dirty_iff)
qed

datatype region_op = Mark u64 | Tick nat

fun region_step :: "tracked_region \<Rightarrow> region_op \<Rightarrow> tracked_region" where
  "region_step r (Mark a) = fst (mark_dirty r a)"
| "region_step r (Tick now) = fst (tick_adaptive r now)"

lemma region_inv_steps:
  assumes "region_inv start sz g M r" "geometry_ok g sz"
  shows "region_inv start sz g (M \<union> {a. Mark a \<in> set ops}) (foldl region_step r ops)"
  using assms(1)
proof (induction ops arbitrary: M r)
  case (Cons op ops)
  let ?M = "case op of Mark a \<Rightarrow> insert a M | Tick _ \<Rightarrow> M"
  have "region_inv start sz g ?M (region_step r op)"
    using region_inv_mark [OF Cons.prems assms(2)] region_inv_tick [OF Cons.prems assms(2)]
    by (cases op) (auto simp: prod_eq_iff intro: surjective_pairing)
  moreover have "?M \<union> {a. Mark a \<in> set ops} = M \<union> {a. Mark a \<in> set (op # ops)}"
    by (cases op) auto
  ultimately show ?case using Cons.IH [of ?M "region_step r op"] by simp
qed simp

subsection \<open>Properties\<close>

text \<open>
  C8. Adaptive tracking neither loses nor invents dirty memory: after any sequence of complete
  marks and ticks, at any times and with any threshold, across the step-down from 2 MiB to
  16 KiB pages, every marked address of the region is reported dirty by the active bitmap,
  and an address it reports dirty lies in the same default tracking page as a marked one.
\<close>

theorem region_tracks_exactly:
  assumes "tracked_with_threshold start sz g threshold now = Inr r" "geometry_ok g sz"
  shows "(\<forall>a. Mark a \<in> set ops \<and> in_range start sz a \<longrightarrow> is_dirty (active_bitmap (foldl region_step r ops)) a) \<and>
    (\<forall>a. is_dirty (active_bitmap (foldl region_step r ops)) a \<longrightarrow>
      (\<exists>m. Mark m \<in> set ops \<and> in_range start sz m \<and>
        unat (a - start) div unat (tracking_page_default g) = unat (m - start) div unat (tracking_page_default g)))"
  using region_inv_steps [OF region_inv_new [OF assms(1)] assms(2), of ops]
  unfolding region_inv_def by auto

text \<open>A small geometry for examples: 64-byte pages that step down to 16-byte ones.\<close>

definition demo_geometry :: page_geometry where
  "demo_geometry = \<lparr>host_page = 16, hvf_stage2_granule = 16, tracking_page_default = 64, tracking_page_hot = 16\<rparr>"

definition demo_region :: tracked_region where
  "demo_region = \<lparr>tr_bitmaps = [\<lparr>db_ram_start = 0, db_ram_size = 256, db_page_size = 64, db_page_count = 4, db_words = [0]\<rparr>],
     tr_active = 0, tr_controller = adaptive_with_threshold 4 0 0, tr_geometry = demo_geometry\<rparr>"

lemma demo_region_new: "tracked_with_threshold 0 256 demo_geometry 0 0 = Inr demo_region"
proof -
  have "dirty_bitmap_new 0 256 64 = Inr \<lparr>db_ram_start = 0, db_ram_size = 256, db_page_size = 64, db_page_count = 4, db_words = [0]\<rparr>"
    by code_simp
  then show ?thesis by (simp add: tracked_with_threshold_def demo_geometry_def demo_region_def)
qed

theorem region_tracks_exactly_witness:
  "is_dirty (active_bitmap (foldl region_step demo_region [Mark 70, Tick 100000000, Mark 10])) 70 \<and>
   \<not> is_dirty (active_bitmap (foldl region_step demo_region [Mark 70, Tick 100000000, Mark 10])) 200"
proof -
  have ok: "geometry_ok demo_geometry 256"
    unfolding geometry_ok_def by (intro conjI; (simp add: demo_geometry_def; fail)?) code_simp+
  note tracked = region_tracks_exactly [OF demo_region_new ok, of "[Mark 70, Tick 100000000, Mark 10]"]
  have "is_dirty (active_bitmap (foldl region_step demo_region [Mark 70, Tick 100000000, Mark 10])) 70"
    using tracked by (simp add: in_range_def)
  moreover have "\<not> is_dirty (active_bitmap (foldl region_step demo_region [Mark 70, Tick 100000000, Mark 10])) 200"
    using conjunct2 [OF tracked] by (auto simp: demo_geometry_def)
  ultimately show ?thesis by blast
qed

text \<open>
  C34. A mark can be lost when it races with a step-down: \<open>mark_dirty\<close> clones the bitmap handle
  under the lock and sets the bit after it. If a tick that folds and replaces the bitmap comes
  between the two, the mark reports a clean-to-dirty transition, but the address is clean in
  the bitmap that is active from then on.
\<close>

theorem mark_lost_by_tick:
  "\<exists>r a now. let (r1, h) = mark_dirty_begin r a;
       (r2, g) = tick_adaptive r1 now;
       (r3, fresh) = mark_dirty_finish r2 h a
     in in_range (db_ram_start (active_bitmap r)) (db_ram_size (active_bitmap r)) a \<and>
        g = Fine \<and> fresh \<and> \<not> is_dirty (active_bitmap r3) a"
proof (intro exI)
  let ?c = "\<lparr>db_ram_start = 0, db_ram_size = 256, db_page_size = 64, db_page_count = 4, db_words = [0]\<rparr> :: dirty_bitmap"
  let ?f = "\<lparr>db_ram_start = 0, db_ram_size = 256, db_page_size = 16, db_page_count = 16, db_words = [0]\<rparr> :: dirty_bitmap"
  let ?ac = "\<lparr>ac_threshold = 0, ac_window = ADAPTIVE_WINDOW, ac_block_faults = [1, 0, 0, 0], ac_last_reset = 0, ac_granule = Coarse\<rparr> :: adaptive_controller"
  let ?ac' = "?ac\<lparr>ac_block_faults := [0, 0, 0, 0], ac_last_reset := ADAPTIVE_WINDOW, ac_granule := Fine\<rparr>"
  have blocks: "replicate 4 (0 :: u32) = [0, 0, 0, 0]" by code_simp
  have begin_step: "mark_dirty_begin demo_region 10 = (demo_region\<lparr>tr_controller := ?ac\<rparr>, 0)"
    by (simp add: mark_dirty_begin_def demo_region_def demo_geometry_def adaptive_with_threshold_def
        checked_sub_def record_fault_def blocks)
  have tick: "adaptive_tick ?ac ADAPTIVE_WINDOW = (?ac', Fine)"
    by (simp add: adaptive_tick_def Let_def)
  have new: "dirty_bitmap_new 0 256 16 = Inr ?f" and fold: "fold_into_finer ?c ?f = Inr ?f" by code_simp+
  have tick_step: "tick_adaptive (demo_region\<lparr>tr_controller := ?ac\<rparr>) ADAPTIVE_WINDOW =
      (demo_region\<lparr>tr_controller := ?ac', tr_bitmaps := [?c, ?f], tr_active := 1\<rparr>, Fine)"
    using tick new fold by (simp add: tick_adaptive_def demo_region_def demo_geometry_def Let_def)
  have set_old: "snd (set_dirty ?c 10)" and clean: "\<not> is_dirty ?f 10" by code_simp+
  then obtain old where old: "set_dirty ?c 10 = (old, True)" by (cases "set_dirty ?c 10") simp
  show "let (r1, h) = mark_dirty_begin demo_region 10;
       (r2, g) = tick_adaptive r1 ADAPTIVE_WINDOW;
       (r3, fresh) = mark_dirty_finish r2 h 10
     in in_range (db_ram_start (active_bitmap demo_region)) (db_ram_size (active_bitmap demo_region)) 10 \<and>
        g = Fine \<and> fresh \<and> \<not> is_dirty (active_bitmap r3) 10"
    unfolding begin_step Let_def prod.case tick_step
    using old clean by (simp add: mark_dirty_finish_def demo_region_def in_range_def)
qed

end
