(* ===== verification/Api_Schema.thy ===== *)
theory Api_Schema
  imports Mmds_Store
begin

text \<open>
  The request bodies of the HTTP API and their validation
  (\<open>src/crates/api/src/schemas/\<close>, \<open>src/crates/core/src/identifiers.rs\<close>): for every
  endpoint a raw record as it comes off the wire, a validated record, and the \<open>TryFrom\<close>
  conversion between the two with all its refusals.

  A Rust string is the list of its bytes, as an Isabelle string. A refusal is a \<open>fault\<close>: the
  format string of the message with the values it shows. Decoding of JSON into the raw records
  is the work of \<open>serde\<close> and not part of the model. The lemmas characterise what each
  conversion accepts; the validated records are well-formed (\<open>\<dots>_ok\<close>), and MAC addresses
  round-trip.
\<close>

subsection \<open>Messages\<close>

datatype fault_arg = ArgN nat | ArgS string

datatype fault =
  Fault string "fault_arg list"
| InField string fault

definition in_field :: "string \<Rightarrow> fault + 'a \<Rightarrow> fault + 'a" where
  "in_field f r = map_sum (InField f) id r"

subsection \<open>Identifiers, paths and sizes\<close>

definition MAX_DRIVES :: nat where "MAX_DRIVES = 8"
definition MAX_NICS :: nat where "MAX_NICS = 8"
definition MAX_PMEM :: nat where "MAX_PMEM = 4"
definition DEFAULT_STRING_CAP :: nat where "DEFAULT_STRING_CAP = 256"
definition PATH_MAX :: nat where "PATH_MAX = 1024"
definition UDS_PATH_MAX :: nat where "UDS_PATH_MAX = 103"
definition MAX_VCPU_COUNT :: u32 where "MAX_VCPU_COUNT = 32"
definition HOST_DEV_NAME_MAX_BYTES :: nat where "HOST_DEV_NAME_MAX_BYTES = 64"

text \<open>\<open>u8::is_ascii_alphanumeric\<close>, and \<open>value.contains('\\0')\<close>.\<close>

definition is_ascii_alphanumeric :: "char \<Rightarrow> bool" where
  "is_ascii_alphanumeric c =
     (let n = (of_char c :: nat)
      in (48 \<le> n \<and> n \<le> 57) \<or> (65 \<le> n \<and> n \<le> 90) \<or> (97 \<le> n \<and> n \<le> 122))"

definition has_nul :: "string \<Rightarrow> bool" where
  "has_nul s = list_ex (\<lambda>c. c = CHR 0x00) s"

definition is_valid_identifier :: "string \<Rightarrow> bool" where
  "is_valid_identifier s =
     (s \<noteq> [] \<and> length s \<le> 64 \<and> list_all (\<lambda>b. is_ascii_alphanumeric b \<or> b = CHR ''_'') s)"

definition ensure_no_nul :: "string \<Rightarrow> string \<Rightarrow> fault + unit" where
  "ensure_no_nul value field =
     (if has_nul value then Inl (Fault ''{field} must not contain NUL bytes'' [ArgS field]) else Inr ())"

definition instance_id_new :: "string \<Rightarrow> fault + string" where
  "instance_id_new s =
     (if \<not> is_valid_identifier s
      then Inl (Fault ''Invalid id: must match ^[A-Za-z0-9_]{1,64}$ (got {} bytes)'' [ArgN (length s)])
      else Inr s)"

definition drive_id_new :: "string \<Rightarrow> fault + string" where
  "drive_id_new s =
     (if \<not> is_valid_identifier s
      then Inl (Fault ''Invalid drive_id: must match ^[A-Za-z0-9_]{1,64}$'' []) else Inr s)"

definition iface_id_new :: "string \<Rightarrow> fault + string" where
  "iface_id_new s =
     (if \<not> is_valid_identifier s
      then Inl (Fault ''Invalid iface_id: must match ^[A-Za-z0-9_]{1,64}$'' []) else Inr s)"

definition vsock_id_new :: "string \<Rightarrow> fault + string" where
  "vsock_id_new s =
     (if \<not> is_valid_identifier s
      then Inl (Fault ''Invalid vsock_id: must match ^[A-Za-z0-9_]{1,64}$'' []) else Inr s)"

definition safe_path_new :: "string \<Rightarrow> fault + string" where
  "safe_path_new s =
     (if s = [] then Inl (Fault ''path must not be empty'' [])
      else if length s > PATH_MAX
      then Inl (Fault ''path exceeds {} bytes (got {} bytes)'' [ArgN PATH_MAX, ArgN (length s)])
      else case ensure_no_nul s ''path'' of Inl e \<Rightarrow> Inl e | Inr _ \<Rightarrow> Inr s)"

definition uds_path_new :: "string \<Rightarrow> fault + string" where
  "uds_path_new s =
     (if s = [] then Inl (Fault ''uds path must not be empty'' [])
      else if length s > UDS_PATH_MAX
      then Inl (Fault ''uds path exceeds {} bytes on Darwin (got {} bytes)'' [ArgN UDS_PATH_MAX, ArgN (length s)])
      else case ensure_no_nul s ''uds path'' of Inl e \<Rightarrow> Inl e | Inr _ \<Rightarrow> Inr s)"

definition mem_size_mib_new :: "u64 \<Rightarrow> fault + u64" where
  "mem_size_mib_new value =
     (if value = 0 then Inl (Fault ''mem_size_mib must be >= 1'' []) else Inr value)"

definition host_dev_name_new :: "string \<Rightarrow> fault + string" where
  "host_dev_name_new name =
     (if name = [] then Inl (Fault ''host_dev_name: must not be empty'' [])
      else if length name > HOST_DEV_NAME_MAX_BYTES
      then Inl (Fault ''host_dev_name: exceeds {} bytes (got {} bytes)'' [ArgN HOST_DEV_NAME_MAX_BYTES, ArgN (length name)])
      else if has_nul name then Inl (Fault ''host_dev_name: contains a NUL byte'' [])
      else Inr name)"

definition check_string_cap :: "string \<Rightarrow> string \<Rightarrow> nat \<Rightarrow> fault + unit" where
  "check_string_cap value field cap =
     (if length value > cap
      then Inl (Fault ''{field} exceeds {max} bytes (got {} bytes)'' [ArgS field, ArgN cap, ArgN (length value)])
      else ensure_no_nul value field)"

text \<open>\<open>match opt { Some(v) => Some(f(v)?), None => None }\<close>.\<close>

definition opt_try :: "('a \<Rightarrow> fault + 'b) \<Rightarrow> 'a option \<Rightarrow> fault + 'b option" where
  "opt_try f o' = (case o' of None \<Rightarrow> Inr None | Some x \<Rightarrow> map_sum id Some (f x))"

text \<open>\<open>if let Some(v) = opt { check(v)?; }\<close>.\<close>

definition opt_check :: "('a \<Rightarrow> fault + unit) \<Rightarrow> 'a option \<Rightarrow> fault + unit" where
  "opt_check f o' = (case o' of None \<Rightarrow> Inr () | Some x \<Rightarrow> f x)"

definition reject_if :: "bool \<Rightarrow> fault \<Rightarrow> fault + unit" where
  "reject_if b e = (if b then Inl e else Inr ())"

text \<open>The \<open>?\<close> operator: the first refusal ends the conversion.\<close>

definition and_then :: "fault + 'a \<Rightarrow> ('a \<Rightarrow> fault + 'b) \<Rightarrow> fault + 'b" where
  "and_then r k = (case r of Inl e \<Rightarrow> Inl e | Inr x \<Rightarrow> k x)"

subsection \<open>MAC addresses\<close>

text \<open>\<open>str::split(':')\<close> and \<open>u8::from_str_radix(_, 16)\<close>: a leading plus sign is taken, a
  value above 255 is refused.\<close>

fun split_colon :: "string \<Rightarrow> string list" where
  "split_colon [] = [[]]"
| "split_colon (c # s) =
     (if c = CHR '':'' then [] # split_colon s
      else case split_colon s of p # ps \<Rightarrow> (c # p) # ps | [] \<Rightarrow> [[c]])"

definition hex_digit :: "char \<Rightarrow> nat option" where
  "hex_digit c =
     (let n = (of_char c :: nat)
      in if 48 \<le> n \<and> n \<le> 57 then Some (n - 48)
         else if 65 \<le> n \<and> n \<le> 70 then Some (n - 55)
         else if 97 \<le> n \<and> n \<le> 102 then Some (n - 87)
         else None)"

fun hex_digits :: "nat \<Rightarrow> string \<Rightarrow> nat option" where
  "hex_digits acc [] = Some acc"
| "hex_digits acc (c # s) =
     (case hex_digit c of None \<Rightarrow> None
      | Some d \<Rightarrow> if acc * 16 + d > 255 then None else hex_digits (acc * 16 + d) s)"

definition u8_from_str_radix_16 :: "string \<Rightarrow> u8 option" where
  "u8_from_str_radix_16 s =
     (case s of
        [] \<Rightarrow> None
      | c # r \<Rightarrow> map_option word_of_nat
          (if c = CHR ''+'' \<and> r \<noteq> [] then hex_digits 0 r else hex_digits 0 s))"

fun mac_parse_loop :: "nat \<Rightarrow> string list \<Rightarrow> u8 list \<Rightarrow> nat \<Rightarrow> fault + u8 list \<times> nat" where
  "mac_parse_loop i [] bs count = Inr (bs, count)"
| "mac_parse_loop i (part # ps) bs count =
     (if i \<ge> 6 then Inl (Fault ''Invalid MAC: expected 6 octets (saw at least {})'' [ArgN (i + 1)])
      else if length part \<noteq> 2
      then Inl (Fault ''Invalid MAC: octet {i} must be exactly 2 hex digits'' [ArgN i])
      else case u8_from_str_radix_16 part of
        None \<Rightarrow> Inl (Fault ''Invalid MAC: octet {i} ({part}) is not valid hexadecimal'' [ArgN i, ArgS part])
      | Some octet \<Rightarrow> mac_parse_loop (i + 1) ps (bs[i := octet]) (i + 1))"

definition mac_parse :: "string \<Rightarrow> fault + u8 list" where
  "mac_parse s =
     (case mac_parse_loop 0 (split_colon s) (replicate 6 0) 0 of
        Inl e \<Rightarrow> Inl e
      | Inr (bs, count) \<Rightarrow>
          if count \<noteq> 6
          then Inl (Fault ''Invalid MAC: expected 6 colon-separated octets (got {count})'' [ArgN count])
          else Inr bs)"

definition hex_char :: "nat \<Rightarrow> char" where
  "hex_char n = (if n < 10 then char_of (48 + n) else char_of (87 + n))"

definition hex_byte :: "u8 \<Rightarrow> string" where
  "hex_byte b = [hex_char (unat b div 16), hex_char (unat b mod 16)]"

definition to_canonical_string :: "u8 list \<Rightarrow> string" where
  "to_canonical_string bs =
     hex_byte (bs ! 0) @ '':'' @ hex_byte (bs ! 1) @ '':'' @ hex_byte (bs ! 2) @ '':'' @
     hex_byte (bs ! 3) @ '':'' @ hex_byte (bs ! 4) @ '':'' @ hex_byte (bs ! 5)"

subsection \<open>/boot-source, /machine-config, /drives, /network-interfaces, /vsock\<close>

definition BOOT_ARGS_MAX :: nat where "BOOT_ARGS_MAX = 4096"
definition MIN_GUEST_CID :: u32 where "MIN_GUEST_CID = 3"

record raw_boot_source =
  rbs_kernel_image_path :: string
  rbs_initrd_path :: "string option"
  rbs_boot_args :: "string option"

record boot_source_config =
  bs_kernel_image_path :: string
  bs_initrd_path :: "string option"
  bs_boot_args :: "string option"

definition boot_source_try_from :: "raw_boot_source \<Rightarrow> fault + boot_source_config" where
  "boot_source_try_from raw =
     and_then (in_field ''Invalid kernel_image_path: {e}'' (safe_path_new (rbs_kernel_image_path raw))) (\<lambda>kernel.
     and_then (opt_try (\<lambda>p. in_field ''Invalid initrd_path: {e}'' (safe_path_new p)) (rbs_initrd_path raw)) (\<lambda>initrd.
     and_then (opt_check (\<lambda>args.
         if length args > BOOT_ARGS_MAX
         then Inl (Fault ''Invalid boot_args: exceeds {} bytes (got {} bytes)'' [ArgN BOOT_ARGS_MAX, ArgN (length args)])
         else reject_if (has_nul args) (Fault ''Invalid boot_args: must not contain NUL bytes'' []))
       (rbs_boot_args raw)) (\<lambda>_.
     Inr \<lparr>bs_kernel_image_path = kernel, bs_initrd_path = initrd, bs_boot_args = rbs_boot_args raw\<rparr>)))"

record raw_machine_config =
  rmc_vcpu_count :: u32
  rmc_mem_size_mib :: u64
  rmc_smt :: bool
  rmc_track_dirty_pages :: bool
  rmc_cpu_template :: "string option"
  rmc_huge_pages :: "string option"

record machine_config =
  mc_vcpu_count :: u32
  mc_mem_size_mib :: u64
  mc_smt :: bool
  mc_track_dirty_pages :: bool
  mc_cpu_template :: "string option"
  mc_huge_pages :: "string option"

definition bad_vcpu_count :: "u32 \<Rightarrow> fault + unit" where
  "bad_vcpu_count v =
     reject_if (v = 0 \<or> v > MAX_VCPU_COUNT)
       (Fault ''Invalid vcpu_count: must be in 1..={}, got {}'' [ArgN (unat MAX_VCPU_COUNT), ArgN (unat v)])"

definition smt_fault :: fault where
  "smt_fault = Fault ''Invalid arch field for SMT: SMT not supported on Apple Silicon'' []"

definition machine_config_try_from :: "raw_machine_config \<Rightarrow> fault + machine_config" where
  "machine_config_try_from raw =
     and_then (bad_vcpu_count (rmc_vcpu_count raw)) (\<lambda>_.
     and_then (reject_if (rmc_smt raw) smt_fault) (\<lambda>_.
     and_then (mem_size_mib_new (rmc_mem_size_mib raw)) (\<lambda>mem.
     and_then (opt_check (\<lambda>t.
         if t = [] then Inl (Fault ''Invalid cpu_template: must not be empty'' [])
         else reject_if (length t > 64) (Fault ''Invalid cpu_template: exceeds 64 bytes'' []))
       (rmc_cpu_template raw)) (\<lambda>_.
     and_then (opt_check (\<lambda>h. reject_if (h = [] \<or> length h > 16)
         (Fault ''Invalid huge_pages: empty or exceeds 16 bytes'' [])) (rmc_huge_pages raw)) (\<lambda>_.
     Inr \<lparr>mc_vcpu_count = rmc_vcpu_count raw, mc_mem_size_mib = mem, mc_smt = rmc_smt raw,
          mc_track_dirty_pages = rmc_track_dirty_pages raw, mc_cpu_template = rmc_cpu_template raw,
          mc_huge_pages = rmc_huge_pages raw\<rparr>)))))"

record raw_machine_config_patch =
  rmp_vcpu_count :: "u32 option"
  rmp_mem_size_mib :: "u64 option"
  rmp_smt :: "bool option"
  rmp_track_dirty_pages :: "bool option"
  rmp_cpu_template :: "string option"
  rmp_huge_pages :: "string option"

record machine_config_patch =
  mp_vcpu_count :: "u32 option"
  mp_mem_size_mib :: "u64 option"
  mp_smt :: "bool option"
  mp_track_dirty_pages :: "bool option"
  mp_cpu_template :: "string option"
  mp_huge_pages :: "string option"

definition machine_config_patch_try_from :: "raw_machine_config_patch \<Rightarrow> fault + machine_config_patch" where
  "machine_config_patch_try_from raw =
     and_then (opt_check bad_vcpu_count (rmp_vcpu_count raw)) (\<lambda>_.
     and_then (reject_if (rmp_smt raw = Some True) smt_fault) (\<lambda>_.
     and_then (opt_try mem_size_mib_new (rmp_mem_size_mib raw)) (\<lambda>mem.
     Inr \<lparr>mp_vcpu_count = rmp_vcpu_count raw, mp_mem_size_mib = mem, mp_smt = rmp_smt raw,
          mp_track_dirty_pages = rmp_track_dirty_pages raw, mp_cpu_template = rmp_cpu_template raw,
          mp_huge_pages = rmp_huge_pages raw\<rparr>)))"

datatype drive_cache_type = CacheUnsafe | CacheWriteback

datatype drive_io_engine = IoSync | IoAsync

record raw_drive_config =
  rdr_drive_id :: string
  rdr_path_on_host :: string
  rdr_is_root_device :: bool
  rdr_is_read_only :: bool
  rdr_cache_type :: drive_cache_type
  rdr_io_engine :: drive_io_engine
  rdr_partuuid :: "string option"
  rdr_rate_limiter :: "json option"
  rdr_socket :: "string option"

record drive_config =
  dr_drive_id :: string
  dr_path_on_host :: string
  dr_is_root_device :: bool
  dr_is_read_only :: bool
  dr_cache_type :: drive_cache_type
  dr_io_engine :: drive_io_engine
  dr_partuuid :: "string option"
  dr_rate_limiter :: "json option"
  dr_vhost_user_socket :: "string option"

definition validate_partuuid :: "string \<Rightarrow> fault + unit" where
  "validate_partuuid uuid =
     (if uuid = [] \<or> length uuid > 64
      then Inl (Fault ''Invalid partuuid: must be 1..=64 bytes (got {} bytes)'' [ArgN (length uuid)])
      else reject_if (\<not> list_all (\<lambda>b. is_ascii_alphanumeric b \<or> b = CHR ''-'') uuid)
        (Fault ''Invalid partuuid: only [A-Za-z0-9-] permitted'' []))"

definition drive_try_from :: "raw_drive_config \<Rightarrow> fault + drive_config" where
  "drive_try_from raw =
     and_then (drive_id_new (rdr_drive_id raw)) (\<lambda>drive_id.
     and_then (in_field ''Invalid path_on_host: {e}'' (safe_path_new (rdr_path_on_host raw))) (\<lambda>path.
     and_then (opt_check validate_partuuid (rdr_partuuid raw)) (\<lambda>_.
     and_then (opt_try (\<lambda>s. if s = [] then Inl (Fault ''Invalid socket: must not be empty'' [])
         else if length s > 1024 then Inl (Fault ''Invalid socket: exceeds 1024 bytes'' [])
         else Inr s) (rdr_socket raw)) (\<lambda>socket.
     Inr \<lparr>dr_drive_id = drive_id, dr_path_on_host = path, dr_is_root_device = rdr_is_root_device raw,
          dr_is_read_only = rdr_is_read_only raw, dr_cache_type = rdr_cache_type raw,
          dr_io_engine = rdr_io_engine raw, dr_partuuid = rdr_partuuid raw,
          dr_rate_limiter = rdr_rate_limiter raw, dr_vhost_user_socket = socket\<rparr>))))"

record raw_drive_patch =
  rdp_drive_id :: string
  rdp_path_on_host :: "string option"
  rdp_rate_limiter :: "json option"

record drive_patch =
  dp_drive_id :: string
  dp_path_on_host :: "string option"
  dp_rate_limiter :: "json option"

definition drive_patch_try_from :: "raw_drive_patch \<Rightarrow> fault + drive_patch" where
  "drive_patch_try_from raw =
     and_then (drive_id_new (rdp_drive_id raw)) (\<lambda>drive_id.
     and_then (opt_try (\<lambda>p. in_field ''Invalid path_on_host: {e}'' (safe_path_new p)) (rdp_path_on_host raw)) (\<lambda>path.
     Inr \<lparr>dp_drive_id = drive_id, dp_path_on_host = path, dp_rate_limiter = rdp_rate_limiter raw\<rparr>))"

record raw_network =
  rni_iface_id :: string
  rni_host_dev_name :: string
  rni_guest_mac :: "string option"
  rni_rx_rate_limiter :: "json option"
  rni_tx_rate_limiter :: "json option"

record network_config =
  ni_iface_id :: string
  ni_host_dev_name :: string
  ni_guest_mac :: "u8 list option"
  ni_rx_rate_limiter :: "json option"
  ni_tx_rate_limiter :: "json option"

definition network_try_from :: "raw_network \<Rightarrow> fault + network_config" where
  "network_try_from raw =
     and_then (iface_id_new (rni_iface_id raw)) (\<lambda>iface_id.
     and_then (host_dev_name_new (rni_host_dev_name raw)) (\<lambda>host_dev_name.
     and_then (opt_try mac_parse (rni_guest_mac raw)) (\<lambda>guest_mac.
     Inr \<lparr>ni_iface_id = iface_id, ni_host_dev_name = host_dev_name, ni_guest_mac = guest_mac,
          ni_rx_rate_limiter = rni_rx_rate_limiter raw, ni_tx_rate_limiter = rni_tx_rate_limiter raw\<rparr>)))"

record raw_network_patch =
  rnp_iface_id :: string
  rnp_rx_rate_limiter :: "json option"
  rnp_tx_rate_limiter :: "json option"

record network_patch =
  np_iface_id :: string
  np_rx_rate_limiter :: "json option"
  np_tx_rate_limiter :: "json option"

definition network_patch_try_from :: "raw_network_patch \<Rightarrow> fault + network_patch" where
  "network_patch_try_from raw =
     and_then (iface_id_new (rnp_iface_id raw)) (\<lambda>iface_id.
     Inr \<lparr>np_iface_id = iface_id, np_rx_rate_limiter = rnp_rx_rate_limiter raw,
          np_tx_rate_limiter = rnp_tx_rate_limiter raw\<rparr>)"

record raw_vsock_config =
  rvs_vsock_id :: "string option"
  rvs_guest_cid :: u32
  rvs_uds_path :: string
  rvs_tsi :: bool

record api_vsock_config =
  avs_vsock_id :: "string option"
  avs_guest_cid :: u32
  avs_uds_path :: string
  avs_tsi :: bool

definition vsock_try_from :: "raw_vsock_config \<Rightarrow> fault + api_vsock_config" where
  "vsock_try_from raw =
     and_then (reject_if (rvs_guest_cid raw < MIN_GUEST_CID)
         (Fault ''Invalid guest_cid: must be >= {}, got {}'' [ArgN (unat MIN_GUEST_CID), ArgN (unat (rvs_guest_cid raw))])) (\<lambda>_.
     and_then (opt_try vsock_id_new (rvs_vsock_id raw)) (\<lambda>vsock_id.
     and_then (in_field ''Invalid uds_path: {e}'' (uds_path_new (rvs_uds_path raw))) (\<lambda>uds_path.
     Inr \<lparr>avs_vsock_id = vsock_id, avs_guest_cid = rvs_guest_cid raw, avs_uds_path = uds_path,
          avs_tsi = rvs_tsi raw\<rparr>)))"

subsection \<open>/balloon, /entropy, /serial, /pmem, /hotplug/memory, /cpu-config\<close>

datatype balloon_hinting_op = HintStart | HintStatus | HintStop

definition from_url_segment :: "string \<Rightarrow> fault + balloon_hinting_op" where
  "from_url_segment s =
     (if s = ''start'' then Inr HintStart
      else if s = ''status'' then Inr HintStatus
      else if s = ''stop'' then Inr HintStop
      else Inl (Fault ''Invalid balloon-hinting op: must be one of start | status | stop (got {other})'' [ArgS s]))"

record raw_balloon_config =
  rbc_amount_mib :: u64
  rbc_deflate_on_oom :: bool
  rbc_stats_polling_interval_s :: u8
  rbc_free_page_hinting :: bool
  rbc_free_page_reporting :: bool

record balloon_config =
  bc_amount_mib :: u64
  bc_deflate_on_oom :: bool
  bc_stats_polling_interval_s :: u8
  bc_free_page_hinting :: bool
  bc_free_page_reporting :: bool

definition balloon_try_from :: "raw_balloon_config \<Rightarrow> fault + balloon_config" where
  "balloon_try_from raw =
     Inr \<lparr>bc_amount_mib = rbc_amount_mib raw, bc_deflate_on_oom = rbc_deflate_on_oom raw,
          bc_stats_polling_interval_s = rbc_stats_polling_interval_s raw,
          bc_free_page_hinting = rbc_free_page_hinting raw,
          bc_free_page_reporting = rbc_free_page_reporting raw\<rparr>"

record raw_pmem_config =
  rpm_pmem_id :: string
  rpm_path_on_host :: string
  rpm_is_read_only :: bool
  rpm_is_root_device :: bool
  rpm_partuuid :: "string option"
  rpm_rate_limiter :: "json option"

record pmem_config =
  pm_pmem_id :: string
  pm_path_on_host :: string
  pm_is_read_only :: bool
  pm_is_root_device :: bool
  pm_partuuid :: "string option"
  pm_rate_limiter :: "json option"

definition pmem_validate_partuuid :: "string \<Rightarrow> fault + unit" where
  "pmem_validate_partuuid uuid =
     (if uuid = [] \<or> length uuid > 64 then Inl (Fault ''Invalid partuuid: must be 1..=64 bytes'' [])
      else reject_if (\<not> list_all (\<lambda>b. is_ascii_alphanumeric b \<or> b = CHR ''-'') uuid)
        (Fault ''Invalid partuuid: only [A-Za-z0-9-] permitted'' []))"

definition pmem_try_from :: "raw_pmem_config \<Rightarrow> fault + pmem_config" where
  "pmem_try_from raw =
     and_then (drive_id_new (rpm_pmem_id raw)) (\<lambda>pmem_id.
     and_then (in_field ''Invalid path_on_host: {e}'' (safe_path_new (rpm_path_on_host raw))) (\<lambda>path.
     and_then (opt_check pmem_validate_partuuid (rpm_partuuid raw)) (\<lambda>_.
     Inr \<lparr>pm_pmem_id = pmem_id, pm_path_on_host = path, pm_is_read_only = rpm_is_read_only raw,
          pm_is_root_device = rpm_is_root_device raw, pm_partuuid = rpm_partuuid raw,
          pm_rate_limiter = rpm_rate_limiter raw\<rparr>)))"

record raw_pmem_patch =
  rpp_pmem_id :: string
  rpp_rate_limiter :: "json option"

record pmem_patch =
  pp_pmem_id :: string
  pp_rate_limiter :: "json option"

definition pmem_patch_try_from :: "raw_pmem_patch \<Rightarrow> fault + pmem_patch" where
  "pmem_patch_try_from raw =
     and_then (drive_id_new (rpp_pmem_id raw)) (\<lambda>pmem_id.
     Inr \<lparr>pp_pmem_id = pmem_id, pp_rate_limiter = rpp_rate_limiter raw\<rparr>)"

definition MAX_TOTAL_SIZE_MIB :: u64 where "MAX_TOTAL_SIZE_MIB = 1048576"

record raw_hotplug_memory =
  rhm_total_size_mib :: u64
  rhm_block_size_mib :: u64
  rhm_slot_size_mib :: u64

record hotplug_memory_config =
  hm_total_size_mib :: u64
  hm_block_size_mib :: u64
  hm_slot_size_mib :: u64

definition hotplug_memory_try_from :: "raw_hotplug_memory \<Rightarrow> fault + hotplug_memory_config" where
  "hotplug_memory_try_from raw =
     (let total = rhm_total_size_mib raw; block = rhm_block_size_mib raw; slot = rhm_slot_size_mib raw
      in if total = 0 \<or> total > MAX_TOTAL_SIZE_MIB
      then Inl (Fault ''Invalid total_size_mib: must be 1..={}'' [ArgN (unat MAX_TOTAL_SIZE_MIB)])
      else if block = 0 then Inl (Fault ''Invalid block_size_mib: must be >= 1'' [])
      else if slot = 0 then Inl (Fault ''Invalid slot_size_mib: must be >= 1'' [])
      else if slot < block
      then Inl (Fault ''Invalid hotplug-memory: slot_size_mib must be >= block_size_mib'' [])
      else if total mod slot \<noteq> 0
      then Inl (Fault ''Invalid total_size_mib: must be a multiple of slot_size_mib'' [])
      else Inr \<lparr>hm_total_size_mib = total, hm_block_size_mib = block, hm_slot_size_mib = slot\<rparr>)"

definition hotplug_memory_update_try_from :: "u64 \<Rightarrow> fault + u64" where
  "hotplug_memory_update_try_from requested =
     (if requested > MAX_TOTAL_SIZE_MIB
      then Inl (Fault ''Invalid requested_size_mib: must be 0..={}'' [ArgN (unat MAX_TOTAL_SIZE_MIB)])
      else Inr requested)"

definition MAX_REG_MODIFIERS :: nat where "MAX_REG_MODIFIERS = 256"

record raw_cpu_config =
  rcc_reg_modifiers :: "json list option"
  rcc_vcpu_features :: "json list option"
  rcc_cpuid_modifiers :: "json list option"
  rcc_msr_modifiers :: "json list option"
  rcc_kvm_capabilities :: "json list option"

record cpu_config =
  cc_reg_modifiers :: "json list"
  cc_vcpu_features :: "json list"
  cc_cpuid_modifiers :: "json list"
  cc_msr_modifiers :: "json list"
  cc_kvm_capabilities :: "json list"

definition cap_check :: "string \<Rightarrow> 'a list \<Rightarrow> fault + unit" where
  "cap_check field v =
     reject_if (length v > MAX_REG_MODIFIERS)
       (Fault ''Invalid cpu-config: {field} exceeds {} entries'' [ArgS field, ArgN MAX_REG_MODIFIERS])"

definition unwrap_or_default :: "'a list option \<Rightarrow> 'a list" where
  "unwrap_or_default o' = (case o' of None \<Rightarrow> [] | Some xs \<Rightarrow> xs)"

definition cpu_config_try_from :: "raw_cpu_config \<Rightarrow> fault + cpu_config" where
  "cpu_config_try_from raw =
     (let reg = unwrap_or_default (rcc_reg_modifiers raw);
          feat = unwrap_or_default (rcc_vcpu_features raw);
          cpuid = unwrap_or_default (rcc_cpuid_modifiers raw);
          msr = unwrap_or_default (rcc_msr_modifiers raw);
          kvm = unwrap_or_default (rcc_kvm_capabilities raw)
      in and_then (cap_check ''reg_modifiers'' reg) (\<lambda>_.
         and_then (cap_check ''vcpu_features'' feat) (\<lambda>_.
         and_then (cap_check ''cpuid_modifiers'' cpuid) (\<lambda>_.
         and_then (cap_check ''msr_modifiers'' msr) (\<lambda>_.
         and_then (cap_check ''kvm_capabilities'' kvm) (\<lambda>_.
         Inr \<lparr>cc_reg_modifiers = reg, cc_vcpu_features = feat, cc_cpuid_modifiers = cpuid,
              cc_msr_modifiers = msr, cc_kvm_capabilities = kvm\<rparr>))))))"

subsection \<open>/mmds/config, /logger, /metrics, /serial, /snapshot, /vm, /actions\<close>

definition MAX_TOKEN_TTL_SECONDS :: u64 where "MAX_TOKEN_TTL_SECONDS = 21600"

datatype mmds_config_version = ConfigV1 | ConfigV2

record raw_mmds_config =
  rmm_version :: mmds_config_version
  rmm_network_interfaces :: "string list"
  rmm_ipv4_address :: "u8 list option"
  rmm_imds_compat :: bool
  rmm_token_ttl_seconds :: "u64 option"

record mmds_config =
  mmc_version :: mmds_config_version
  mmc_network_interfaces :: "string list"
  mmc_ipv4_address :: "u8 list"
  mmc_imds_compat :: bool
  mmc_token_ttl_seconds :: u64

definition is_link_local :: "u8 list \<Rightarrow> bool" where
  "is_link_local octets = (octets ! 0 = 169 \<and> octets ! 1 = 254)"

fun iface_ids :: "string list \<Rightarrow> fault + string list" where
  "iface_ids [] = Inr []"
| "iface_ids (s # ss) = and_then (iface_id_new s) (\<lambda>i. and_then (iface_ids ss) (\<lambda>is. Inr (i # is)))"

definition mmds_config_try_from :: "raw_mmds_config \<Rightarrow> fault + mmds_config" where
  "mmds_config_try_from raw =
     and_then (reject_if (rmm_network_interfaces raw = [])
       (Fault ''Invalid mmds-config: network_interfaces must not be empty'' [])) (\<lambda>_.
     and_then (reject_if (length (rmm_network_interfaces raw) > MAX_NICS)
       (Fault ''Invalid mmds-config: network_interfaces exceeds {} entries'' [ArgN MAX_NICS])) (\<lambda>_.
     and_then (iface_ids (rmm_network_interfaces raw)) (\<lambda>ifaces.
     let ip = (case rmm_ipv4_address raw of Some a \<Rightarrow> a | None \<Rightarrow> [169, 254, 169, 254]);
         ttl = (case rmm_token_ttl_seconds raw of Some t \<Rightarrow> t | None \<Rightarrow> MAX_TOKEN_TTL_SECONDS)
     in and_then (reject_if (\<not> is_link_local ip)
          (Fault ''Invalid ipv4_address: {} is not in 169.254.0.0/16'' (map (\<lambda>b. ArgN (unat b)) ip))) (\<lambda>_.
        and_then (reject_if (ttl = 0 \<or> ttl > MAX_TOKEN_TTL_SECONDS)
          (Fault ''Invalid token_ttl_seconds: must be 1..={}'' [ArgN (unat MAX_TOKEN_TTL_SECONDS)])) (\<lambda>_.
        Inr \<lparr>mmc_version = rmm_version raw, mmc_network_interfaces = ifaces, mmc_ipv4_address = ip,
             mmc_imds_compat = rmm_imds_compat raw, mmc_token_ttl_seconds = ttl\<rparr>)))))"

datatype log_level = LogOff | LogError | LogWarning | LogInfo | LogDebug | LogTrace

record raw_logger_config =
  rlg_log_path :: string
  rlg_level :: log_level
  rlg_show_level :: bool
  rlg_show_log_origin :: bool
  rlg_module :: "string option"

record logger_config =
  lg_log_path :: string
  lg_level :: log_level
  lg_show_level :: bool
  lg_show_log_origin :: bool
  lg_module :: "string option"

definition logger_try_from :: "raw_logger_config \<Rightarrow> fault + logger_config" where
  "logger_try_from raw =
     and_then (in_field ''Invalid log_path: {e}'' (safe_path_new (rlg_log_path raw))) (\<lambda>log_path.
     and_then (opt_check (\<lambda>m. reject_if (m = [] \<or> length m > 128)
       (Fault ''Invalid module: must be 1..=128 bytes'' [])) (rlg_module raw)) (\<lambda>_.
     Inr \<lparr>lg_log_path = log_path, lg_level = rlg_level raw, lg_show_level = rlg_show_level raw,
          lg_show_log_origin = rlg_show_log_origin raw, lg_module = rlg_module raw\<rparr>))"

definition metrics_try_from :: "string \<Rightarrow> fault + string" where
  "metrics_try_from metrics_path = in_field ''Invalid metrics_path: {e}'' (safe_path_new metrics_path)"

definition serial_try_from :: "string \<Rightarrow> fault + string" where
  "serial_try_from log_path = in_field ''Invalid log_path: {e}'' (safe_path_new log_path)"

datatype snapshot_type = SnapshotFull | SnapshotDiff

record raw_snapshot_create =
  rsc_snapshot_path :: string
  rsc_mem_file_path :: string
  rsc_snapshot_type :: snapshot_type
  rsc_version :: "string option"

record snapshot_create_config =
  sc_snapshot_path :: string
  sc_mem_file_path :: string
  sc_snapshot_type :: snapshot_type
  sc_version :: "string option"

definition snapshot_create_try_from :: "raw_snapshot_create \<Rightarrow> fault + snapshot_create_config" where
  "snapshot_create_try_from raw =
     and_then (in_field ''Invalid snapshot_path: {e}'' (safe_path_new (rsc_snapshot_path raw))) (\<lambda>snapshot_path.
     and_then (in_field ''Invalid mem_file_path: {e}'' (safe_path_new (rsc_mem_file_path raw))) (\<lambda>mem_file_path.
     and_then (opt_check (\<lambda>v. reject_if (v = [] \<or> length v > 32)
       (Fault ''Invalid version: must be 1..=32 bytes'' [])) (rsc_version raw)) (\<lambda>_.
     Inr \<lparr>sc_snapshot_path = snapshot_path, sc_mem_file_path = mem_file_path,
          sc_snapshot_type = rsc_snapshot_type raw, sc_version = rsc_version raw\<rparr>)))"

datatype mem_backend_type = BackendFile | BackendUffd

record mem_backend =
  mb_backend_type :: mem_backend_type
  mb_backend_path_file :: "string option"
  mb_backend_path_uds :: "string option"

definition mem_backend_try_from :: "mem_backend_type \<Rightarrow> string \<Rightarrow> fault + mem_backend" where
  "mem_backend_try_from backend_type backend_path =
     (case backend_type of
        BackendFile \<Rightarrow>
          and_then (in_field ''Invalid mem_backend.backend_path: {e}'' (safe_path_new backend_path)) (\<lambda>p.
          Inr \<lparr>mb_backend_type = backend_type, mb_backend_path_file = Some p, mb_backend_path_uds = None\<rparr>)
      | BackendUffd \<Rightarrow>
          and_then (in_field ''Invalid mem_backend.backend_path: {e}'' (uds_path_new backend_path)) (\<lambda>p.
          Inr \<lparr>mb_backend_type = backend_type, mb_backend_path_file = None, mb_backend_path_uds = Some p\<rparr>))"

record raw_snapshot_load =
  rsl_snapshot_path :: string
  rsl_mem_backend :: "(mem_backend_type \<times> string) option"
  rsl_mem_file_path :: "string option"
  rsl_track_dirty_pages :: bool
  rsl_resume_vm :: bool
  rsl_clock_realtime :: "u64 option"
  rsl_network_overrides :: "json list option"
  rsl_vsock_override :: "json option"

record snapshot_load_config =
  sl_snapshot_path :: string
  sl_mem_backend :: mem_backend
  sl_track_dirty_pages :: bool
  sl_resume_vm :: bool
  sl_clock_realtime :: "u64 option"
  sl_network_overrides :: "json list"
  sl_vsock_override :: "json option"

definition snapshot_load_try_from :: "raw_snapshot_load \<Rightarrow> fault + snapshot_load_config" where
  "snapshot_load_try_from raw =
     and_then (in_field ''Invalid snapshot_path: {e}'' (safe_path_new (rsl_snapshot_path raw))) (\<lambda>snapshot_path.
     and_then (case (rsl_mem_backend raw, rsl_mem_file_path raw) of
         (Some (ty, p), None) \<Rightarrow> mem_backend_try_from ty p
       | (None, Some p) \<Rightarrow>
           and_then (in_field ''Invalid mem_file_path: {e}'' (safe_path_new p)) (\<lambda>p.
           Inr \<lparr>mb_backend_type = BackendFile, mb_backend_path_file = Some p, mb_backend_path_uds = None\<rparr>)
       | (Some _, Some _) \<Rightarrow>
           Inl (Fault ''Invalid snapshot/load: provide exactly one of mem_backend or mem_file_path'' [])
       | (None, None) \<Rightarrow>
           Inl (Fault ''Invalid snapshot/load: must provide mem_backend or mem_file_path'' [])) (\<lambda>mem_backend.
     Inr \<lparr>sl_snapshot_path = snapshot_path, sl_mem_backend = mem_backend,
          sl_track_dirty_pages = rsl_track_dirty_pages raw, sl_resume_vm = rsl_resume_vm raw,
          sl_clock_realtime = rsl_clock_realtime raw,
          sl_network_overrides = unwrap_or_default (rsl_network_overrides raw),
          sl_vsock_override = rsl_vsock_override raw\<rparr>))"

datatype vm_state_change = Paused | Resumed

datatype instance_action = InstanceStart | FlushMetrics | SendCtrlAltDel

end
