(* ===== verification/Api_Controller.thy ===== *)
theory Api_Controller
  imports Api_Schema
begin

text \<open>
  The API side of the monitor: the life cycle of a microVM
  (\<open>src/crates/core/src/lifecycle.rs\<close>), the actions posted to the event loop
  (\<open>src/crates/api/src/action.rs\<close>), the controller that admits them
  (\<open>src/crates/api/src/controller.rs\<close>), the errors and their status codes
  (\<open>src/crates/api/src/error.rs\<close>), the HTTP handlers
  (\<open>src/crates/api/src/handlers.rs\<close>) and the replay of a configuration file
  (\<open>src/crates/api/src/replay.rs\<close>).

  \<open>dispatch\<close> is asynchronous. It is modelled in two halves: what happens before the action is
  on the channel (\<open>dispatch_begin\<close>) and what happens when the answer is there, dropped or late
  (\<open>dispatch_end\<close>); the interleavings of several calls are the subject of \<open>Vmm_Loop\<close>.
\<close>

subsection \<open>Life cycle\<close>

datatype wire_vm_state = WireNotStarted | WireRunning | WirePaused

datatype lifecycle_phase =
  Uninitialized | NotStarted | Starting | Running | PhasePaused | PhaseShutdown

definition wire_state :: "lifecycle_phase \<Rightarrow> wire_vm_state" where
  "wire_state p = (case p of
      Running \<Rightarrow> WireRunning | PhasePaused \<Rightarrow> WirePaused | _ \<Rightarrow> WireNotStarted)"

definition phase_is_post_boot :: "lifecycle_phase \<Rightarrow> bool" where
  "phase_is_post_boot p = (p = Running \<or> p = PhasePaused)"

definition phase_is_pre_boot :: "lifecycle_phase \<Rightarrow> bool" where
  "phase_is_pre_boot p = (p = Uninitialized \<or> p = NotStarted)"

subsection \<open>Actions\<close>

datatype action_class =
  PreBootConfig | ClassInstanceStart | ClassSnapshotCreate | ClassSnapshotLoad
| VmStateChange | BalloonResize | OtherAction

definition class_label :: "action_class \<Rightarrow> string" where
  "class_label c = (case c of
      PreBootConfig \<Rightarrow> ''pre-boot config''
    | ClassInstanceStart \<Rightarrow> ''InstanceStart''
    | ClassSnapshotCreate \<Rightarrow> ''PUT /snapshot/create''
    | ClassSnapshotLoad \<Rightarrow> ''PUT /snapshot/load''
    | VmStateChange \<Rightarrow> ''PATCH /vm''
    | BalloonResize \<Rightarrow> ''PATCH /balloon''
    | OtherAction \<Rightarrow> ''VMM action'')"

datatype api_action =
  PutBootSource boot_source_config
| PutDrive drive_config
| PatchDrive drive_patch
| DeleteDrive string
| PutNetwork network_config
| PatchNetwork network_patch
| DeleteNetwork string
| PutVsock api_vsock_config
| PutMmds json
| PatchMmds json
| PutMmdsConfig mmds_config
| PutBalloon balloon_config
| PatchBalloon u64
| PatchBalloonStats u8
| PatchBalloonHinting balloon_hinting_op
| PutEntropy "json option"
| PutSerial string
| PutPmem pmem_config
| PatchPmem pmem_patch
| DeletePmem string
| PutHotplugMemory hotplug_memory_config
| PatchHotplugMemory u64
| PutCpuConfig cpu_config
| PutMachineConfig machine_config
| PatchMachineConfig machine_config_patch
| PutLogger logger_config
| PutMetrics string
| Action instance_action
| PatchVm vm_state_change
| SnapshotCreate snapshot_create_config
| SnapshotLoad snapshot_load_config
| Shutdown

definition action_class_of :: "api_action \<Rightarrow> action_class" where
  "action_class_of a = (case a of
      Action i \<Rightarrow> if i = InstanceStart then ClassInstanceStart else OtherAction
    | Shutdown \<Rightarrow> OtherAction
    | PatchVm _ \<Rightarrow> VmStateChange
    | PatchBalloon _ \<Rightarrow> BalloonResize
    | SnapshotCreate _ \<Rightarrow> ClassSnapshotCreate
    | SnapshotLoad _ \<Rightarrow> ClassSnapshotLoad
    | _ \<Rightarrow> PreBootConfig)"

definition action_is_pre_boot :: "api_action \<Rightarrow> bool" where
  "action_is_pre_boot a = (case a of
      PutBootSource _ \<Rightarrow> True | PutDrive _ \<Rightarrow> True | PutNetwork _ \<Rightarrow> True | PutVsock _ \<Rightarrow> True
    | PutMmds _ \<Rightarrow> True | PatchMmds _ \<Rightarrow> True | PutMmdsConfig _ \<Rightarrow> True | PutBalloon _ \<Rightarrow> True
    | PutEntropy _ \<Rightarrow> True | PutSerial _ \<Rightarrow> True | PutPmem _ \<Rightarrow> True | PutHotplugMemory _ \<Rightarrow> True
    | PutCpuConfig _ \<Rightarrow> True | PutMachineConfig _ \<Rightarrow> True | PatchMachineConfig _ \<Rightarrow> True
    | PutLogger _ \<Rightarrow> True | PutMetrics _ \<Rightarrow> True | PatchDrive _ \<Rightarrow> True | PatchNetwork _ \<Rightarrow> True
    | Action i \<Rightarrow> i = InstanceStart | SnapshotLoad _ \<Rightarrow> True | Shutdown \<Rightarrow> True
    | _ \<Rightarrow> False)"

definition action_is_post_boot :: "api_action \<Rightarrow> bool" where
  "action_is_post_boot a = (case a of
      PatchVm _ \<Rightarrow> True | PatchBalloon _ \<Rightarrow> True | PatchBalloonStats _ \<Rightarrow> True
    | PatchBalloonHinting _ \<Rightarrow> True | PatchHotplugMemory _ \<Rightarrow> True | PatchMmds _ \<Rightarrow> True
    | PutMmds _ \<Rightarrow> True | PatchDrive _ \<Rightarrow> True | PatchNetwork _ \<Rightarrow> True | PatchPmem _ \<Rightarrow> True
    | DeleteDrive _ \<Rightarrow> True | DeleteNetwork _ \<Rightarrow> True | DeletePmem _ \<Rightarrow> True
    | SnapshotCreate _ \<Rightarrow> True | Action i \<Rightarrow> i = FlushMetrics | Shutdown \<Rightarrow> True
    | _ \<Rightarrow> False)"

definition action_label :: "api_action \<Rightarrow> string" where
  "action_label a = (case a of
      PutBootSource _ \<Rightarrow> ''PUT /boot-source''
    | PutDrive _ \<Rightarrow> ''PUT /drives/{id}'' | PatchDrive _ \<Rightarrow> ''PATCH /drives/{id}''
    | DeleteDrive _ \<Rightarrow> ''DELETE /drives/{id}''
    | PutNetwork _ \<Rightarrow> ''PUT /network-interfaces/{id}'' | PatchNetwork _ \<Rightarrow> ''PATCH /network-interfaces/{id}''
    | DeleteNetwork _ \<Rightarrow> ''DELETE /network-interfaces/{id}''
    | PutVsock _ \<Rightarrow> ''PUT /vsock''
    | PutMmds _ \<Rightarrow> ''PUT /mmds'' | PatchMmds _ \<Rightarrow> ''PATCH /mmds'' | PutMmdsConfig _ \<Rightarrow> ''PUT /mmds/config''
    | PutBalloon _ \<Rightarrow> ''PUT /balloon'' | PatchBalloon _ \<Rightarrow> ''PATCH /balloon''
    | PatchBalloonStats _ \<Rightarrow> ''PATCH /balloon/statistics''
    | PatchBalloonHinting _ \<Rightarrow> ''PATCH /balloon/hinting/{op}''
    | PutEntropy _ \<Rightarrow> ''PUT /entropy'' | PutSerial _ \<Rightarrow> ''PUT /serial''
    | PutPmem _ \<Rightarrow> ''PUT /pmem/{id}'' | PatchPmem _ \<Rightarrow> ''PATCH /pmem/{id}'' | DeletePmem _ \<Rightarrow> ''DELETE /pmem/{id}''
    | PutHotplugMemory _ \<Rightarrow> ''PUT /hotplug/memory'' | PatchHotplugMemory _ \<Rightarrow> ''PATCH /hotplug/memory''
    | PutCpuConfig _ \<Rightarrow> ''PUT /cpu-config''
    | PutMachineConfig _ \<Rightarrow> ''PUT /machine-config'' | PatchMachineConfig _ \<Rightarrow> ''PATCH /machine-config''
    | PutLogger _ \<Rightarrow> ''PUT /logger'' | PutMetrics _ \<Rightarrow> ''PUT /metrics''
    | Action _ \<Rightarrow> ''PUT /actions'' | PatchVm _ \<Rightarrow> ''PATCH /vm''
    | SnapshotCreate _ \<Rightarrow> ''PUT /snapshot/create'' | SnapshotLoad _ \<Rightarrow> ''PUT /snapshot/load''
    | Shutdown \<Rightarrow> ''Shutdown'')"

datatype api_response = NoContent | JsonBody json | FaultResponse u16 fault

subsection \<open>Errors\<close>

datatype api_error =
  BadRequest fault
| PayloadTooLarge fault
| NotFound string
| Timeout string
| Internal fault

definition api_error_status :: "api_error \<Rightarrow> u16" where
  "api_error_status e = (case e of
      BadRequest _ \<Rightarrow> 400 | NotFound _ \<Rightarrow> 400 | PayloadTooLarge _ \<Rightarrow> 413
    | Timeout _ \<Rightarrow> 504 | Internal _ \<Rightarrow> 500)"

definition api_error_fault_message :: "api_error \<Rightarrow> fault" where
  "api_error_fault_message e = (case e of
      BadRequest s \<Rightarrow> s | PayloadTooLarge s \<Rightarrow> s | Internal s \<Rightarrow> s
    | NotFound path \<Rightarrow> Fault ''No such resource: {path}'' [ArgS path]
    | Timeout class \<Rightarrow> Fault ''VMM action timed out: {class}'' [ArgS class])"

subsection \<open>The controller\<close>

record timeout_table =
  tt_pre_boot_config :: nat
  tt_instance_start :: nat
  tt_snapshot_create :: nat
  tt_snapshot_load :: nat
  tt_vm_state_change :: nat
  tt_balloon_resize :: nat
  tt_other :: nat

definition timeouts_from_spec :: timeout_table where
  "timeouts_from_spec =
     \<lparr>tt_pre_boot_config = 5, tt_instance_start = 30, tt_snapshot_create = 300, tt_snapshot_load = 300,
      tt_vm_state_change = 5, tt_balloon_resize = 30, tt_other = 5\<rparr>"

definition for_class :: "timeout_table \<Rightarrow> action_class \<Rightarrow> nat" where
  "for_class self class = (case class of
      PreBootConfig \<Rightarrow> tt_pre_boot_config self
    | ClassInstanceStart \<Rightarrow> tt_instance_start self
    | ClassSnapshotCreate \<Rightarrow> tt_snapshot_create self
    | ClassSnapshotLoad \<Rightarrow> tt_snapshot_load self
    | VmStateChange \<Rightarrow> tt_vm_state_change self
    | BalloonResize \<Rightarrow> tt_balloon_resize self
    | OtherAction \<Rightarrow> tt_other self)"

record instance_info =
  ii_id :: string
  ii_state :: wire_vm_state
  ii_vmm_version :: string
  ii_app_name :: string

record controller_snapshot =
  cs_instance_info :: instance_info
  cs_firecracker_version :: string
  cs_vm_config :: json
  cs_phase :: lifecycle_phase

definition controller_snapshot_new :: "string \<Rightarrow> string \<Rightarrow> string \<Rightarrow> controller_snapshot" where
  "controller_snapshot_new instance_id firecracker_version vmm_version =
     \<lparr>cs_instance_info = \<lparr>ii_id = instance_id, ii_state = WireNotStarted, ii_vmm_version = vmm_version,
                         ii_app_name = ''Firecracker''\<rparr>,
      cs_firecracker_version = firecracker_version, cs_vm_config = JObject [],
      cs_phase = Uninitialized\<rparr>"

record limits_state =
  ls_host_ram_mib :: u64
  ls_mem_size_mib :: "u64 option"
  ls_running_drives :: u32
  ls_running_nics :: u32
  ls_running_pmem :: u32

definition from_host_ram_mib :: "u64 \<Rightarrow> limits_state" where
  "from_host_ram_mib host_ram_mib =
     \<lparr>ls_host_ram_mib = host_ram_mib, ls_mem_size_mib = None, ls_running_drives = 0,
      ls_running_nics = 0, ls_running_pmem = 0\<rparr>"

definition limits_default :: limits_state where
  "limits_default = from_host_ram_mib (1024 * 1024)"

record controller =
  ct_snapshot :: controller_snapshot
  ct_timeouts :: timeout_table
  ct_limits :: limits_state

definition controller_new_with_limits ::
  "controller_snapshot \<Rightarrow> timeout_table \<Rightarrow> limits_state \<Rightarrow> controller" where
  "controller_new_with_limits snapshot timeouts limits =
     \<lparr>ct_snapshot = snapshot, ct_timeouts = timeouts, ct_limits = limits\<rparr>"

definition controller_new :: "controller_snapshot \<Rightarrow> timeout_table \<Rightarrow> controller" where
  "controller_new snapshot timeouts = controller_new_with_limits snapshot timeouts limits_default"

definition store_snapshot :: "controller \<Rightarrow> controller_snapshot \<Rightarrow> controller" where
  "store_snapshot self snap = self\<lparr>ct_snapshot := snap\<rparr>"

definition cross_check_balloon :: "u64 \<Rightarrow> u64 option \<Rightarrow> api_error + unit" where
  "cross_check_balloon amount_mib mem_size_mib =
     (case mem_size_mib of
        None \<Rightarrow> Inr ()
      | Some mem \<Rightarrow>
          let max_balloon = saturating_sub mem 32
          in if amount_mib > max_balloon
             then Inl (BadRequest (Fault ''balloon amount_mib={} exceeds max ({} = mem_size_mib {} - 32)''
                    [ArgN (unat amount_mib), ArgN (unat max_balloon), ArgN (unat mem)]))
             else Inr ())"

definition validate_cross_field :: "controller \<Rightarrow> api_action \<Rightarrow> api_error + unit" where
  "validate_cross_field self action =
     (let g = ct_limits self
      in case action of
        PutMachineConfig cfg \<Rightarrow>
          if mc_mem_size_mib cfg > ls_host_ram_mib g
          then Inl (BadRequest (Fault ''mem_size_mib={} exceeds host RAM cap of {} MiB''
                 [ArgN (unat (mc_mem_size_mib cfg)), ArgN (unat (ls_host_ram_mib g))]))
          else Inr ()
      | PutBalloon b \<Rightarrow> cross_check_balloon (bc_amount_mib b) (ls_mem_size_mib g)
      | PatchBalloon amount \<Rightarrow> cross_check_balloon amount (ls_mem_size_mib g)
      | PutDrive _ \<Rightarrow>
          if unat (ls_running_drives g) \<ge> MAX_DRIVES
          then Inl (BadRequest (Fault ''drives: per-class cap {} exceeded'' [ArgN MAX_DRIVES])) else Inr ()
      | PutNetwork _ \<Rightarrow>
          if unat (ls_running_nics g) \<ge> MAX_NICS
          then Inl (BadRequest (Fault ''network_interfaces: per-class cap {} exceeded'' [ArgN MAX_NICS])) else Inr ()
      | PutPmem _ \<Rightarrow>
          if unat (ls_running_pmem g) \<ge> MAX_PMEM
          then Inl (BadRequest (Fault ''pmem: per-class cap {} exceeded'' [ArgN MAX_PMEM])) else Inr ()
      | _ \<Rightarrow> Inr ())"

datatype action_counter_kick = KickNone | SetMemSize u64 | AddDrive | AddNic | AddPmem

definition kick_for_action :: "api_action \<Rightarrow> action_counter_kick" where
  "kick_for_action action = (case action of
      PutMachineConfig cfg \<Rightarrow> SetMemSize (mc_mem_size_mib cfg)
    | PutDrive _ \<Rightarrow> AddDrive
    | PutNetwork _ \<Rightarrow> AddNic
    | PutPmem _ \<Rightarrow> AddPmem
    | _ \<Rightarrow> KickNone)"

definition kick_apply :: "action_counter_kick \<Rightarrow> controller \<Rightarrow> controller" where
  "kick_apply self ctl =
     (let g = ct_limits ctl
      in case self of
        KickNone \<Rightarrow> ctl
      | SetMemSize v \<Rightarrow> ctl\<lparr>ct_limits := g\<lparr>ls_mem_size_mib := Some v\<rparr>\<rparr>
      | AddDrive \<Rightarrow> ctl\<lparr>ct_limits := g\<lparr>ls_running_drives := saturating_add (ls_running_drives g) 1\<rparr>\<rparr>
      | AddNic \<Rightarrow> ctl\<lparr>ct_limits := g\<lparr>ls_running_nics := saturating_add (ls_running_nics g) 1\<rparr>\<rparr>
      | AddPmem \<Rightarrow> ctl\<lparr>ct_limits := g\<lparr>ls_running_pmem := saturating_add (ls_running_pmem g) 1\<rparr>\<rparr>)"

definition validate_phase :: "controller \<Rightarrow> api_action \<Rightarrow> api_error + unit" where
  "validate_phase self action =
     (let phase = cs_phase (ct_snapshot self)
      in if action = Action SendCtrlAltDel
         then Inl (BadRequest (Fault ''Invalid action: SendCtrlAltDel is x86-only and not supported on aarch64'' []))
         else if action = Shutdown then Inr ()
         else if phase_is_pre_boot phase \<and> \<not> action_is_pre_boot action
         then Inl (BadRequest (Fault ''The requested operation is not allowed before the microVM has booted'' []))
         else if phase_is_post_boot phase \<and> \<not> action_is_post_boot action
         then Inl (BadRequest (Fault ''The requested operation is not supported after the microVM has booted'' []))
         else if phase = Starting
         then Inl (BadRequest (Fault ''The requested operation cannot be served during boot orchestration'' []))
         else if phase = PhaseShutdown then Inl (Internal (Fault ''VMM is shut down'' []))
         else Inr ())"

text \<open>The first half of \<open>dispatch\<close>: the checks, and what the second half keeps of the action.\<close>

definition dispatch_begin :: "controller \<Rightarrow> api_action \<Rightarrow> api_error + action_class \<times> action_counter_kick" where
  "dispatch_begin self action =
     (case validate_phase self action of
        Inl e \<Rightarrow> Inl e
      | Inr _ \<Rightarrow>
          (case validate_cross_field self action of
             Inl e \<Rightarrow> Inl e
           | Inr _ \<Rightarrow> Inr (action_class_of action, kick_for_action action)))"

text \<open>What the channel and the timer can answer.\<close>

datatype vmm_outcome = SendFailed | Responded api_response | ResponseDropped | TimedOut

definition dispatch_end ::
  "controller \<Rightarrow> action_class \<Rightarrow> action_counter_kick \<Rightarrow> vmm_outcome \<Rightarrow> controller \<times> (api_error + api_response)" where
  "dispatch_end self class kick outcome =
     (case outcome of
        SendFailed \<Rightarrow> (self, Inl (Internal (Fault ''VMM event loop is gone'' [])))
      | Responded resp \<Rightarrow>
          (case resp of
             FaultResponse _ _ \<Rightarrow> (self, Inr resp)
           | _ \<Rightarrow> (kick_apply kick self, Inr resp))
      | ResponseDropped \<Rightarrow> (self, Inl (Internal (Fault ''VMM event loop is gone'' [])))
      | TimedOut \<Rightarrow> (self, Inl (Timeout (class_label class))))"

subsection \<open>HTTP handlers\<close>

type_synonym 'c dispatcher = "api_action \<Rightarrow> 'c \<Rightarrow> 'c \<times> (api_error + api_response)"

datatype http_body = EmptyBody | JsonReply json | FaultReply fault

text \<open>\<open>finish\<close>; a status outside of \<open>100..999\<close> is none for the HTTP library and becomes 400.\<close>

definition finish :: "api_response \<Rightarrow> u16 \<times> http_body" where
  "finish resp = (case resp of
      NoContent \<Rightarrow> (204, EmptyBody)
    | JsonBody v \<Rightarrow> (200, JsonReply v)
    | FaultResponse status m \<Rightarrow> (if 100 \<le> status \<and> status \<le> 999 then status else 400, FaultReply m))"

definition into_response :: "api_error + u16 \<times> http_body \<Rightarrow> u16 \<times> http_body" where
  "into_response r = (case r of
      Inr reply \<Rightarrow> reply
    | Inl e \<Rightarrow> (api_error_status e, FaultReply (api_error_fault_message e)))"

definition forward :: "'c dispatcher \<Rightarrow> api_error + api_action \<Rightarrow> 'c \<Rightarrow> 'c \<times> (api_error + u16 \<times> http_body)" where
  "forward D v c = (case v of
      Inl e \<Rightarrow> (c, Inl e)
    | Inr a \<Rightarrow> (case D a c of (c', r) \<Rightarrow> (c', map_sum id finish r)))"

definition validated :: "fault + 'a \<Rightarrow> ('a \<Rightarrow> api_action) \<Rightarrow> api_error + api_action" where
  "validated r f = map_sum BadRequest f r"

definition same_id :: "string \<Rightarrow> string \<Rightarrow> string \<Rightarrow> fault + unit" where
  "same_id message url_id body_id = reject_if (body_id \<noteq> url_id) (Fault message [])"

definition drive_id_message :: string where
  "drive_id_message = ''Invalid drive: URL id and body drive_id must match''"

definition iface_id_message :: string where
  "iface_id_message = ''Invalid network-interface: URL id and body iface_id must match''"

definition pmem_id_message :: string where
  "pmem_id_message = ''Invalid pmem: URL id and body pmem_id must match''"

definition put_boot_source :: "'c dispatcher \<Rightarrow> raw_boot_source \<Rightarrow> 'c \<Rightarrow> 'c \<times> (api_error + u16 \<times> http_body)" where
  "put_boot_source D raw = forward D (validated (boot_source_try_from raw) PutBootSource)"

definition put_machine_config :: "'c dispatcher \<Rightarrow> raw_machine_config \<Rightarrow> 'c \<Rightarrow> 'c \<times> (api_error + u16 \<times> http_body)" where
  "put_machine_config D raw = forward D (validated (machine_config_try_from raw) PutMachineConfig)"

definition patch_machine_config :: "'c dispatcher \<Rightarrow> raw_machine_config_patch \<Rightarrow> 'c \<Rightarrow> 'c \<times> (api_error + u16 \<times> http_body)" where
  "patch_machine_config D raw = forward D (validated (machine_config_patch_try_from raw) PatchMachineConfig)"

definition put_drive :: "'c dispatcher \<Rightarrow> string \<Rightarrow> raw_drive_config \<Rightarrow> 'c \<Rightarrow> 'c \<times> (api_error + u16 \<times> http_body)" where
  "put_drive D url_id raw =
     forward D (validated (and_then (same_id drive_id_message url_id (rdr_drive_id raw)) (\<lambda>_. drive_try_from raw)) PutDrive)"

definition patch_drive :: "'c dispatcher \<Rightarrow> string \<Rightarrow> raw_drive_patch \<Rightarrow> 'c \<Rightarrow> 'c \<times> (api_error + u16 \<times> http_body)" where
  "patch_drive D url_id raw =
     forward D (validated (and_then (same_id drive_id_message url_id (rdp_drive_id raw)) (\<lambda>_. drive_patch_try_from raw)) PatchDrive)"

definition delete_drive :: "'c dispatcher \<Rightarrow> string \<Rightarrow> 'c \<Rightarrow> 'c \<times> (api_error + u16 \<times> http_body)" where
  "delete_drive D raw = forward D (validated (drive_id_new raw) DeleteDrive)"

definition put_network :: "'c dispatcher \<Rightarrow> string \<Rightarrow> raw_network \<Rightarrow> 'c \<Rightarrow> 'c \<times> (api_error + u16 \<times> http_body)" where
  "put_network D url_id raw =
     forward D (validated (and_then (same_id iface_id_message url_id (rni_iface_id raw)) (\<lambda>_. network_try_from raw)) PutNetwork)"

definition patch_network :: "'c dispatcher \<Rightarrow> string \<Rightarrow> raw_network_patch \<Rightarrow> 'c \<Rightarrow> 'c \<times> (api_error + u16 \<times> http_body)" where
  "patch_network D url_id raw =
     forward D (validated (and_then (same_id iface_id_message url_id (rnp_iface_id raw)) (\<lambda>_. network_patch_try_from raw)) PatchNetwork)"

definition delete_network :: "'c dispatcher \<Rightarrow> string \<Rightarrow> 'c \<Rightarrow> 'c \<times> (api_error + u16 \<times> http_body)" where
  "delete_network D raw = forward D (validated (iface_id_new raw) DeleteNetwork)"

definition put_vsock :: "'c dispatcher \<Rightarrow> raw_vsock_config \<Rightarrow> 'c \<Rightarrow> 'c \<times> (api_error + u16 \<times> http_body)" where
  "put_vsock D raw = forward D (validated (vsock_try_from raw) PutVsock)"

definition put_mmds :: "'c dispatcher \<Rightarrow> json \<Rightarrow> 'c \<Rightarrow> 'c \<times> (api_error + u16 \<times> http_body)" where
  "put_mmds D value = forward D (Inr (PutMmds value))"

definition patch_mmds :: "'c dispatcher \<Rightarrow> json \<Rightarrow> 'c \<Rightarrow> 'c \<times> (api_error + u16 \<times> http_body)" where
  "patch_mmds D value = forward D (Inr (PatchMmds value))"

definition put_mmds_config :: "'c dispatcher \<Rightarrow> raw_mmds_config \<Rightarrow> 'c \<Rightarrow> 'c \<times> (api_error + u16 \<times> http_body)" where
  "put_mmds_config D raw = forward D (validated (mmds_config_try_from raw) PutMmdsConfig)"

definition put_balloon :: "'c dispatcher \<Rightarrow> raw_balloon_config \<Rightarrow> 'c \<Rightarrow> 'c \<times> (api_error + u16 \<times> http_body)" where
  "put_balloon D raw = forward D (validated (balloon_try_from raw) PutBalloon)"

definition patch_balloon :: "'c dispatcher \<Rightarrow> u64 \<Rightarrow> 'c \<Rightarrow> 'c \<times> (api_error + u16 \<times> http_body)" where
  "patch_balloon D amount_mib = forward D (Inr (PatchBalloon amount_mib))"

definition patch_balloon_statistics :: "'c dispatcher \<Rightarrow> u8 \<Rightarrow> 'c \<Rightarrow> 'c \<times> (api_error + u16 \<times> http_body)" where
  "patch_balloon_statistics D interval = forward D (Inr (PatchBalloonStats interval))"

definition patch_balloon_hinting :: "'c dispatcher \<Rightarrow> string \<Rightarrow> 'c \<Rightarrow> 'c \<times> (api_error + u16 \<times> http_body)" where
  "patch_balloon_hinting D raw = forward D (validated (from_url_segment raw) PatchBalloonHinting)"

definition put_entropy :: "'c dispatcher \<Rightarrow> json option \<Rightarrow> 'c \<Rightarrow> 'c \<times> (api_error + u16 \<times> http_body)" where
  "put_entropy D rate_limiter = forward D (Inr (PutEntropy rate_limiter))"

definition put_serial :: "'c dispatcher \<Rightarrow> string \<Rightarrow> 'c \<Rightarrow> 'c \<times> (api_error + u16 \<times> http_body)" where
  "put_serial D raw = forward D (validated (serial_try_from raw) PutSerial)"

definition put_pmem :: "'c dispatcher \<Rightarrow> string \<Rightarrow> raw_pmem_config \<Rightarrow> 'c \<Rightarrow> 'c \<times> (api_error + u16 \<times> http_body)" where
  "put_pmem D url_id raw =
     forward D (validated (and_then (same_id pmem_id_message url_id (rpm_pmem_id raw)) (\<lambda>_. pmem_try_from raw)) PutPmem)"

definition patch_pmem :: "'c dispatcher \<Rightarrow> string \<Rightarrow> raw_pmem_patch \<Rightarrow> 'c \<Rightarrow> 'c \<times> (api_error + u16 \<times> http_body)" where
  "patch_pmem D url_id raw =
     forward D (validated (and_then (same_id pmem_id_message url_id (rpp_pmem_id raw)) (\<lambda>_. pmem_patch_try_from raw)) PatchPmem)"

definition delete_pmem :: "'c dispatcher \<Rightarrow> string \<Rightarrow> 'c \<Rightarrow> 'c \<times> (api_error + u16 \<times> http_body)" where
  "delete_pmem D raw = forward D (validated (drive_id_new raw) DeletePmem)"

definition put_hotplug_memory :: "'c dispatcher \<Rightarrow> raw_hotplug_memory \<Rightarrow> 'c \<Rightarrow> 'c \<times> (api_error + u16 \<times> http_body)" where
  "put_hotplug_memory D raw = forward D (validated (hotplug_memory_try_from raw) PutHotplugMemory)"

definition patch_hotplug_memory :: "'c dispatcher \<Rightarrow> u64 \<Rightarrow> 'c \<Rightarrow> 'c \<times> (api_error + u16 \<times> http_body)" where
  "patch_hotplug_memory D raw = forward D (validated (hotplug_memory_update_try_from raw) PatchHotplugMemory)"

definition put_cpu_config :: "'c dispatcher \<Rightarrow> raw_cpu_config \<Rightarrow> 'c \<Rightarrow> 'c \<times> (api_error + u16 \<times> http_body)" where
  "put_cpu_config D raw = forward D (validated (cpu_config_try_from raw) PutCpuConfig)"

definition put_actions :: "'c dispatcher \<Rightarrow> instance_action \<Rightarrow> 'c \<Rightarrow> 'c \<times> (api_error + u16 \<times> http_body)" where
  "put_actions D action_type = forward D (Inr (Action action_type))"

definition patch_vm :: "'c dispatcher \<Rightarrow> vm_state_change \<Rightarrow> 'c \<Rightarrow> 'c \<times> (api_error + u16 \<times> http_body)" where
  "patch_vm D st = forward D (Inr (case st of Paused \<Rightarrow> PatchVm Paused | Resumed \<Rightarrow> PatchVm Resumed))"

definition put_snapshot_create :: "'c dispatcher \<Rightarrow> raw_snapshot_create \<Rightarrow> 'c \<Rightarrow> 'c \<times> (api_error + u16 \<times> http_body)" where
  "put_snapshot_create D raw = forward D (validated (snapshot_create_try_from raw) SnapshotCreate)"

definition put_snapshot_load :: "'c dispatcher \<Rightarrow> raw_snapshot_load \<Rightarrow> 'c \<Rightarrow> 'c \<times> (api_error + u16 \<times> http_body)" where
  "put_snapshot_load D raw = forward D (validated (snapshot_load_try_from raw) SnapshotLoad)"

definition put_logger :: "'c dispatcher \<Rightarrow> raw_logger_config \<Rightarrow> 'c \<Rightarrow> 'c \<times> (api_error + u16 \<times> http_body)" where
  "put_logger D raw = forward D (validated (logger_try_from raw) PutLogger)"

definition put_metrics :: "'c dispatcher \<Rightarrow> string \<Rightarrow> 'c \<Rightarrow> 'c \<times> (api_error + u16 \<times> http_body)" where
  "put_metrics D raw = forward D (validated (metrics_try_from raw) PutMetrics)"

text \<open>The read-only handlers answer from the snapshot.\<close>

definition json_get :: "json \<Rightarrow> string \<Rightarrow> json option" where
  "json_get v key = (case v of
      JObject entries \<Rightarrow> map_of entries (map of_char key)
    | _ \<Rightarrow> None)"

definition get_root :: "controller_snapshot \<Rightarrow> instance_info" where
  "get_root snap = cs_instance_info snap"

definition get_version :: "controller_snapshot \<Rightarrow> string" where
  "get_version snap = cs_firecracker_version snap"

definition get_vm_config :: "controller_snapshot \<Rightarrow> json" where
  "get_vm_config snap = cs_vm_config snap"

definition member_or_empty :: "controller_snapshot \<Rightarrow> string \<Rightarrow> json" where
  "member_or_empty snap key = (case json_get (cs_vm_config snap) key of Some v \<Rightarrow> v | None \<Rightarrow> JObject [])"

definition get_machine_config :: "controller_snapshot \<Rightarrow> json" where
  "get_machine_config snap = member_or_empty snap ''machine-config''"

definition get_balloon :: "controller_snapshot \<Rightarrow> json" where
  "get_balloon snap = member_or_empty snap ''balloon''"

definition get_balloon_statistics :: "controller_snapshot \<Rightarrow> json" where
  "get_balloon_statistics snap = member_or_empty snap ''balloon_statistics''"

definition get_mmds :: "controller_snapshot \<Rightarrow> json" where
  "get_mmds snap = (case json_get (cs_vm_config snap) ''mmds'' of Some v \<Rightarrow> v | None \<Rightarrow> JNull)"

definition get_hotplug_memory :: "controller_snapshot \<Rightarrow> json" where
  "get_hotplug_memory snap = member_or_empty snap ''hotplug-memory''"

definition fallback :: "string \<Rightarrow> api_error" where
  "fallback uri = NotFound uri"

subsection \<open>Routes\<close>

text \<open>A mutating request after routing and JSON decoding: the method and path select the
  constructor, the segment of the path comes before the body.\<close>

datatype api_request =
  RPatchVm vm_state_change
| RPutMachineConfig raw_machine_config | RPatchMachineConfig raw_machine_config_patch
| RPutBootSource raw_boot_source
| RPutDrive string raw_drive_config | RPatchDrive string raw_drive_patch | RDeleteDrive string
| RPutNetwork string raw_network | RPatchNetwork string raw_network_patch | RDeleteNetwork string
| RPutVsock raw_vsock_config
| RPutMmds json | RPatchMmds json | RPutMmdsConfig raw_mmds_config
| RPutBalloon raw_balloon_config | RPatchBalloon u64 | RPatchBalloonStats u8 | RPatchBalloonHinting string
| RPutEntropy "json option" | RPutSerial string
| RPutPmem string raw_pmem_config | RPatchPmem string raw_pmem_patch | RDeletePmem string
| RPutHotplugMemory raw_hotplug_memory | RPatchHotplugMemory u64
| RPutCpuConfig raw_cpu_config
| RPutActions instance_action
| RPutSnapshotCreate raw_snapshot_create | RPutSnapshotLoad raw_snapshot_load
| RPutLogger raw_logger_config | RPutMetrics string
| RUnrouted string

definition router :: "'c dispatcher \<Rightarrow> api_request \<Rightarrow> 'c \<Rightarrow> 'c \<times> (api_error + u16 \<times> http_body)" where
  "router D req = (case req of
      RPatchVm st \<Rightarrow> patch_vm D st
    | RPutMachineConfig raw \<Rightarrow> put_machine_config D raw
    | RPatchMachineConfig raw \<Rightarrow> patch_machine_config D raw
    | RPutBootSource raw \<Rightarrow> put_boot_source D raw
    | RPutDrive i raw \<Rightarrow> put_drive D i raw
    | RPatchDrive i raw \<Rightarrow> patch_drive D i raw
    | RDeleteDrive i \<Rightarrow> delete_drive D i
    | RPutNetwork i raw \<Rightarrow> put_network D i raw
    | RPatchNetwork i raw \<Rightarrow> patch_network D i raw
    | RDeleteNetwork i \<Rightarrow> delete_network D i
    | RPutVsock raw \<Rightarrow> put_vsock D raw
    | RPutMmds v \<Rightarrow> put_mmds D v
    | RPatchMmds v \<Rightarrow> patch_mmds D v
    | RPutMmdsConfig raw \<Rightarrow> put_mmds_config D raw
    | RPutBalloon raw \<Rightarrow> put_balloon D raw
    | RPatchBalloon amount \<Rightarrow> patch_balloon D amount
    | RPatchBalloonStats i \<Rightarrow> patch_balloon_statistics D i
    | RPatchBalloonHinting op \<Rightarrow> patch_balloon_hinting D op
    | RPutEntropy r \<Rightarrow> put_entropy D r
    | RPutSerial p \<Rightarrow> put_serial D p
    | RPutPmem i raw \<Rightarrow> put_pmem D i raw
    | RPatchPmem i raw \<Rightarrow> patch_pmem D i raw
    | RDeletePmem i \<Rightarrow> delete_pmem D i
    | RPutHotplugMemory raw \<Rightarrow> put_hotplug_memory D raw
    | RPatchHotplugMemory n \<Rightarrow> patch_hotplug_memory D n
    | RPutCpuConfig raw \<Rightarrow> put_cpu_config D raw
    | RPutActions a \<Rightarrow> put_actions D a
    | RPutSnapshotCreate raw \<Rightarrow> put_snapshot_create D raw
    | RPutSnapshotLoad raw \<Rightarrow> put_snapshot_load D raw
    | RPutLogger raw \<Rightarrow> put_logger D raw
    | RPutMetrics p \<Rightarrow> put_metrics D p
    | RUnrouted uri \<Rightarrow> (\<lambda>c. (c, Inl (fallback uri))))"

subsection \<open>Replay of a configuration file\<close>

record config_file =
  cf_boot_source :: "raw_boot_source option"
  cf_drives :: "raw_drive_config list"
  cf_machine_config :: "raw_machine_config option"
  cf_cpu_config :: "raw_cpu_config option"
  cf_network_interfaces :: "raw_network list"
  cf_vsock :: "raw_vsock_config option"
  cf_mmds_config :: "raw_mmds_config option"
  cf_mmds :: "json option"
  cf_balloon :: "raw_balloon_config option"
  cf_entropy :: "json option option"
  cf_serial :: "string option"
  cf_pmem :: "raw_pmem_config list"
  cf_hotplug_memory :: "raw_hotplug_memory option"
  cf_logger :: "raw_logger_config option"
  cf_metrics :: "string option"

datatype replay_error =
  MissingBootSource
| CollectionCap string nat
| ReplayValidation fault
| ReplayDispatch string api_error
| ReplayFault string u16 fault

definition replay_dispatch :: "'c dispatcher \<Rightarrow> api_action \<Rightarrow> 'c \<Rightarrow> 'c \<times> (replay_error + unit)" where
  "replay_dispatch D action c =
     (case D action c of
        (c', Inl e) \<Rightarrow> (c', Inl (ReplayDispatch (action_label action) e))
      | (c', Inr (FaultResponse status m)) \<Rightarrow> (c', Inl (ReplayFault (action_label action) status m))
      | (c', Inr _) \<Rightarrow> (c', Inr ()))"

text \<open>The members of the file in the order of the replay, each with its conversion; an action is
  dispatched as soon as its member is validated, so a refused member leaves the earlier ones in
  place.\<close>

definition config_steps :: "config_file \<Rightarrow> bool \<Rightarrow> (fault + api_action) list" where
  "config_steps cfg start_microvm =
     map (\<lambda>raw. map_sum id PutMachineConfig (machine_config_try_from raw)) (case cf_machine_config cfg of None \<Rightarrow> [] | Some r \<Rightarrow> [r]) @
     map (\<lambda>raw. map_sum id PutCpuConfig (cpu_config_try_from raw)) (case cf_cpu_config cfg of None \<Rightarrow> [] | Some r \<Rightarrow> [r]) @
     map (\<lambda>raw. map_sum id PutBootSource (boot_source_try_from raw)) (case cf_boot_source cfg of None \<Rightarrow> [] | Some r \<Rightarrow> [r]) @
     map (\<lambda>raw. map_sum id PutDrive (drive_try_from raw)) (cf_drives cfg) @
     map (\<lambda>raw. map_sum id PutNetwork (network_try_from raw)) (cf_network_interfaces cfg) @
     map (\<lambda>raw. map_sum id PutVsock (vsock_try_from raw)) (case cf_vsock cfg of None \<Rightarrow> [] | Some r \<Rightarrow> [r]) @
     map (\<lambda>raw. map_sum id PutMmdsConfig (mmds_config_try_from raw)) (case cf_mmds_config cfg of None \<Rightarrow> [] | Some r \<Rightarrow> [r]) @
     map (\<lambda>value. Inr (PutMmds value)) (case cf_mmds cfg of None \<Rightarrow> [] | Some r \<Rightarrow> [r]) @
     map (\<lambda>raw. map_sum id PutBalloon (balloon_try_from raw)) (case cf_balloon cfg of None \<Rightarrow> [] | Some r \<Rightarrow> [r]) @
     map (\<lambda>raw. Inr (PutEntropy raw)) (case cf_entropy cfg of None \<Rightarrow> [] | Some r \<Rightarrow> [r]) @
     map (\<lambda>raw. map_sum id PutSerial (serial_try_from raw)) (case cf_serial cfg of None \<Rightarrow> [] | Some r \<Rightarrow> [r]) @
     map (\<lambda>raw. map_sum id PutPmem (pmem_try_from raw)) (cf_pmem cfg) @
     map (\<lambda>raw. map_sum id PutHotplugMemory (hotplug_memory_try_from raw)) (case cf_hotplug_memory cfg of None \<Rightarrow> [] | Some r \<Rightarrow> [r]) @
     map (\<lambda>raw. map_sum id PutLogger (logger_try_from raw)) (case cf_logger cfg of None \<Rightarrow> [] | Some r \<Rightarrow> [r]) @
     map (\<lambda>raw. map_sum id PutMetrics (metrics_try_from raw)) (case cf_metrics cfg of None \<Rightarrow> [] | Some r \<Rightarrow> [r]) @
     (if start_microvm then [Inr (Action InstanceStart)] else [])"

fun replay_steps :: "'c dispatcher \<Rightarrow> (fault + api_action) list \<Rightarrow> 'c \<Rightarrow> 'c \<times> (replay_error + unit)" where
  "replay_steps D [] c = (c, Inr ())"
| "replay_steps D (Inl e # steps) c = (c, Inl (ReplayValidation e))"
| "replay_steps D (Inr a # steps) c =
     (case replay_dispatch D a c of
        (c', Inl e) \<Rightarrow> (c', Inl e)
      | (c', Inr _) \<Rightarrow> replay_steps D steps c')"

definition replay_config :: "'c dispatcher \<Rightarrow> config_file \<Rightarrow> bool \<Rightarrow> 'c \<Rightarrow> 'c \<times> (replay_error + unit)" where
  "replay_config D cfg start_microvm c =
     (if cf_boot_source cfg = None then (c, Inl MissingBootSource)
      else if length (cf_drives cfg) > MAX_DRIVES then (c, Inl (CollectionCap ''drives'' MAX_DRIVES))
      else if length (cf_network_interfaces cfg) > MAX_NICS
      then (c, Inl (CollectionCap ''network-interfaces'' MAX_NICS))
      else if length (cf_pmem cfg) > MAX_PMEM then (c, Inl (CollectionCap ''pmem'' MAX_PMEM))
      else replay_steps D (config_steps cfg start_microvm) c)"

end
