(* ===== verification/Api_Validation.thy ===== *)
theory Api_Validation
  imports Api_Schema
begin

text \<open>
  What the conversions of the request bodies accept: for every newtype and every body the
  predicate its validated form satisfies (\<open>path_ok\<close>, \<open>drive_ok\<close>, \<open>snapshot_load_ok\<close> and
  so on), and the exact set of strings taken as a MAC address.
\<close>

subsection \<open>What the conversions accept\<close>

lemma and_then_Inr [simp]: "and_then r k = Inr y \<longleftrightarrow> (\<exists>x. r = Inr x \<and> k x = Inr y)"
  by (cases r) (auto simp: and_then_def)

lemma in_field_Inr [simp]: "in_field f r = Inr y \<longleftrightarrow> r = Inr y"
  by (cases r) (auto simp: in_field_def)

lemma opt_try_Inr [simp]:
  "opt_try f o' = Inr y \<longleftrightarrow> (case o' of None \<Rightarrow> y = None | Some x \<Rightarrow> \<exists>z. f x = Inr z \<and> y = Some z)"
  by (cases o'; cases "f (the o')") (auto simp: opt_try_def)

lemma opt_check_Inr [simp]: "opt_check f o' = Inr u \<longleftrightarrow> (\<forall>x. o' = Some x \<longrightarrow> f x = Inr u)"
  by (cases o') (auto simp: opt_check_def)

lemma reject_if_Inr [simp]: "reject_if b e = Inr u \<longleftrightarrow> \<not> b"
  by (simp add: reject_if_def)

lemma ensure_no_nul_Inr [simp]: "ensure_no_nul s f = Inr u \<longleftrightarrow> \<not> has_nul s"
  by (simp add: ensure_no_nul_def)

text \<open>The promise of each newtype.\<close>

definition path_ok :: "string \<Rightarrow> bool" where
  "path_ok s = (s \<noteq> [] \<and> length s \<le> PATH_MAX \<and> \<not> has_nul s)"

definition uds_path_ok :: "string \<Rightarrow> bool" where
  "uds_path_ok s = (s \<noteq> [] \<and> length s \<le> UDS_PATH_MAX \<and> \<not> has_nul s)"

definition host_dev_name_ok :: "string \<Rightarrow> bool" where
  "host_dev_name_ok s = (s \<noteq> [] \<and> length s \<le> HOST_DEV_NAME_MAX_BYTES \<and> \<not> has_nul s)"

definition partuuid_ok :: "string \<Rightarrow> bool" where
  "partuuid_ok s = (s \<noteq> [] \<and> length s \<le> 64 \<and> list_all (\<lambda>b. is_ascii_alphanumeric b \<or> b = CHR ''-'') s)"

lemma identifier_new_Inr [simp]:
  "instance_id_new s = Inr i \<longleftrightarrow> is_valid_identifier s \<and> i = s"
  "drive_id_new s = Inr i \<longleftrightarrow> is_valid_identifier s \<and> i = s"
  "iface_id_new s = Inr i \<longleftrightarrow> is_valid_identifier s \<and> i = s"
  "vsock_id_new s = Inr i \<longleftrightarrow> is_valid_identifier s \<and> i = s"
  by (auto simp: instance_id_new_def drive_id_new_def iface_id_new_def vsock_id_new_def)

lemma path_new_Inr [simp]:
  "safe_path_new s = Inr p \<longleftrightarrow> path_ok s \<and> p = s"
  "uds_path_new s = Inr p \<longleftrightarrow> uds_path_ok s \<and> p = s"
  "host_dev_name_new s = Inr p \<longleftrightarrow> host_dev_name_ok s \<and> p = s"
  by (auto simp: safe_path_new_def uds_path_new_def host_dev_name_new_def path_ok_def uds_path_ok_def
      host_dev_name_ok_def ensure_no_nul_def)

lemma size_new_Inr [simp]:
  "mem_size_mib_new v = Inr w \<longleftrightarrow> v \<noteq> 0 \<and> w = v"
  "bad_vcpu_count n = Inr u \<longleftrightarrow> n \<noteq> 0 \<and> n \<le> MAX_VCPU_COUNT"
  "validate_partuuid s = Inr u \<longleftrightarrow> partuuid_ok s"
  "pmem_validate_partuuid s = Inr u \<longleftrightarrow> partuuid_ok s"
  "cap_check f xs = Inr u \<longleftrightarrow> length xs \<le> MAX_REG_MODIFIERS"
  by (auto simp: mem_size_mib_new_def bad_vcpu_count_def validate_partuuid_def pmem_validate_partuuid_def
      partuuid_ok_def cap_check_def)

lemma iface_ids_Inr [simp]: "iface_ids ss = Inr is \<longleftrightarrow> list_all is_valid_identifier ss \<and> is = ss"
  by (induction ss arbitrary: "is") auto

subsection \<open>Validated bodies\<close>

definition opt_ok :: "('a \<Rightarrow> bool) \<Rightarrow> 'a option \<Rightarrow> bool" where
  "opt_ok P o' = (case o' of None \<Rightarrow> True | Some x \<Rightarrow> P x)"

lemma opt_ok_simps [simp]: "opt_ok P None" "opt_ok P (Some x) = P x"
  by (simp_all add: opt_ok_def)

definition boot_source_ok :: "boot_source_config \<Rightarrow> bool" where
  "boot_source_ok c = (path_ok (bs_kernel_image_path c) \<and> opt_ok path_ok (bs_initrd_path c) \<and>
     opt_ok (\<lambda>a. length a \<le> BOOT_ARGS_MAX \<and> \<not> has_nul a) (bs_boot_args c))"

definition machine_config_ok :: "machine_config \<Rightarrow> bool" where
  "machine_config_ok c = (mc_vcpu_count c \<noteq> 0 \<and> mc_vcpu_count c \<le> MAX_VCPU_COUNT \<and>
     mc_mem_size_mib c \<noteq> 0 \<and> \<not> mc_smt c)"

definition machine_config_patch_ok :: "machine_config_patch \<Rightarrow> bool" where
  "machine_config_patch_ok c = (opt_ok (\<lambda>v. v \<noteq> 0 \<and> v \<le> MAX_VCPU_COUNT) (mp_vcpu_count c) \<and>
     opt_ok (\<lambda>m. m \<noteq> 0) (mp_mem_size_mib c) \<and> mp_smt c \<noteq> Some True)"

definition drive_ok :: "drive_config \<Rightarrow> bool" where
  "drive_ok c = (is_valid_identifier (dr_drive_id c) \<and> path_ok (dr_path_on_host c) \<and>
     opt_ok partuuid_ok (dr_partuuid c) \<and>
     opt_ok (\<lambda>s. s \<noteq> [] \<and> length s \<le> 1024) (dr_vhost_user_socket c))"

definition drive_patch_ok :: "drive_patch \<Rightarrow> bool" where
  "drive_patch_ok c = (is_valid_identifier (dp_drive_id c) \<and> opt_ok path_ok (dp_path_on_host c))"

definition network_ok :: "network_config \<Rightarrow> bool" where
  "network_ok c = (is_valid_identifier (ni_iface_id c) \<and> host_dev_name_ok (ni_host_dev_name c) \<and>
     opt_ok (\<lambda>m. length m = 6) (ni_guest_mac c))"

definition vsock_ok :: "api_vsock_config \<Rightarrow> bool" where
  "vsock_ok c = (opt_ok is_valid_identifier (avs_vsock_id c) \<and> MIN_GUEST_CID \<le> avs_guest_cid c \<and>
     uds_path_ok (avs_uds_path c))"

definition pmem_ok :: "pmem_config \<Rightarrow> bool" where
  "pmem_ok c = (is_valid_identifier (pm_pmem_id c) \<and> path_ok (pm_path_on_host c) \<and>
     opt_ok partuuid_ok (pm_partuuid c))"

definition hotplug_memory_ok :: "hotplug_memory_config \<Rightarrow> bool" where
  "hotplug_memory_ok c = (hm_total_size_mib c \<noteq> 0 \<and> hm_total_size_mib c \<le> MAX_TOTAL_SIZE_MIB \<and>
     hm_block_size_mib c \<noteq> 0 \<and> hm_block_size_mib c \<le> hm_slot_size_mib c \<and>
     hm_slot_size_mib c \<le> hm_total_size_mib c \<and> hm_total_size_mib c mod hm_slot_size_mib c = 0)"

definition cpu_config_ok :: "cpu_config \<Rightarrow> bool" where
  "cpu_config_ok c = list_all (\<lambda>xs. length xs \<le> MAX_REG_MODIFIERS)
     [cc_reg_modifiers c, cc_vcpu_features c, cc_cpuid_modifiers c, cc_msr_modifiers c, cc_kvm_capabilities c]"

definition mmds_config_ok :: "mmds_config \<Rightarrow> bool" where
  "mmds_config_ok c = (mmc_network_interfaces c \<noteq> [] \<and> length (mmc_network_interfaces c) \<le> MAX_NICS \<and>
     list_all is_valid_identifier (mmc_network_interfaces c) \<and> is_link_local (mmc_ipv4_address c) \<and>
     mmc_token_ttl_seconds c \<noteq> 0 \<and> mmc_token_ttl_seconds c \<le> MAX_TOKEN_TTL_SECONDS)"

definition logger_ok :: "logger_config \<Rightarrow> bool" where
  "logger_ok c = (path_ok (lg_log_path c) \<and> opt_ok (\<lambda>m. m \<noteq> [] \<and> length m \<le> 128) (lg_module c))"

definition snapshot_create_ok :: "snapshot_create_config \<Rightarrow> bool" where
  "snapshot_create_ok c = (path_ok (sc_snapshot_path c) \<and> path_ok (sc_mem_file_path c) \<and>
     opt_ok (\<lambda>v. v \<noteq> [] \<and> length v \<le> 32) (sc_version c))"

text \<open>Exactly one of the two paths of a memory backend is present, the one its type calls for.\<close>

definition mem_backend_ok :: "mem_backend \<Rightarrow> bool" where
  "mem_backend_ok b = (case mb_backend_type b of
      BackendFile \<Rightarrow> mb_backend_path_file b \<noteq> None \<and> opt_ok path_ok (mb_backend_path_file b) \<and> mb_backend_path_uds b = None
    | BackendUffd \<Rightarrow> mb_backend_path_uds b \<noteq> None \<and> opt_ok uds_path_ok (mb_backend_path_uds b) \<and> mb_backend_path_file b = None)"

definition snapshot_load_ok :: "snapshot_load_config \<Rightarrow> bool" where
  "snapshot_load_ok c = (path_ok (sl_snapshot_path c) \<and> mem_backend_ok (sl_mem_backend c))"

lemma mac_parse_loop_length:
  "mac_parse_loop i ps bs n = Inr (bs', n') \<Longrightarrow> length bs' = length bs"
  by (induction i ps bs n rule: mac_parse_loop.induct) (auto split: if_splits option.splits)

lemma mac_parse_length: "mac_parse s = Inr bs \<Longrightarrow> length bs = 6"
  by (auto simp: mac_parse_def split: sum.splits if_splits dest: mac_parse_loop_length)

lemma boot_source_typed: "boot_source_try_from raw = Inr c \<Longrightarrow> boot_source_ok c"
  by (cases "rbs_boot_args raw")
    (auto simp: boot_source_try_from_def boot_source_ok_def opt_ok_def split: option.splits if_splits)

lemma machine_config_typed: "machine_config_try_from raw = Inr c \<Longrightarrow> machine_config_ok c"
  by (auto simp: machine_config_try_from_def machine_config_ok_def)

lemma machine_config_patch_typed:
  "machine_config_patch_try_from raw = Inr c \<Longrightarrow> machine_config_patch_ok c"
  by (auto simp: machine_config_patch_try_from_def machine_config_patch_ok_def opt_ok_def split: option.splits)

lemma drive_typed: "drive_try_from raw = Inr c \<Longrightarrow> drive_ok c"
  by (auto simp: drive_try_from_def drive_ok_def opt_ok_def split: option.splits if_splits)

lemma drive_patch_typed: "drive_patch_try_from raw = Inr c \<Longrightarrow> drive_patch_ok c"
  by (auto simp: drive_patch_try_from_def drive_patch_ok_def opt_ok_def split: option.splits)

lemma network_typed: "network_try_from raw = Inr c \<Longrightarrow> network_ok c"
  by (auto simp: network_try_from_def network_ok_def opt_ok_def mac_parse_length split: option.splits)

lemma vsock_typed: "vsock_try_from raw = Inr c \<Longrightarrow> vsock_ok c"
  by (auto simp: vsock_try_from_def vsock_ok_def opt_ok_def not_less split: option.splits)

lemma pmem_typed: "pmem_try_from raw = Inr c \<Longrightarrow> pmem_ok c"
  by (auto simp: pmem_try_from_def pmem_ok_def opt_ok_def split: option.splits)

lemma hotplug_memory_typed: "hotplug_memory_try_from raw = Inr c \<Longrightarrow> hotplug_memory_ok c"
proof -
  assume a: "hotplug_memory_try_from raw = Inr c"
  let ?t = "rhm_total_size_mib raw" and ?s = "rhm_slot_size_mib raw"
  have "?s \<le> ?t" if "?t mod ?s = 0" "?t \<noteq> 0"
    using that by (metis linorder_not_less mod_word_less)
  then show ?thesis using a
    by (simp add: hotplug_memory_try_from_def hotplug_memory_ok_def Let_def not_less split: if_splits,
        hypsubst, simp)
qed

lemma cpu_config_typed: "cpu_config_try_from raw = Inr c \<Longrightarrow> cpu_config_ok c"
  by (auto simp: cpu_config_try_from_def cpu_config_ok_def Let_def)

lemma mmds_config_typed: "mmds_config_try_from raw = Inr c \<Longrightarrow> mmds_config_ok c"
  by (auto simp: mmds_config_try_from_def mmds_config_ok_def Let_def)

lemma logger_typed: "logger_try_from raw = Inr c \<Longrightarrow> logger_ok c"
  by (auto simp: logger_try_from_def logger_ok_def opt_ok_def split: option.splits)

lemma snapshot_create_typed: "snapshot_create_try_from raw = Inr c \<Longrightarrow> snapshot_create_ok c"
  by (auto simp: snapshot_create_try_from_def snapshot_create_ok_def opt_ok_def split: option.splits)

lemma mem_backend_typed: "mem_backend_try_from ty p = Inr b \<Longrightarrow> mem_backend_ok b"
  by (auto simp: mem_backend_try_from_def mem_backend_ok_def split: mem_backend_type.splits)

lemma mem_backend_file_ok [simp]:
  "mem_backend_ok \<lparr>mb_backend_type = BackendFile, mb_backend_path_file = Some p, mb_backend_path_uds = None\<rparr> = path_ok p"
  by (simp add: mem_backend_ok_def)

lemma snapshot_load_typed: "snapshot_load_try_from raw = Inr c \<Longrightarrow> snapshot_load_ok c"
  by (auto simp: snapshot_load_try_from_def snapshot_load_ok_def mem_backend_typed split: option.splits)

lemmas typed_bodies = boot_source_typed machine_config_typed machine_config_patch_typed drive_typed
  drive_patch_typed network_typed vsock_typed pmem_typed hotplug_memory_typed cpu_config_typed
  mmds_config_typed logger_typed snapshot_create_typed snapshot_load_typed

subsection \<open>MAC addresses accepted\<close>

definition mac_octet :: "string \<Rightarrow> u8 option" where
  "mac_octet p = (if length p = 2 then u8_from_str_radix_16 p else None)"

lemma mac_parse_loop_Inr:
  assumes "length bs = 6"
  shows "mac_parse_loop i ps bs n = Inr (bs', n') \<longleftrightarrow>
    (i + length ps \<le> 6 \<or> ps = []) \<and> list_all (\<lambda>p. mac_octet p \<noteq> None) ps \<and>
    bs' = take i bs @ map (the \<circ> mac_octet) ps @ drop (i + length ps) bs \<and>
    n' = (if ps = [] then n else i + length ps)"
  using assms
proof (induction i ps bs n rule: mac_parse_loop.induct)
  case (1 i bs n)
  then show ?case by auto
next
  case (2 i part ps bs n)
  show ?case
  proof (cases "i < 6 \<and> mac_octet part \<noteq> None")
    case False
    then show ?thesis by (auto simp: mac_octet_def split: if_splits option.splits)
  next
    case True
    then obtain b where b: "length part = 2" "u8_from_str_radix_16 part = Some b" and i: "i < length bs"
      using 2 by (auto simp: mac_octet_def split: if_splits)
    have t: "take (Suc i) (bs[i := b]) = take i bs @ [b]"
      using i by (simp add: take_Suc_conv_app_nth)
    have "mac_octet part = Some b" using b by (simp add: mac_octet_def)
    then show ?thesis using True b 2 i t by auto
  qed
qed

lemma map_octets_Some:
  "(list_all (\<lambda>p. \<exists>b. f p = Some b) ps \<and> bs = map (the \<circ> f) ps) = list_all2 (\<lambda>p b. f p = Some b) ps bs"
proof (induction ps arbitrary: bs)
  case (Cons p ps)
  then show ?case by (cases bs) auto
qed simp

text \<open>The text of an octet: two hexadecimal digits, or a plus sign and one digit.\<close>

definition octet_text :: "string \<Rightarrow> u8 \<Rightarrow> bool" where
  "octet_text p b = (\<exists>c d w. p = [c, d] \<and> hex_digit d = Some w \<and>
     (c = CHR ''+'' \<and> b = word_of_nat w \<or> (\<exists>v. hex_digit c = Some v \<and> b = word_of_nat (16 * v + w))))"

lemma hex_digit_bound: "hex_digit c = Some v \<Longrightarrow> v < 16"
  by (auto simp: hex_digit_def Let_def split: if_splits)

lemma mac_octet_Some: "mac_octet p = Some b \<longleftrightarrow> octet_text p b"
proof (cases "length p = 2")
  case False
  then show ?thesis by (auto simp: mac_octet_def octet_text_def)
next
  case True
  then obtain c d where p: "p = [c, d]" by (auto simp: length_Suc_conv numeral_2_eq_2)
  have plus: "hex_digit CHR ''+'' = None" by (simp add: hex_digit_def)
  have "v * 16 + w \<le> 255" if "hex_digit c = Some v" "hex_digit d = Some w" for v w
    using hex_digit_bound [OF that(1)] hex_digit_bound [OF that(2)] by simp
  then show ?thesis
    using p plus hex_digit_bound [of c] hex_digit_bound [of d]
    by (auto simp: mac_octet_def octet_text_def u8_from_str_radix_16_def algebra_simps
        split: option.splits if_splits)
qed

lemma mac_parse_Inr:
  "mac_parse s = Inr bs \<longleftrightarrow> length (split_colon s) = 6 \<and> list_all2 octet_text (split_colon s) bs"
proof -
  have "mac_parse s = Inr bs \<longleftrightarrow> mac_parse_loop 0 (split_colon s) (replicate 6 0) 0 = Inr (bs, 6)"
    by (auto simp: mac_parse_def split: sum.splits if_splits)
  also have "\<dots> \<longleftrightarrow> length (split_colon s) = 6 \<and> list_all (\<lambda>p. mac_octet p \<noteq> None) (split_colon s) \<and>
      bs = map (the \<circ> mac_octet) (split_colon s)"
    by (auto simp: mac_parse_loop_Inr split: if_splits)
  also have "\<dots> \<longleftrightarrow> length (split_colon s) = 6 \<and> list_all2 octet_text (split_colon s) bs"
    using map_octets_Some [of mac_octet "split_colon s" bs] by (simp add: mac_octet_Some)
  finally show ?thesis .
qed

lemma split_colon_octets:
  "CHR '':'' \<notin> set p \<Longrightarrow> split_colon (p @ CHR '':'' # s) = p # split_colon s"
  "CHR '':'' \<notin> set p \<Longrightarrow> split_colon p = [p]"
  by (induction p) auto

lemma hex_char_digit: "n < 16 \<Longrightarrow> hex_digit (hex_char n) = Some n \<and> hex_char n \<noteq> CHR '':''"
proof -
  assume n: "n < 16"
  have of: "of_char (hex_char n) = (if n < 10 then 48 + n else 87 + n :: nat)"
    using n by (simp add: hex_char_def)
  have "of_char (hex_char n) \<noteq> (of_char (CHR '':'') :: nat)"
    using n by (simp add: of)
  then have "hex_char n \<noteq> CHR '':''" by metis
  then show ?thesis using n by (simp add: hex_digit_def Let_def of)
qed

lemma hex_byte_octet: "octet_text (hex_byte b) b" "CHR '':'' \<notin> set (hex_byte b)"
proof -
  have b: "unat b div 16 < 16" "unat b mod 16 < 16"
    using unat_lt8 [of b] by (simp_all add: div_less_iff_less_mult)
  have "word_of_nat (16 * (unat b div 16) + unat b mod 16) = b" by simp
  then show "octet_text (hex_byte b) b" using hex_char_digit [OF b(1)] hex_char_digit [OF b(2)]
    unfolding octet_text_def hex_byte_def by metis
  show "CHR '':'' \<notin> set (hex_byte b)" using hex_char_digit [OF b(1)] hex_char_digit [OF b(2)]
    by (auto simp: hex_byte_def)
qed

lemma mac_roundtrip:
  assumes "length bs = 6"
  shows "mac_parse (to_canonical_string bs) = Inr bs"
proof -
  obtain a b c d e f where bs: "bs = [a, b, c, d, e, f]"
    using assms by (auto simp: length_Suc_conv numeral_eq_Suc)
  have "split_colon (to_canonical_string bs) = map hex_byte bs"
    by (simp add: bs to_canonical_string_def split_colon_octets hex_byte_octet)
  moreover have "list_all2 octet_text (map hex_byte bs) bs"
    by (simp add: bs hex_byte_octet)
  ultimately show ?thesis by (simp add: mac_parse_Inr assms)
qed

text \<open>C40. \<open>MacAddr::parse\<close> accepts exactly the strings of six colon-separated octets where an octet
  is two hexadecimal digits or, because \<open>u8::from_str_radix\<close> takes a sign, a plus sign and one
  digit. The comment on the type promises the canonical form only.\<close>

theorem mac_parse_accepts:
  "mac_parse s = Inr bs \<longleftrightarrow> length (split_colon s) = 6 \<and> list_all2 octet_text (split_colon s) bs"
  by (rule mac_parse_Inr)

end
