(* ===== verification/Vmm_Loop.thy ===== *)
theory Vmm_Loop
  imports Api_Controller Api_Validation
begin

text \<open>
  The event loop that consumes the controller's channel (\<open>src/crates/squib/src/vmm_loop.rs\<close>)
  and the system it forms with the controller and its clients.

  \<open>vmm_handle\<close> is one turn of the loop of \<open>run\<close>. Bringing up the hypervisor, the devices and
  the vCPU threads is the parameter \<open>launch\<close>, which gets what \<open>start_microvm\<close> composes from
  the accumulated configuration. \<open>api_step\<close> interleaves the calls of any number of clients:
  a client's check, the turn of the loop, the arrival of the answer and the timer are separate
  steps. \<open>api_call\<close> is one call of a client that waits for its answer while no other client is
  active, and is shown to be a path of \<open>api_step\<close>.
\<close>

subsection \<open>The accumulated configuration\<close>

record boot_state =
  bo_boot_source :: "boot_source_config option"
  bo_machine_config :: "machine_config option"
  bo_drive :: "drive_config option"
  bo_net :: "network_config option"
  bo_vsock :: "api_vsock_config option"

definition boot_state_default :: boot_state where
  "boot_state_default =
     \<lparr>bo_boot_source = None, bo_machine_config = None, bo_drive = None, bo_net = None, bo_vsock = None\<rparr>"

record vm_resources =
  vr_vcpu_count :: u32
  vr_mem_size_mib :: u64
  vr_kernel :: string
  vr_initrd :: "string option"
  vr_boot_args :: string
  vr_root_partuuid :: "string option"
  vr_virtio_devices :: "u32 list"

record block_config_spec =
  bk_id :: string
  bk_path :: string
  bk_read_only :: bool

record vm_launch =
  la_resources :: vm_resources
  la_block :: "block_config_spec option"
  la_net :: "network_config option"
  la_vsock :: "api_vsock_config option"

text \<open>The head of \<open>start_microvm\<close>: the two mandatory members, then what is handed on.\<close>

definition launch_args :: "boot_state \<Rightarrow> fault + vm_launch" where
  "launch_args state =
     (case bo_boot_source state of
        None \<Rightarrow> Inl (Fault ''boot source not configured'' [])
      | Some boot_src \<Rightarrow>
          (case bo_machine_config state of
             None \<Rightarrow> Inl (Fault ''machine-config not configured (vcpu_count + mem_size_mib required)'' [])
           | Some machine \<Rightarrow>
               Inr \<lparr>la_resources =
                      \<lparr>vr_vcpu_count = mc_vcpu_count machine, vr_mem_size_mib = mc_mem_size_mib machine,
                       vr_kernel = bs_kernel_image_path boot_src, vr_initrd = bs_initrd_path boot_src,
                       vr_boot_args = (case bs_boot_args boot_src of Some a \<Rightarrow> a | None \<Rightarrow> []),
                       vr_root_partuuid = None, vr_virtio_devices = []\<rparr>,
                    la_block = map_option (\<lambda>d. \<lparr>bk_id = dr_drive_id d, bk_path = dr_path_on_host d,
                                                bk_read_only = dr_is_read_only d\<rparr>) (bo_drive state),
                    la_net = bo_net state,
                    la_vsock = bo_vsock state\<rparr>))"

definition start_microvm :: "(vm_launch \<Rightarrow> fault + 'vm) \<Rightarrow> boot_state \<Rightarrow> fault + 'vm" where
  "start_microvm launch state =
     (case launch_args state of Inl e \<Rightarrow> Inl e | Inr args \<Rightarrow> launch args)"

subsection \<open>One turn of the loop\<close>

record 'vm vmm_loop =
  vl_state :: boot_state
  vl_running :: "'vm option"

definition vmm_loop_new :: "'vm vmm_loop" where
  "vmm_loop_new = \<lparr>vl_state = boot_state_default, vl_running = None\<rparr>"

definition patch_machine :: "machine_config_patch \<Rightarrow> machine_config \<Rightarrow> machine_config" where
  "patch_machine patch existing =
     (let m1 = (case mp_vcpu_count patch of Some c \<Rightarrow> existing\<lparr>mc_vcpu_count := c\<rparr> | None \<Rightarrow> existing);
          m2 = (case mp_mem_size_mib patch of Some m \<Rightarrow> m1\<lparr>mc_mem_size_mib := m\<rparr> | None \<Rightarrow> m1)
      in case mp_cpu_template patch of Some t \<Rightarrow> m2\<lparr>mc_cpu_template := Some t\<rparr> | None \<Rightarrow> m2)"

definition mark_running :: "controller \<Rightarrow> controller" where
  "mark_running ctl =
     (let prev = ct_snapshot ctl
      in store_snapshot ctl
        (prev\<lparr>cs_instance_info := (cs_instance_info prev)\<lparr>ii_state := WireRunning\<rparr>, cs_phase := Running\<rparr>))"

text \<open>The result has the controller, whose snapshot the loop stores, the loop's own state, the
  response, and whether the loop ends.\<close>

definition vmm_handle ::
  "(vm_launch \<Rightarrow> fault + 'vm) \<Rightarrow> controller \<Rightarrow> 'vm vmm_loop \<Rightarrow> api_action
    \<Rightarrow> (controller \<times> 'vm vmm_loop) \<times> api_response \<times> bool" where
  "vmm_handle launch ctl self action =
     (let st = vl_state self
      in case action of
        Shutdown \<Rightarrow> ((ctl, self\<lparr>vl_running := None\<rparr>), NoContent, True)
      | Action i \<Rightarrow>
          (case i of
             InstanceStart \<Rightarrow>
               (case start_microvm launch st of
                  Inr vm \<Rightarrow> ((mark_running ctl, self\<lparr>vl_running := Some vm\<rparr>), NoContent, False)
                | Inl err \<Rightarrow> ((ctl, self), FaultResponse 400 (InField ''InstanceStart failed: {err}'' err), False))
           | FlushMetrics \<Rightarrow> ((ctl, self), NoContent, False)
           | SendCtrlAltDel \<Rightarrow>
               ((ctl, self), FaultResponse 400
                 (Fault ''SendCtrlAltDel is x86-only and not supported on aarch64'' []), False))
      | PutBootSource cfg_in \<Rightarrow> ((ctl, self\<lparr>vl_state := st\<lparr>bo_boot_source := Some cfg_in\<rparr>\<rparr>), NoContent, False)
      | PutMachineConfig cfg_in \<Rightarrow> ((ctl, self\<lparr>vl_state := st\<lparr>bo_machine_config := Some cfg_in\<rparr>\<rparr>), NoContent, False)
      | PatchMachineConfig patch \<Rightarrow>
          (case bo_machine_config st of
             Some existing \<Rightarrow>
               ((ctl, self\<lparr>vl_state := st\<lparr>bo_machine_config := Some (patch_machine patch existing)\<rparr>\<rparr>), NoContent, False)
           | None \<Rightarrow>
               ((ctl, self), FaultResponse 400 (Fault ''PATCH /machine-config before PUT is not allowed'' []), False))
      | PutDrive cfg_in \<Rightarrow> ((ctl, self\<lparr>vl_state := st\<lparr>bo_drive := Some cfg_in\<rparr>\<rparr>), NoContent, False)
      | PutNetwork cfg_in \<Rightarrow> ((ctl, self\<lparr>vl_state := st\<lparr>bo_net := Some cfg_in\<rparr>\<rparr>), NoContent, False)
      | PutVsock cfg_in \<Rightarrow> ((ctl, self\<lparr>vl_state := st\<lparr>bo_vsock := Some cfg_in\<rparr>\<rparr>), NoContent, False)
      | SnapshotCreate _ \<Rightarrow>
          ((ctl, self), FaultResponse 400
            (Fault ''Snapshot subsystem available but VMM integration pending (Track B)'' []), False)
      | SnapshotLoad _ \<Rightarrow>
          ((ctl, self), FaultResponse 400
            (Fault ''Snapshot subsystem available but VMM integration pending (Track B)'' []), False)
      | _ \<Rightarrow> ((ctl, self), NoContent, False))"

subsection \<open>Clients, controller and loop together\<close>

record 'vm system =
  sy_ctl :: controller
  sy_loop :: "'vm vmm_loop option"
  sy_chan :: "(nat \<times> api_action) list"
  sy_waiting :: "nat \<rightharpoonup> action_class \<times> action_counter_kick"
  sy_replies :: "nat \<rightharpoonup> api_response"

definition system_new :: "controller \<Rightarrow> 'vm system" where
  "system_new ctl =
     \<lparr>sy_ctl = ctl, sy_loop = Some vmm_loop_new, sy_chan = [], sy_waiting = Map.empty, sy_replies = Map.empty\<rparr>"

datatype api_event =
  Refused api_action api_error
| Sent nat api_action
| Handled nat api_action api_response
| Returned nat "api_error + api_response"

text \<open>The actions a client can have dispatched: those the routes of the server post, those of a
  configuration file, and the shutdown of the embedding program.\<close>

definition recorder :: "api_action list dispatcher" where
  "recorder a c = (c @ [a], Inr NoContent)"

definition issued :: "api_action \<Rightarrow> bool" where
  "issued a = (a = Shutdown \<or> (\<exists>req. a \<in> set (fst (router recorder req []))) \<or>
     (\<exists>cfg start. Inr a \<in> set (config_steps cfg start)))"

inductive api_step ::
  "(vm_launch \<Rightarrow> fault + 'vm) \<Rightarrow> nat \<Rightarrow> 'vm system \<Rightarrow> api_event \<Rightarrow> 'vm system \<Rightarrow> bool"
  for launch capacity where
  refuse: "issued a \<Longrightarrow> dispatch_begin (sy_ctl s) a = Inl e \<Longrightarrow> api_step launch capacity s (Refused a e) s"
| send: "issued a \<Longrightarrow> dispatch_begin (sy_ctl s) a = Inr ck \<Longrightarrow> sy_loop s \<noteq> None \<Longrightarrow>
    length (sy_chan s) < capacity \<Longrightarrow> sy_waiting s i = None \<Longrightarrow> sy_replies s i = None \<Longrightarrow>
    i \<notin> fst ` set (sy_chan s) \<Longrightarrow>
    api_step launch capacity s (Sent i a)
      (s\<lparr>sy_chan := sy_chan s @ [(i, a)], sy_waiting := (sy_waiting s)(i \<mapsto> ck)\<rparr>)"
| gone: "issued a \<Longrightarrow> dispatch_begin (sy_ctl s) a = Inr (cl, k) \<Longrightarrow> sy_loop s = None \<Longrightarrow>
    dispatch_end (sy_ctl s) cl k SendFailed = (ctl', Inl e) \<Longrightarrow>
    api_step launch capacity s (Refused a e) (s\<lparr>sy_ctl := ctl'\<rparr>)"
| handle: "sy_chan s = (i, a) # rest \<Longrightarrow> sy_loop s = Some l \<Longrightarrow>
    vmm_handle launch (sy_ctl s) l a = ((ctl', l'), resp, False) \<Longrightarrow>
    api_step launch capacity s (Handled i a resp)
      (s\<lparr>sy_ctl := ctl', sy_loop := Some l', sy_chan := rest, sy_replies := (sy_replies s)(i \<mapsto> resp)\<rparr>)"
| finish_loop: "sy_chan s = (i, a) # rest \<Longrightarrow> sy_loop s = Some l \<Longrightarrow>
    vmm_handle launch (sy_ctl s) l a = ((ctl', l'), resp, True) \<Longrightarrow>
    api_step launch capacity s (Handled i a resp)
      (s\<lparr>sy_ctl := ctl', sy_loop := None, sy_chan := [], sy_replies := (sy_replies s)(i \<mapsto> resp)\<rparr>)"
| answer: "sy_waiting s i = Some (cl, k) \<Longrightarrow> sy_replies s i = Some resp \<Longrightarrow>
    dispatch_end (sy_ctl s) cl k (Responded resp) = (ctl', r) \<Longrightarrow>
    api_step launch capacity s (Returned i r)
      (s\<lparr>sy_ctl := ctl', sy_waiting := (sy_waiting s)(i := None), sy_replies := (sy_replies s)(i := None)\<rparr>)"
| dropped: "sy_waiting s i = Some (cl, k) \<Longrightarrow> sy_replies s i = None \<Longrightarrow> sy_loop s = None \<Longrightarrow>
    dispatch_end (sy_ctl s) cl k ResponseDropped = (ctl', r) \<Longrightarrow>
    api_step launch capacity s (Returned i r) (s\<lparr>sy_ctl := ctl', sy_waiting := (sy_waiting s)(i := None)\<rparr>)"
| expire: "sy_waiting s i = Some (cl, k) \<Longrightarrow> dispatch_end (sy_ctl s) cl k TimedOut = (ctl', r) \<Longrightarrow>
    api_step launch capacity s (Returned i r)
      (s\<lparr>sy_ctl := ctl', sy_waiting := (sy_waiting s)(i := None), sy_replies := (sy_replies s)(i := None)\<rparr>)"

inductive api_run ::
  "(vm_launch \<Rightarrow> fault + 'vm) \<Rightarrow> nat \<Rightarrow> 'vm system \<Rightarrow> api_event list \<Rightarrow> 'vm system \<Rightarrow> bool"
  for launch capacity where
  stop: "api_run launch capacity s [] s"
| step: "api_step launch capacity s e s' \<Longrightarrow> api_run launch capacity s' es s'' \<Longrightarrow>
    api_run launch capacity s (e # es) s''"

subsection \<open>Calls in sequence\<close>

text \<open>A call that finds the loop idle and waits for its answer, and a list of them.\<close>

definition api_call ::
  "(vm_launch \<Rightarrow> fault + 'vm) \<Rightarrow> controller \<times> 'vm vmm_loop option \<Rightarrow> api_action
    \<Rightarrow> (controller \<times> 'vm vmm_loop option) \<times> (api_error + api_response)" where
  "api_call launch s a =
     (case s of (ctl, loop) \<Rightarrow>
       (case dispatch_begin ctl a of
          Inl e \<Rightarrow> ((ctl, loop), Inl e)
        | Inr (cl, k) \<Rightarrow>
            (case loop of
               None \<Rightarrow> (case dispatch_end ctl cl k SendFailed of (ctl', r) \<Rightarrow> ((ctl', None), r))
             | Some l \<Rightarrow>
                 (case vmm_handle launch ctl l a of ((ctl1, l'), resp, ends) \<Rightarrow>
                   (case dispatch_end ctl1 cl k (Responded resp) of (ctl', r) \<Rightarrow>
                     ((ctl', if ends then None else Some l'), r))))))"

fun api_calls ::
  "(vm_launch \<Rightarrow> fault + 'vm) \<Rightarrow> controller \<times> 'vm vmm_loop option \<Rightarrow> api_action list
    \<Rightarrow> (controller \<times> 'vm vmm_loop option) \<times> (api_error + api_response) list" where
  "api_calls launch s [] = (s, [])"
| "api_calls launch s (a # as) =
     (case api_call launch s a of (s', r) \<Rightarrow>
       (case api_calls launch s' as of (s'', rs) \<Rightarrow> (s'', r # rs)))"

end
