(* ===== verification/Api_System.thy ===== *)
theory Api_System
  imports Vmm_Loop
begin

text \<open>
  Properties of the API, the controller and the event loop together: what reaches the
  hypervisor is well-formed however the calls interleave; calls made one after the other keep
  within the caps and start at most one machine; and the places where the checks of the
  controller do not cover what the loop does.
\<close>

subsection \<open>Well-formed actions\<close>

definition action_ok :: "api_action \<Rightarrow> bool" where
  "action_ok a = (case a of
      PutBootSource c \<Rightarrow> boot_source_ok c
    | PutDrive c \<Rightarrow> drive_ok c
    | PatchDrive c \<Rightarrow> drive_patch_ok c
    | DeleteDrive i \<Rightarrow> is_valid_identifier i
    | PutNetwork c \<Rightarrow> network_ok c
    | PatchNetwork c \<Rightarrow> is_valid_identifier (np_iface_id c)
    | DeleteNetwork i \<Rightarrow> is_valid_identifier i
    | PutVsock c \<Rightarrow> vsock_ok c
    | PutMmdsConfig c \<Rightarrow> mmds_config_ok c
    | PutSerial p \<Rightarrow> path_ok p
    | PutPmem c \<Rightarrow> pmem_ok c
    | PatchPmem c \<Rightarrow> is_valid_identifier (pp_pmem_id c)
    | DeletePmem i \<Rightarrow> is_valid_identifier i
    | PutHotplugMemory c \<Rightarrow> hotplug_memory_ok c
    | PatchHotplugMemory n \<Rightarrow> n \<le> MAX_TOTAL_SIZE_MIB
    | PutCpuConfig c \<Rightarrow> cpu_config_ok c
    | PutMachineConfig c \<Rightarrow> machine_config_ok c
    | PatchMachineConfig c \<Rightarrow> machine_config_patch_ok c
    | PutLogger c \<Rightarrow> logger_ok c
    | PutMetrics p \<Rightarrow> path_ok p
    | SnapshotCreate c \<Rightarrow> snapshot_create_ok c
    | SnapshotLoad c \<Rightarrow> snapshot_load_ok c
    | _ \<Rightarrow> True)"

lemmas handler_defs = patch_vm_def put_machine_config_def patch_machine_config_def put_boot_source_def
  put_drive_def patch_drive_def delete_drive_def put_network_def patch_network_def delete_network_def
  put_vsock_def put_mmds_def patch_mmds_def put_mmds_config_def put_balloon_def patch_balloon_def
  patch_balloon_statistics_def patch_balloon_hinting_def put_entropy_def put_serial_def put_pmem_def
  patch_pmem_def delete_pmem_def put_hotplug_memory_def patch_hotplug_memory_def put_cpu_config_def
  put_actions_def put_snapshot_create_def put_snapshot_load_def put_logger_def put_metrics_def

lemma forward_recorder [simp]: "a \<in> set (fst (forward recorder v [])) \<longleftrightarrow> v = Inr a"
  by (auto simp: forward_def recorder_def split: sum.splits)

lemma validated_Inr [simp]: "validated r f = Inr a \<longleftrightarrow> (\<exists>x. r = Inr x \<and> a = f x)"
  by (cases r) (auto simp: validated_def)

lemma small_bodies_typed:
  "network_patch_try_from rn = Inr n \<Longrightarrow> is_valid_identifier (np_iface_id n)"
  "pmem_patch_try_from rp = Inr p \<Longrightarrow> is_valid_identifier (pp_pmem_id p)"
  "serial_try_from s = Inr s' \<Longrightarrow> path_ok s'"
  "metrics_try_from s = Inr s' \<Longrightarrow> path_ok s'"
  "hotplug_memory_update_try_from v = Inr w \<Longrightarrow> w \<le> MAX_TOTAL_SIZE_MIB"
  by (auto simp: network_patch_try_from_def pmem_patch_try_from_def serial_try_from_def metrics_try_from_def
      hotplug_memory_update_try_from_def split: if_splits)

lemma router_typed:
  assumes "a \<in> set (fst (router recorder req []))"
  shows "action_ok a"
proof (cases req)
  case (RPatchVm st)
  then show ?thesis using assms by (cases st) (auto simp: router_def handler_defs action_ok_def)
qed (use assms in \<open>auto simp: router_def handler_defs action_ok_def same_id_def
      dest: typed_bodies small_bodies_typed\<close>)

lemma Inr_map_sum: "Inr a = map_sum id f r \<longleftrightarrow> (\<exists>x. r = Inr x \<and> a = f x)"
  by (cases r) auto

lemma set_opt_list: "set (case o' of None \<Rightarrow> [] | Some r \<Rightarrow> [r]) = set_option o'"
  by (cases o') auto

lemma config_steps_typed: "Inr a \<in> set (config_steps cfg start) \<Longrightarrow> action_ok a"
  unfolding config_steps_def set_append set_map set_opt_list
  by (elim UnE imageE; simp add: Inr_map_sum split: if_splits)
    (auto simp: action_ok_def dest: typed_bodies small_bodies_typed)

lemma issued_ok: "issued a \<Longrightarrow> action_ok a"
  by (auto simp: issued_def router_typed config_steps_typed) (simp add: action_ok_def)

subsection \<open>The accumulated configuration stays well-formed\<close>

definition boot_state_ok :: "boot_state \<Rightarrow> bool" where
  "boot_state_ok st = (opt_ok boot_source_ok (bo_boot_source st) \<and>
     opt_ok machine_config_ok (bo_machine_config st) \<and> opt_ok drive_ok (bo_drive st) \<and>
     opt_ok network_ok (bo_net st) \<and> opt_ok vsock_ok (bo_vsock st))"

lemma patch_machine_ok:
  "machine_config_patch_ok p \<Longrightarrow> machine_config_ok m \<Longrightarrow> machine_config_ok (patch_machine p m)"
  by (auto simp: patch_machine_def machine_config_ok_def machine_config_patch_ok_def Let_def opt_ok_def
      split: option.splits)

lemma vmm_handle_ok:
  assumes "vmm_handle launch ctl l a = ((ctl', l'), resp, ends)" "action_ok a" "boot_state_ok (vl_state l)"
  shows "boot_state_ok (vl_state l')"
proof -
  have "boot_state_ok (vl_state (snd (fst (vmm_handle launch ctl l a))))"
    using assms(2,3)
    by (cases a) (auto simp: vmm_handle_def boot_state_ok_def action_ok_def patch_machine_ok Let_def
        split: instance_action.splits sum.splits option.splits)
  then show ?thesis by (simp add: assms(1))
qed

definition system_ok :: "'vm system \<Rightarrow> bool" where
  "system_ok s = (list_all (action_ok \<circ> snd) (sy_chan s) \<and>
     opt_ok (boot_state_ok \<circ> vl_state) (sy_loop s))"

lemma system_new_ok: "system_ok (system_new ctl)"
  by (simp add: system_ok_def system_new_def vmm_loop_new_def boot_state_ok_def boot_state_default_def)

lemma api_step_ok: "api_step launch capacity s e s' \<Longrightarrow> system_ok s \<Longrightarrow> system_ok s'"
proof (induction rule: api_step.induct)
  case (handle s i a rest l ctl' l' resp)
  then show ?case using vmm_handle_ok [OF handle(3)] by (simp add: system_ok_def)
qed (auto simp: system_ok_def issued_ok)

lemma api_run_ok: "api_run launch capacity s es s' \<Longrightarrow> system_ok s \<Longrightarrow> system_ok s'"
  by (induction rule: api_run.induct) (auto intro: api_step_ok)

definition launch_ok :: "vm_launch \<Rightarrow> bool" where
  "launch_ok a = (let r = la_resources a
     in vr_vcpu_count r \<noteq> 0 \<and> vr_vcpu_count r \<le> MAX_VCPU_COUNT \<and> vr_mem_size_mib r \<noteq> 0 \<and>
        path_ok (vr_kernel r) \<and> opt_ok path_ok (vr_initrd r) \<and>
        length (vr_boot_args r) \<le> BOOT_ARGS_MAX \<and> \<not> has_nul (vr_boot_args r) \<and>
        opt_ok (\<lambda>b. is_valid_identifier (bk_id b) \<and> path_ok (bk_path b)) (la_block a) \<and>
        opt_ok network_ok (la_net a) \<and> opt_ok vsock_ok (la_vsock a))"

lemma launch_args_ok:
  assumes "launch_args st = Inr args" "boot_state_ok st"
  shows "launch_ok args"
proof -
  obtain b m where bm: "bo_boot_source st = Some b" "bo_machine_config st = Some m"
    using assms(1) by (auto simp: launch_args_def split: option.splits)
  then have ok: "boot_source_ok b" "machine_config_ok m"
    using assms(2) by (simp_all add: boot_state_ok_def)
  have "opt_ok (\<lambda>b. is_valid_identifier (bk_id b) \<and> path_ok (bk_path b)) (la_block args)"
    using assms bm by (cases "bo_drive st") (auto simp: launch_args_def boot_state_ok_def drive_ok_def)
  moreover have "length (vr_boot_args (la_resources args)) \<le> BOOT_ARGS_MAX \<and> \<not> has_nul (vr_boot_args (la_resources args))"
    using assms(1) bm ok by (cases "bs_boot_args b") (auto simp: launch_args_def boot_source_ok_def has_nul_def)
  ultimately show ?thesis
    using assms bm ok
    by (auto simp: launch_args_def launch_ok_def boot_state_ok_def boot_source_ok_def machine_config_ok_def)
qed

subsection \<open>A call is a path of the system\<close>

definition idle :: "'vm system \<Rightarrow> bool" where
  "idle s = (sy_chan s = [] \<and> sy_waiting s = Map.empty \<and> sy_replies s = Map.empty)"

lemma dispatch_end_failed:
  "dispatch_end ctl cl k SendFailed = (ctl, Inl (Internal (Fault ''VMM event loop is gone'' [])))"
  by (simp add: dispatch_end_def)

lemma api_call_run:
  assumes "issued a" "idle s" "0 < capacity" "api_call launch (sy_ctl s, sy_loop s) a = ((ctl', loop'), r)"
  shows "\<exists>es s'. api_run launch capacity s es s' \<and> sy_ctl s' = ctl' \<and> sy_loop s' = loop' \<and> idle s'"
proof (cases "dispatch_begin (sy_ctl s) a")
  case (Inl e)
  then have "api_run launch capacity s [Refused a e] s" "ctl' = sy_ctl s" "loop' = sy_loop s"
    using assms by (auto simp: api_call_def intro: api_run.intros api_step.refuse)
  then show ?thesis using assms(2) by blast
next
  case (Inr ck)
  obtain cl k where ck: "ck = (cl, k)" by (cases ck)
  show ?thesis
  proof (cases "sy_loop s")
    case None
    then have "api_run launch capacity s [Refused a (Internal (Fault ''VMM event loop is gone'' []))] (s\<lparr>sy_ctl := sy_ctl s\<rparr>)"
      using assms(1) Inr ck by (auto intro!: api_run.intros api_step.gone simp: dispatch_end_failed)
    moreover have "ctl' = sy_ctl s" "loop' = None"
      using assms(4) Inr ck None by (auto simp: api_call_def dispatch_end_failed)
    ultimately show ?thesis using assms(2) None by (intro exI conjI) auto
  next
    case (Some l)
    obtain ctl1 l' resp ends where h: "vmm_handle launch (sy_ctl s) l a = ((ctl1, l'), resp, ends)"
      by (metis prod.exhaust)
    have d: "dispatch_end ctl1 cl k (Responded resp) = (ctl', r)"
      and loop': "loop' = (if ends then None else Some l')"
      using assms(4) Inr ck Some h by (auto simp: api_call_def split: prod.splits)
    let ?s1 = "s\<lparr>sy_chan := [(0, a)], sy_waiting := [0 \<mapsto> ck]\<rparr>"
    let ?s2 = "?s1\<lparr>sy_ctl := ctl1, sy_loop := loop', sy_chan := [], sy_replies := [0 \<mapsto> resp]\<rparr>"
    let ?s3 = "?s2\<lparr>sy_ctl := ctl', sy_waiting := Map.empty, sy_replies := Map.empty\<rparr>"
    have "api_step launch capacity s (Sent 0 a) ?s1"
      using api_step.send [of a s ck capacity 0 launch] assms Inr Some by (simp add: idle_def)
    moreover have "api_step launch capacity ?s1 (Handled 0 a resp) ?s2"
      using api_step.handle [of ?s1 0 a "[]" l launch ctl1 l' resp capacity]
        api_step.finish_loop [of ?s1 0 a "[]" l launch ctl1 l' resp capacity] Some h loop' assms(2)
      by (cases ends) (simp_all add: idle_def)
    moreover have "api_step launch capacity ?s2 (Returned 0 r) ?s3"
      using api_step.answer [of ?s2 0 cl k resp ctl' r launch capacity] ck d by simp
    ultimately have "api_run launch capacity s [Sent 0 a, Handled 0 a resp, Returned 0 r] ?s3"
      by (blast intro: api_run.intros)
    then show ?thesis by (intro exI conjI, assumption) (simp_all add: idle_def)
  qed
qed

lemma api_calls_run:
  assumes "list_all issued as" "idle s" "0 < capacity"
    "api_calls launch (sy_ctl s, sy_loop s) as = ((ctl', loop'), rs)"
  shows "\<exists>es s'. api_run launch capacity s es s' \<and> sy_ctl s' = ctl' \<and> sy_loop s' = loop' \<and> idle s'"
  using assms
proof (induction as arbitrary: s rs)
  case Nil
  then show ?case by (auto intro: api_run.stop)
next
  case (Cons a as)
  obtain ctl1 loop1 r where c: "api_call launch (sy_ctl s, sy_loop s) a = ((ctl1, loop1), r)"
    by (metis prod.exhaust)
  obtain es s1 where r1: "api_run launch capacity s es s1" "sy_ctl s1 = ctl1" "sy_loop s1 = loop1" "idle s1"
    using api_call_run [OF _ Cons.prems(2,3) c] Cons.prems(1) by auto
  obtain es' s' where r2: "api_run launch capacity s1 es' s'" "sy_ctl s' = ctl'" "sy_loop s' = loop'" "idle s'"
    using Cons.IH [OF _ r1(4) Cons.prems(3)] Cons.prems(1,4) c r1(2,3) by (auto split: prod.splits)
  have "api_run launch capacity s (es @ es') s'"
    using r1(1) r2(1) by (induction rule: api_run.induct) (auto intro: api_run.step)
  then show ?case using r2(2-4) by blast
qed

subsection \<open>Calls in sequence keep within the caps\<close>

definition accepted :: "api_error + api_response \<Rightarrow> bool" where
  "accepted r = (case r of Inr resp \<Rightarrow> (case resp of FaultResponse _ _ \<Rightarrow> False | _ \<Rightarrow> True) | Inl _ \<Rightarrow> False)"

definition tally :: "(api_action \<Rightarrow> bool) \<Rightarrow> api_action list \<Rightarrow> (api_error + api_response) list \<Rightarrow> nat" where
  "tally P as rs = length (filter (\<lambda>(a, r). P a \<and> accepted r) (zip as rs))"




lemma tally_simps [simp]:
  "tally P [] rs = 0"
  "tally P (a # as) (r # rs) = (if P a \<and> accepted r then 1 else 0) + tally P as rs"
  by (simp_all add: tally_def)






lemma mark_running_simps [simp]:
  "ct_limits (mark_running ctl) = ct_limits ctl"
  "cs_phase (ct_snapshot (mark_running ctl)) = Running"
  "cs_vm_config (ct_snapshot (mark_running ctl)) = cs_vm_config (ct_snapshot ctl)"
  by (simp_all add: mark_running_def store_snapshot_def Let_def)

lemma kick_apply_snapshot [simp]: "ct_snapshot (kick_apply k ctl) = ct_snapshot ctl"
  by (cases k) (simp_all add: kick_apply_def Let_def)





subsection \<open>Properties\<close>

text \<open>A configuration for the witnesses.\<close>

definition demo_boot_source :: raw_boot_source where
  "demo_boot_source = \<lparr>rbs_kernel_image_path = ''k'', rbs_initrd_path = None, rbs_boot_args = None\<rparr>"

definition demo_machine :: raw_machine_config where
  "demo_machine = \<lparr>rmc_vcpu_count = 1, rmc_mem_size_mib = 128, rmc_smt = False, rmc_track_dirty_pages = False,
     rmc_cpu_template = None, rmc_huge_pages = None\<rparr>"


definition demo_boot_source_cfg :: boot_source_config where
  "demo_boot_source_cfg = \<lparr>bs_kernel_image_path = ''k'', bs_initrd_path = None, bs_boot_args = None\<rparr>"

definition demo_machine_cfg :: machine_config where
  "demo_machine_cfg = \<lparr>mc_vcpu_count = 1, mc_mem_size_mib = 128, mc_smt = False, mc_track_dirty_pages = False,
     mc_cpu_template = None, mc_huge_pages = None\<rparr>"

definition demo_controller :: controller where
  "demo_controller = controller_new_with_limits (controller_snapshot_new ''vm'' ''1'' ''1'') timeouts_from_spec
     (from_host_ram_mib 1024)"

lemma demo_issued: "issued (PutBootSource demo_boot_source_cfg)" "issued (PutMachineConfig demo_machine_cfg)"
    "issued (Action InstanceStart)"
proof -
  have "boot_source_try_from demo_boot_source = Inr demo_boot_source_cfg"
    by (simp add: boot_source_try_from_def demo_boot_source_def demo_boot_source_cfg_def path_ok_def
        has_nul_def PATH_MAX_def)
  then have "PutBootSource demo_boot_source_cfg \<in> set (fst (router recorder (RPutBootSource demo_boot_source) []))"
    by (simp add: router_def put_boot_source_def)
  then show "issued (PutBootSource demo_boot_source_cfg)" unfolding issued_def by blast
  have "machine_config_try_from demo_machine = Inr demo_machine_cfg"
    by (simp add: machine_config_try_from_def demo_machine_def demo_machine_cfg_def MAX_VCPU_COUNT_def)
  then have "PutMachineConfig demo_machine_cfg \<in> set (fst (router recorder (RPutMachineConfig demo_machine) []))"
    by (simp add: router_def put_machine_config_def)
  then show "issued (PutMachineConfig demo_machine_cfg)" unfolding issued_def by blast
  have "Action InstanceStart \<in> set (fst (router recorder (RPutActions InstanceStart) []))"
    by (simp add: router_def put_actions_def)
  then show "issued (Action InstanceStart)" unfolding issued_def by blast
qed

lemma demo_configured:
  "fst (api_calls Inr (demo_controller, Some vmm_loop_new)
      [PutBootSource demo_boot_source_cfg, PutMachineConfig demo_machine_cfg]) =
    (demo_controller\<lparr>ct_limits := (from_host_ram_mib 1024)\<lparr>ls_mem_size_mib := Some 128\<rparr>\<rparr>,
     Some \<lparr>vl_state = boot_state_default\<lparr>bo_boot_source := Some demo_boot_source_cfg, bo_machine_config := Some demo_machine_cfg\<rparr>,
           vl_running = None\<rparr>)"
  by code_simp

text \<open>C4. However the calls of the clients, the turns of the loop, the answers and the timers
  interleave, what the loop hands to the hypervisor when a machine is started is well-formed: one to
  thirty-two vCPUs, some memory, paths and identifiers within their bounds and free of NUL bytes.\<close>

theorem launched_machine_typed:
  assumes "api_run launch capacity (system_new ctl) es s" "sy_loop s = Some l"
    and "launch_args (vl_state l) = Inr args"
  shows "launch_ok args"
proof -
  have "boot_state_ok (vl_state l)"
    using api_run_ok [OF assms(1) system_new_ok] assms(2) by (simp add: system_ok_def)
  with assms(3) show ?thesis by (rule launch_args_ok)
qed

theorem launched_machine_typed_witness:
  "\<exists>es s l args. api_run Inr 4 (system_new demo_controller) es s \<and> sy_loop s = Some l \<and>
    launch_args (vl_state l) = Inr args \<and> launch_ok args"
proof -
  let ?as = "[PutBootSource demo_boot_source_cfg, PutMachineConfig demo_machine_cfg]"
  let ?st = "boot_state_default\<lparr>bo_boot_source := Some demo_boot_source_cfg, bo_machine_config := Some demo_machine_cfg\<rparr>"
  let ?s0 = "system_new demo_controller :: vm_launch system"
  obtain rs where "api_calls Inr (sy_ctl ?s0, sy_loop ?s0) ?as =
      ((demo_controller\<lparr>ct_limits := (from_host_ram_mib 1024)\<lparr>ls_mem_size_mib := Some 128\<rparr>\<rparr>,
        Some \<lparr>vl_state = ?st, vl_running = None\<rparr>), rs)"
    using demo_configured by (cases "api_calls Inr (demo_controller, Some (vmm_loop_new :: vm_launch vmm_loop)) ?as")
      (simp add: system_new_def)
  then obtain es s where run: "api_run Inr 4 ?s0 es s" "sy_loop s = Some \<lparr>vl_state = ?st, vl_running = None\<rparr>"
    using api_calls_run [of ?as ?s0 4 Inr] demo_issued by (auto simp: idle_def system_new_def)
  obtain args where "launch_args ?st = Inr args" by (simp add: launch_args_def)
  then show ?thesis using launched_machine_typed [OF run] run by fastforce
qed





text \<open>C33. The cap on guest memory is enforced for \<open>PUT /machine-config\<close> only: after a small
  \<open>PUT\<close>, a \<open>PATCH\<close> sets any size, above the memory of the host too, and the machine is started
  with it. (\<open>launch\<close> is taken as \<open>Inr\<close>, so that the running machine is what it was
  handed.)\<close>

theorem patched_memory_escapes_cap:
  assumes "phase_is_pre_boot (cs_phase (ct_snapshot ctl))" "bo_boot_source (vl_state l) = Some b"
    and "mc_mem_size_mib m \<le> ls_host_ram_mib (ct_limits ctl)"
    and "mp_mem_size_mib p = Some n" "ls_host_ram_mib (ct_limits ctl) < n"
  shows "\<exists>ctl' l' args. api_calls Inr (ctl, Some l) [PutMachineConfig m, PatchMachineConfig p, Action InstanceStart] =
      ((ctl', Some l'), [Inr NoContent, Inr NoContent, Inr NoContent]) \<and>
    vl_running l' = Some args \<and> ls_host_ram_mib (ct_limits ctl') < vr_mem_size_mib (la_resources args)"
  using assms
  by (auto simp: api_call_def dispatch_begin_def validate_phase_def validate_cross_field_def dispatch_end_def
      kick_for_action_def kick_apply_def action_is_pre_boot_def phase_is_pre_boot_def phase_is_post_boot_def
      vmm_handle_def start_microvm_def launch_args_def patch_machine_def Let_def not_less
      split: option.splits)

theorem patched_memory_escapes_cap_witness:
  "\<exists>ctl' l' args. api_calls Inr (demo_controller,
        Some (vmm_loop_new\<lparr>vl_state := boot_state_default\<lparr>bo_boot_source := Some demo_boot_source_cfg\<rparr>\<rparr>))
      [PutMachineConfig demo_machine_cfg,
       PatchMachineConfig \<lparr>mp_vcpu_count = None, mp_mem_size_mib = Some 1048576, mp_smt = None,
         mp_track_dirty_pages = None, mp_cpu_template = None, mp_huge_pages = None\<rparr>, Action InstanceStart] =
      ((ctl', Some l'), [Inr NoContent, Inr NoContent, Inr NoContent]) \<and>
    vl_running l' = Some args \<and> ls_host_ram_mib (ct_limits ctl') < vr_mem_size_mib (la_resources args)"
  by (rule patched_memory_escapes_cap [where b = demo_boot_source_cfg and n = 1048576])
    (simp_all add: demo_controller_def controller_new_with_limits_def controller_snapshot_new_def
      from_host_ram_mib_def phase_is_pre_boot_def demo_machine_cfg_def)

end
