(* ===== verification/Spec2Isabelle.thy ===== *)
theory Spec2Isabelle
  imports
    Virtio_Stack Device_Streams Pl011_Uart Arch_Traps
    Snapshot_Envelope Dirty_Tracking Mmds_Interceptor Api_System
begin

text \<open>
  A verification library for squib, a micro virtual machine monitor for Apple Silicon with an
  HTTP interface in the style of Firecracker. The sources are Rust, under \<open>src/crates/\<close>; this
  development is a shallow embedding of them.

  \<^bold>\<open>The program.\<close> A client configures a machine over HTTP; handlers turn request bodies into
  actions, a controller admits them by life cycle and limits, and an event loop carries them
  out and starts the machine. Guest accesses to device registers reach the MMIO bus, which
  hands them to the serial port or to a virtio transport. A transport runs the initialisation
  protocol of its device and, when the driver notifies a queue, lets the device serve the
  descriptor chains in guest memory and raise its interrupt line at the GIC. The network
  device passes frames through the metadata service, which answers requests to its address
  by a small TCP and HTTP server. Snapshots save the vCPU registers and device state in a
  checksummed file and guest memory by its dirty pages.

  \<^bold>\<open>Conventions.\<close> Integers keep their width as words and wrap as release builds do; checked and
  saturating methods are the definitions of \<open>Squib_Prelude\<close>. A fallible function returns
  \<open>'e + 'a\<close>, \<open>Inl\<close> the error. \<open>&mut self\<close> and shared handles become state passing. A trait
  object is a record of its methods over a state type, and its contract is a locale that is
  interpreted on the implementations of the repository. A panic and a loop that does not
  return are the result \<open>None\<close>. Log lines and metrics are dropped. Code of other packages is a
  parameter: JSON (serde), base64, crc64, bitcode, the entropy source, clocks, files, sockets.

  \<^bold>\<open>Theories, by layer.\<close>

  \<^item> \<open>Squib_Prelude\<close>: machine arithmetic, byte encodings, slices, and the combinator
    \<open>break_loop\<close> for \<open>loop\<close> with its invariant rule and its rule for termination.
  \<^item> \<open>Guest_Memory\<close> (\<open>core/src/memory.rs\<close>): addresses, ranges, the memory trait and
    \<open>SliceGuestMemory\<close>. \<open>Virt_Queue\<close> (\<open>virtio/src/queue.rs\<close>): split virtqueues; chains are
    walked exactly, the available ring is a FIFO, a completion is published intact.
    \<open>Interrupts\<close> (\<open>arch/src/gic.rs\<close>, \<open>gic/src/lib.rs\<close>, \<open>virtio/src/interrupt.rs\<close>,
    \<open>virtio/src/slot.rs\<close>): interrupt numbers, lines, slots.
  \<^item> \<open>Virtio_Transport\<close> (\<open>virtio/src/transport.rs\<close>, \<open>device.rs\<close>): register file and
    initialisation protocol over the \<open>VirtioDevice\<close> trait, whose contract is the locale
    \<open>virtio_device\<close>; \<open>device_invariant\<close> lifts an invariant of a device to every sequence of
    guest writes.
  \<^item> \<open>Queue_Service\<close>: the drain loop all devices repeat, over a handler for one chain. The locale
    \<open>chain_server\<close> gives termination, \<open>answering_server\<close> completion of everything pending,
    \<open>reading_server\<close> a fold over the pending chains. \<open>Device_Core\<close>: the fields and trait
    methods the devices share.
  \<^item> Devices (\<open>virtio/src/devices/\<close>): \<open>Block_Backend\<close>, \<open>Block_Device\<close>, \<open>Block_Progress\<close>
    (\<open>block.rs\<close>, with the sync, asynchronous and rate-limited backends); \<open>Stream_Devices\<close>
    (\<open>rng.rs\<close>, \<open>console.rs\<close>, \<open>boot_timer.rs\<close>); \<open>Packet_Queues\<close>, \<open>Net_Device\<close>,
    \<open>Vsock_Device\<close> (\<open>net.rs\<close>, \<open>vsock.rs\<close>). \<open>Virtio_Stack\<close> and \<open>Device_Streams\<close> state the
    properties of devices behind their transports and queues.
  \<^item> \<open>Mmio_Bus\<close> (\<open>bus/src/\<close>): registration and dispatch; an address resolves exactly to the
    device that covers it. \<open>Pl011_Uart\<close> (\<open>legacy/src/pl011.rs\<close>): the serial port loses no byte.
  \<^item> \<open>Arch_Layout\<close>, \<open>Arch_Sysregs\<close>, \<open>Arch_Traps\<close> (\<open>arch/src/\<close>): memory map, registers, syndrome
    decoder and PSCI calls.
  \<^item> \<open>Snapshot_State\<close>, \<open>Snapshot_Envelope\<close>, \<open>Dirty_Bitmap\<close>, \<open>Dirty_Tracking\<close>
    (\<open>snapshot/src/\<close>): capture and restore, the file envelope with the verdict on every input,
    dirty pages and the adaptive granule; the last also as interleavings of atomic steps.
  \<^item> \<open>Mmds_Pdu\<close>, \<open>Mmds_Wire\<close>, \<open>Mmds_Http\<close>, \<open>Mmds_Tcp\<close>, \<open>Mmds_Session\<close>, \<open>Mmds_Store\<close>,
    \<open>Mmds_Interceptor\<close> (\<open>mmds/src/\<close>): protocol units, the HTTP parser, the TCP server under a
    lossy network, JSON store and tokens, and the frame interceptor.
  \<^item> \<open>Api_Schema\<close>, \<open>Api_Validation\<close>, \<open>Api_Controller\<close> (\<open>api/src/\<close>): request bodies and their
    conversion, admission, handlers, routes and replay of a configuration file. \<open>Vmm_Loop\<close>
    (\<open>squib/src/vmm_loop.rs\<close>): the event loop and, as the relation \<open>api_step\<close>, its
    interleavings with calls in flight. \<open>Api_System\<close>: what every run keeps.

  \<^bold>\<open>What is shown.\<close> Each property is stated next to the definitions it spans, with a text that
  names it. In outline: the transport keeps its protocol under any guest; chains are walked
  exactly and rings served in order; a notification of a device ends and completes all that
  is pending, and what it reads or writes is exactly the driver's buffers; a read-only drive
  is never written; the metadata server calls its handler at most once per stream, serves a
  complete request, and in version 2 answers no read without a live token; the configuration
  handed to the hypervisor is well formed in every interleaving; snapshots round-trip and
  damaged ones are refused in a known order; dirty tracking misses nothing in sequence.
  Properties of kind error record where the code departs from this: chains and packets lost,
  a parser panic, two starts admitted at once, a size that escapes its cap, a racing mark.

  \<^bold>\<open>Loops.\<close> No property rests on a chosen bound. Loops of the devices are \<open>break_loop\<close>, shown to
  end for every ring whose parts do not overlap; walks over chains, byte strings and lists are
  recursive functions with a measure.

  \<^bold>\<open>Not modelled.\<close> The hypervisor backend (\<open>hv\<close>), the pager and file services of \<open>host\<close>, the
  network backends (\<open>net\<close>), the multiplexer tasks (\<open>squib/src/vsock_muxer.rs\<close>), the HTTP socket
  of \<open>api/src/server.rs\<close>, the snapshot file operations (\<open>save.rs\<close>, \<open>load.rs\<close>, \<open>memory.rs\<close>,
  \<open>atomic.rs\<close>) and the jailer are system calls, foreign functions or tasks of a runtime: the
  models meet them as parameters. Boot planning (\<open>loader\<close>, \<open>fdt\<close>, \<open>vmm\<close>) is the parameter
  \<open>launch\<close> of the event loop. The balloon, memory and pmem devices are not attached by this
  version of the device manager. Memory orderings of atomics are not modelled: each atomic
  access is one step.
\<close>

end
